(* ===== verification/Prelude.thy ===== *)
theory Prelude
  imports
    "HOL-Library.AList"
    "HOL-Library.Char_ord"
    "HOL-Library.List_Lexorder"
    "HOL-Library.Multiset"
    "HOL-Library.Sublist"
    "HOL-Library.Word"
begin

text \<open>
  Shared vocabulary of the development: the Go error values, the \<open>('e, 'a) io\<close> type of code that
  acts on an environment \<open>'e\<close> and may return an error, its sequencing combinators, a small Hoare
  logic for it with the rules collected in \<open>hoare_rules\<close>, Go maps as association lists, and
  the functions of the \<^verbatim>\<open>strings\<close> and \<^verbatim>\<open>strconv\<close> packages that the sources call.
\<close>

named_theorems hoare_rules \<open>introduction rules of the Hoare logic, one per combinator\<close>
named_theorems io_iff \<open>when a combinator returns, and when it fails\<close>
named_theorems go_defs \<open>definitions of Go library functions that witnesses unfold\<close>

section \<open>Errors\<close>

text \<open>
  \<open>errno\<close> is what a system call fails with; \<open>goerr\<close> is a Go \<^verbatim>\<open>error\<close> value.
  \<open>Msg\<close> is \<^verbatim>\<open>fmt.Errorf\<close> or \<^verbatim>\<open>errors.New\<close> without a wrapped error, \<open>Wrap\<close> is
  \<^verbatim>\<open>fmt.Errorf("...: %w", err)\<close>, \<open>Status\<close> is \<^verbatim>\<open>status.Error\<close> of gRPC, \<open>Panic\<close> a run-time panic.
  Message texts keep the constant part of the format string.
\<close>

datatype errno =
  ENOENT | EEXIST | ENOTDIR | EISDIR | ENOTEMPTY | ELOOP | EINVAL | EIO

datatype grpc_code = InvalidArgument | Unavailable | Unimplemented

datatype goerr =
    Sys errno
  | ErrNotFound
  | ErrInvalidJSON
  | Msg string
  | Wrap string goerr
  | Status grpc_code string
  | Panic string

text \<open>\<^verbatim>\<open>os.IsNotExist\<close> looks at the system error itself, \<^verbatim>\<open>errors.Is\<close> at the whole chain.\<close>

definition isNotExist :: "goerr \<Rightarrow> bool" where
  "isNotExist e \<longleftrightarrow> e = Sys ENOENT"

fun errors_Is :: "goerr \<Rightarrow> goerr \<Rightarrow> bool" where
  "errors_Is (Wrap s e) t \<longleftrightarrow> Wrap s e = t \<or> errors_Is e t"
| "errors_Is e t \<longleftrightarrow> e = t"

lemma errors_Is_refl [simp]: "errors_Is e e"
  by (cases e) auto

section \<open>Code acting on an environment\<close>

type_synonym ('e, 'a) io = "'e \<Rightarrow> (goerr + 'a) \<times> 'e"

definition ret :: "'a \<Rightarrow> ('e, 'a) io" where
  "ret x e = (Inr x, e)"

definition throw :: "goerr \<Rightarrow> ('e, 'a) io" where
  "throw err e = (Inl err, e)"

text \<open>\<open>andThen m f\<close> is \<^verbatim>\<open>x, err := m(); if err != nil { return err }; f(x)\<close>.\<close>

definition andThen :: "('e, 'a) io \<Rightarrow> ('a \<Rightarrow> ('e, 'b) io) \<Rightarrow> ('e, 'b) io" where
  "andThen m f e = (case m e of (Inl err, e') \<Rightarrow> (Inl err, e') | (Inr x, e') \<Rightarrow> f x e')"

text \<open>\<open>attempt m f\<close> hands the error or the value of \<open>m\<close> to the code that follows.\<close>

definition attempt :: "('e, 'a) io \<Rightarrow> (goerr + 'a \<Rightarrow> ('e, 'b) io) \<Rightarrow> ('e, 'b) io" where
  "attempt m f e = (case m e of (r, e') \<Rightarrow> f r e')"

text \<open>\<open>wrapping s m\<close> wraps an error of \<open>m\<close>: \<^verbatim>\<open>return fmt.Errorf(s + ": %w", err)\<close>.\<close>

definition wrapping :: "string \<Rightarrow> ('e, 'a) io \<Rightarrow> ('e, 'a) io" where
  "wrapping s m = attempt m (\<lambda>r. case r of Inl err \<Rightarrow> throw (Wrap s err) | Inr x \<Rightarrow> ret x)"

text \<open>\<open>ignoring m\<close> is a call whose error is dropped, \<^verbatim>\<open>_ = m()\<close>.\<close>

definition ignoring :: "('e, 'a) io \<Rightarrow> ('e, unit) io" where
  "ignoring m = attempt m (\<lambda>_. ret ())"

text \<open>A pure check that may fail.\<close>

definition lift_res :: "goerr + 'a \<Rightarrow> ('e, 'a) io" where
  "lift_res r e = (r, e)"

text \<open>\<open>for_each f xs\<close> is a \<^verbatim>\<open>for\<close> loop whose body returns early on an error.\<close>

fun for_each :: "('a \<Rightarrow> ('e, unit) io) \<Rightarrow> 'a list \<Rightarrow> ('e, unit) io" where
  "for_each f [] = ret ()"
| "for_each f (x # xs) = andThen (f x) (\<lambda>_. for_each f xs)"

text \<open>\<open>for_acc f xs a\<close> is a loop that also updates a variable \<open>a\<close>.\<close>

fun for_acc :: "('a \<Rightarrow> 'b \<Rightarrow> ('e, 'b) io) \<Rightarrow> 'a list \<Rightarrow> 'b \<Rightarrow> ('e, 'b) io" where
  "for_acc f [] a = ret a"
| "for_acc f (x # xs) a = andThen (f x a) (\<lambda>a'. for_acc f xs a')"

lemmas io_defs [go_defs] = ret_def throw_def andThen_def attempt_def wrapping_def ignoring_def lift_res_def

lemma andThen_Inr [io_iff]:
  "andThen m f e = (Inr x, e') \<longleftrightarrow> (\<exists>y e1. m e = (Inr y, e1) \<and> f y e1 = (Inr x, e'))"
  by (auto simp: andThen_def split: prod.splits sum.splits)

lemma andThen_Inl [io_iff]:
  "andThen m f e = (Inl err, e') \<longleftrightarrow> m e = (Inl err, e') \<or> (\<exists>y e1. m e = (Inr y, e1) \<and> f y e1 = (Inl err, e'))"
  by (auto simp: andThen_def split: prod.splits sum.splits)

lemma wrapping_Inr [io_iff]: "wrapping s m e = (Inr x, e') \<longleftrightarrow> m e = (Inr x, e')"
  by (auto simp: wrapping_def attempt_def ret_def throw_def split: prod.splits sum.splits)

lemma wrapping_Inl [io_iff]: "wrapping s m e = (Inl err, e') \<longleftrightarrow> (\<exists>err0. err = Wrap s err0 \<and> m e = (Inl err0, e'))"
  by (auto simp: wrapping_def attempt_def ret_def throw_def split: prod.splits sum.splits)

lemma ret_iff [io_iff]: "ret x e = (r, e') \<longleftrightarrow> r = Inr x \<and> e' = e"
  by (auto simp: ret_def)

lemma throw_iff [io_iff]: "throw err e = (r, e') \<longleftrightarrow> r = Inl err \<and> e' = e"
  by (auto simp: throw_def)

lemma lift_res_iff [io_iff]: "lift_res x e = (r, e') \<longleftrightarrow> x = r \<and> e' = e"
  by (auto simp: lift_res_def)

lemma attempt_iff [io_iff]:
  "attempt m f e = (r, e') \<longleftrightarrow>
     (\<exists>err e1. m e = (Inl err, e1) \<and> f (Inl err) e1 = (r, e')) \<or> (\<exists>x e1. m e = (Inr x, e1) \<and> f (Inr x) e1 = (r, e'))"
  by (cases "m e"; cases "fst (m e)") (auto simp: attempt_def)

lemma ignoring_iff [io_iff]: "ignoring m e = (r, e') \<longleftrightarrow> r = Inr () \<and> (\<exists>r1. m e = (r1, e'))"
  by (auto simp: ignoring_def attempt_def ret_def split: prod.splits)

section \<open>A Hoare logic with error postconditions\<close>

text \<open>
  \<open>hoare P m Q E\<close>: from every environment satisfying \<open>P\<close>, \<open>m\<close> either returns \<open>x\<close> in an
  environment satisfying \<open>Q x\<close> or fails with \<open>err\<close> in one satisfying \<open>E err\<close>. All code is
  total, so \<open>hoare P m Q (\<lambda>_ _. False)\<close> says that \<open>m\<close> succeeds.
\<close>

definition hoare ::
  "('e \<Rightarrow> bool) \<Rightarrow> ('e, 'a) io \<Rightarrow> ('a \<Rightarrow> 'e \<Rightarrow> bool) \<Rightarrow> (goerr \<Rightarrow> 'e \<Rightarrow> bool) \<Rightarrow> bool" where
  "hoare P m Q E \<longleftrightarrow>
     (\<forall>e. P e \<longrightarrow> (case m e of (Inr x, e') \<Rightarrow> Q x e' | (Inl err, e') \<Rightarrow> E err e'))"

lemma hoareI:
  assumes "\<And>e x e'. P e \<Longrightarrow> m e = (Inr x, e') \<Longrightarrow> Q x e'"
    and "\<And>e err e'. P e \<Longrightarrow> m e = (Inl err, e') \<Longrightarrow> E err e'"
  shows "hoare P m Q E"
  using assms by (auto simp: hoare_def split: prod.splits sum.splits)

lemma hoareD_ok: "hoare P m Q E \<Longrightarrow> P e \<Longrightarrow> m e = (Inr x, e') \<Longrightarrow> Q x e'"
  by (force simp: hoare_def)

lemma hoareD_err: "hoare P m Q E \<Longrightarrow> P e \<Longrightarrow> m e = (Inl err, e') \<Longrightarrow> E err e'"
  by (force simp: hoare_def)

lemma hoare_succeeds:
  assumes "hoare P m Q (\<lambda>_ _. False)" "P e"
  obtains x e' where "m e = (Inr x, e')" "Q x e'"
proof (cases "m e")
  case (Pair r e')
  with that assms show thesis
    by (cases r) (auto dest: hoareD_ok hoareD_err)
qed

lemma hoare_weaken:
  assumes "hoare P' m Q' E'" "\<And>e. P e \<Longrightarrow> P' e"
    and "\<And>x e. Q' x e \<Longrightarrow> Q x e" "\<And>err e. E' err e \<Longrightarrow> E err e"
  shows "hoare P m Q E"
  by (rule hoareI)
     (use assms hoareD_ok [OF assms(1)] hoareD_err [OF assms(1)] in metis)+

lemma hoare_pre: "hoare P' m Q E \<Longrightarrow> (\<And>e. P e \<Longrightarrow> P' e) \<Longrightarrow> hoare P m Q E"
  by (simp add: hoare_def)

lemma hoare_assume: "(C \<Longrightarrow> hoare P m Q E) \<Longrightarrow> hoare (\<lambda>e. P e \<and> C) m Q E"
  by (simp add: hoare_def)

lemma andThen_ret [simp]: "andThen (ret x) f = f x"
  by (rule ext) (simp add: andThen_def ret_def)

lemma andThen_throw [simp]: "andThen (throw e) f = throw e"
  by (rule ext) (simp add: andThen_def throw_def)

lemma andThen_assoc: "andThen (andThen m f) g = andThen m (\<lambda>x. andThen (f x) g)"
  by (rule ext) (simp add: andThen_def split: prod.splits sum.splits)

lemma hoare_ret [hoare_rules]: "hoare (Q x) (ret x) Q E"
  by (simp add: hoare_def ret_def)

lemma hoare_throw [hoare_rules]: "hoare (E err) (throw err) Q E"
  by (simp add: hoare_def throw_def)

lemma hoare_lift_res [hoare_rules]:
  "hoare (\<lambda>e. case r of Inl err \<Rightarrow> E err e | Inr x \<Rightarrow> Q x e) (lift_res r) Q E"
  by (simp add: hoare_def lift_res_def split: sum.splits)

lemma hoare_andThen:
  assumes "hoare P m R E" "\<And>x. hoare (R x) (f x) Q E"
  shows "hoare P (andThen m f) Q E"
  by (rule hoareI)
     (auto simp: andThen_def split: prod.splits sum.splits
       dest: hoareD_ok [OF assms(1)] hoareD_err [OF assms(1)] hoareD_ok [OF assms(2)] hoareD_err [OF assms(2)])

lemma hoare_attempt:
  assumes "hoare P m (\<lambda>x. R (Inr x)) (\<lambda>err. R (Inl err))" "\<And>r. hoare (R r) (f r) Q E"
  shows "hoare P (attempt m f) Q E"
proof -
  have "R r e'" if "P e" "m e = (r, e')" for e r e'
    using that hoareD_ok [OF assms(1)] hoareD_err [OF assms(1)] by (cases r) auto
  then show ?thesis
    by (intro hoareI)
       (auto simp: attempt_def split: prod.splits dest: hoareD_ok [OF assms(2)] hoareD_err [OF assms(2)])
qed

text \<open>The handler of a fallible call, one rule premise per outcome: what Go writes as \<open>if err != nil\<close>.\<close>

lemma hoare_cases:
  assumes "hoare P m R S" "\<And>err. hoare (S err) (f err) Q E" "\<And>x. hoare (R x) (g x) Q E"
  shows "hoare P (attempt m (case_sum f g)) Q E"
  by (rule hoare_attempt [where R = "case_sum S R"]) (use assms in \<open>auto split: sum.splits\<close>)

lemma hoare_ignoring:
  assumes "hoare P m (\<lambda>_. Q ()) (\<lambda>_. Q ())"
  shows "hoare P (ignoring m) Q E"
  unfolding ignoring_def
  by (rule hoare_attempt [where R = "\<lambda>_. Q ()"]) (use assms in \<open>auto simp: hoare_def ret_def\<close>)

lemma hoare_wrapping:
  assumes "hoare P m Q (\<lambda>err. E (Wrap s err))"
  shows "hoare P (wrapping s m) Q E"
  unfolding wrapping_def
  by (rule hoare_attempt [where R = "\<lambda>r. case r of Inl err \<Rightarrow> E (Wrap s err) | Inr x \<Rightarrow> Q x"])
     (use assms in \<open>auto simp: hoare_def ret_def throw_def split: sum.splits\<close>)

lemma hoare_for_each:
  assumes "\<And>x. x \<in> set xs \<Longrightarrow> hoare P (f x) (\<lambda>_. P) E"
  shows "hoare P (for_each f xs) (\<lambda>_. P) E"
  using assms
proof (induction xs)
  case Nil
  show ?case using hoare_ret by (simp add: hoare_def ret_def)
next
  case (Cons x xs)
  show ?case
    unfolding for_each.simps
    by (rule hoare_andThen [where R = "\<lambda>_. P"]) (use Cons in auto)
qed

text \<open>A loop whose invariant speaks about the part already processed.\<close>

lemma hoare_for_each_done:
  assumes "\<And>ys x zs. xs = ys @ x # zs \<Longrightarrow> hoare (P ys) (f x) (\<lambda>_. P (ys @ [x])) E"
  shows "hoare (P []) (for_each f xs) (\<lambda>_. P xs) E"
proof -
  have "hoare (P ys) (for_each f zs) (\<lambda>_. P xs) E" if "xs = ys @ zs" for ys zs
    using that
  proof (induction zs arbitrary: ys)
    case Nil
    then show ?case by (simp add: hoare_def ret_def)
  next
    case (Cons z zs)
    have "hoare (P (ys @ [z])) (for_each f zs) (\<lambda>_. P xs) E"
      by (rule Cons.IH) (use Cons.prems in simp)
    then show ?case
      unfolding for_each.simps
      by (intro hoare_andThen [where R = "\<lambda>_. P (ys @ [z])"]) (use assms Cons.prems in auto)
  qed
  from this [of "[]" xs] show ?thesis by simp
qed

lemma hoare_for_acc_done:
  assumes "\<And>ys x zs a. xs = ys @ x # zs \<Longrightarrow> hoare (P ys a) (f x a) (P (ys @ [x])) E"
  shows "hoare (P [] a) (for_acc f xs a) (P xs) E"
proof -
  have "hoare (P ys a) (for_acc f zs a) (P xs) E" if "xs = ys @ zs" for ys zs a
    using that
  proof (induction zs arbitrary: ys a)
    case Nil
    then show ?case by (simp add: hoare_def ret_def)
  next
    case (Cons z zs)
    have "hoare (P (ys @ [z]) a') (for_acc f zs a') (P xs) E" for a'
      by (rule Cons.IH) (use Cons.prems in simp)
    then show ?case
      unfolding for_acc.simps
      by (intro hoare_andThen [where R = "P (ys @ [z])"]) (use assms Cons.prems in auto)
  qed
  from this [of "[]" xs] show ?thesis by simp
qed

section \<open>Go maps\<close>

text \<open>
  A \<^verbatim>\<open>map[string]V\<close> is an association list with distinct keys; \<^verbatim>\<open>nil\<close> and the empty map are
  the empty list. The order of the list carries no meaning: loops over a map ask the environment
  for an order (see the theory of the operating system).
\<close>

type_synonym 'v gomap = "(string \<times> 'v) list"

abbreviation mget :: "'v gomap \<Rightarrow> string \<Rightarrow> 'v option" where
  "mget m k \<equiv> map_of m k"

abbreviation mput :: "string \<Rightarrow> 'v \<Rightarrow> 'v gomap \<Rightarrow> 'v gomap" where
  "mput k v m \<equiv> AList.update k v m"

abbreviation mdel :: "string \<Rightarrow> 'v gomap \<Rightarrow> 'v gomap" where
  "mdel k m \<equiv> AList.delete k m"

abbreviation mkeys :: "'v gomap \<Rightarrow> string list" where
  "mkeys m \<equiv> map fst m"

lemma map_of_update [simp]: "map_of (AList.update k v m) = (map_of m)(k \<mapsto> v)"
  by (rule AList.update_conv')

lemma map_of_delete [simp]: "map_of (AList.delete k m) = (map_of m)(k := None)"
  by (rule AList.delete_conv')

text \<open>One step of a computation whose first part is known to succeed or fail.\<close>

lemma andThen_run: "m e = (Inr x, e1) \<Longrightarrow> andThen m f e = f x e1"
  by (simp add: andThen_def)

lemma andThen_fail: "m e = (Inl err, e1) \<Longrightarrow> andThen m f e = (Inl err, e1)"
  by (simp add: andThen_def)

lemma attempt_run: "m e = (r, e1) \<Longrightarrow> attempt m f e = f r e1"
  by (simp add: attempt_def)

lemma ignoring_run: "m e = (r, e1) \<Longrightarrow> ignoring m e = (Inr (), e1)"
  by (simp add: ignoring_def attempt_def ret_def)

lemma wrapping_run: "m e = (Inr x, e1) \<Longrightarrow> wrapping s m e = (Inr x, e1)"
  by (simp add: wrapping_def attempt_def ret_def)

lemma wrapping_fail: "m e = (Inl err, e1) \<Longrightarrow> wrapping s m e = (Inl (Wrap s err), e1)"
  by (simp add: wrapping_def attempt_def throw_def)

lemma andThen_lift_res: "andThen (lift_res (Inl err)) k = throw err" "andThen (lift_res (Inr x)) k = k x"
  by (auto simp: fun_eq_iff lift_res_def andThen_def ret_def throw_def)

lemmas io_run = andThen_run andThen_fail attempt_run ignoring_run wrapping_run wrapping_fail

end
