(* ===== verification/Go_Path.thy ===== *)
theory Go_Path
  imports Prelude
begin

text \<open>
  The functions of Go's \<^verbatim>\<open>strings\<close>, \<^verbatim>\<open>path\<close>, \<^verbatim>\<open>path/filepath\<close> and \<^verbatim>\<open>io/fs\<close> packages that the
  sources call, on Linux, where the separator is \<^verbatim>\<open>'/'\<close>. A Go string is a list of bytes.
  The lemmas reduce every path expression to its list of components (\<open>pcomps\<close>), on which the
  file system of the next theory works.
\<close>

section \<open>Strings\<close>

text \<open>\<^verbatim>\<open>strings.Split(s, sep)\<close> for a separator of one byte.\<close>

fun splitc :: "char \<Rightarrow> string \<Rightarrow> string list" where
  "splitc c [] = [[]]"
| "splitc c (x # xs) =
     (if x = c then [] # splitc c xs
      else (case splitc c xs of [] \<Rightarrow> [[x]] | y # ys \<Rightarrow> (x # y) # ys))"

text \<open>\<^verbatim>\<open>strings.Join(xs, sep)\<close> for a separator of one byte.\<close>

fun joinc :: "char \<Rightarrow> string list \<Rightarrow> string" where
  "joinc c [] = []"
| "joinc c [x] = x"
| "joinc c (x # y # ys) = x @ c # joinc c (y # ys)"

text \<open>\<^verbatim>\<open>strings.HasPrefix\<close>, \<^verbatim>\<open>strings.TrimPrefix\<close>, \<^verbatim>\<open>strings.TrimSuffix\<close>.\<close>

definition hasPrefix :: "string \<Rightarrow> string \<Rightarrow> bool" where
  "hasPrefix s p \<longleftrightarrow> take (length p) s = p"

definition trimPrefix :: "string \<Rightarrow> string \<Rightarrow> string" where
  "trimPrefix s p = (if hasPrefix s p then drop (length p) s else s)"

definition trimSuffix :: "string \<Rightarrow> string \<Rightarrow> string" where
  "trimSuffix s p = rev (trimPrefix (rev s) (rev p))"

lemma splitc_not_Nil [simp]: "splitc c s \<noteq> []"
  by (induction s) (auto split: list.splits)

lemma splitc_no_sep: "x \<in> set (splitc c s) \<Longrightarrow> c \<notin> set x"
  by (induction s arbitrary: x) (force split: if_splits list.splits)+

lemma splitc_single: "c \<notin> set s \<Longrightarrow> splitc c s = [s]"
  by (induction s) auto

lemma splitc_append_sep: "splitc c (a @ c # b) = splitc c a @ splitc c b"
  by (induction a) (auto split: list.splits)

lemma joinc_splitc [simp]: "joinc c (splitc c s) = s"
proof (induction s)
  case (Cons x s)
  then show ?case
    by (cases "splitc c s" rule: list.exhaust; cases "tl (splitc c s)") auto
qed simp

lemma splitc_joinc:
  "xs \<noteq> [] \<Longrightarrow> \<forall>x \<in> set xs. c \<notin> set x \<Longrightarrow> splitc c (joinc c xs) = xs"
  by (induction c xs rule: joinc.induct) (auto simp: splitc_single splitc_append_sep)

lemma hd_splitc: "hd (splitc c s) = takeWhile (\<lambda>x. x \<noteq> c) s"
  by (induction s) (auto split: list.splits)

lemma joinc_append:
  "xs \<noteq> [] \<Longrightarrow> ys \<noteq> [] \<Longrightarrow> joinc c (xs @ ys) = joinc c xs @ c # joinc c ys"
proof (induction c xs rule: joinc.induct)
  case (2 c x)
  then show ?case by (cases ys) auto
qed auto

lemma hasPrefix_iff: "hasPrefix s p \<longleftrightarrow> (\<exists>r. s = p @ r)"
  unfolding hasPrefix_def by (metis append_eq_conv_conj append_take_drop_id)

lemma trimPrefix_append [simp]: "trimPrefix (p @ s) p = s"
  by (simp add: trimPrefix_def hasPrefix_def)

section \<open>Paths\<close>

abbreviation sep :: char where
  "sep \<equiv> CHR ''/''"

text \<open>\<^verbatim>\<open>path.IsAbs\<close>.\<close>

definition isAbs :: "string \<Rightarrow> bool" where
  "isAbs p = (case p of [] \<Rightarrow> False | c # _ \<Rightarrow> c = sep)"

text \<open>
  \<^verbatim>\<open>filepath.Clean\<close>. The second argument of \<open>clean_go\<close> is the reversed output buffer, the first
  says whether the path is rooted.
\<close>

fun clean_go :: "bool \<Rightarrow> string list \<Rightarrow> string list \<Rightarrow> string list" where
  "clean_go r out [] = rev out"
| "clean_go r out (c # cs) =
     (if c = [] \<or> c = ''.'' then clean_go r out cs
      else if c = ''..'' then
        (case out of
           [] \<Rightarrow> if r then clean_go r [] cs else clean_go r [''..''] cs
         | a # as \<Rightarrow> if a \<noteq> ''..'' then clean_go r as cs else clean_go r (''..'' # out) cs)
      else clean_go r (c # out) cs)"

definition clean :: "string \<Rightarrow> string" where
  "clean p =
     (if p = [] then ''.''
      else let cs = clean_go (isAbs p) [] (splitc sep p)
           in if isAbs p then sep # joinc sep cs
              else if cs = [] then ''.'' else joinc sep cs)"

text \<open>\<^verbatim>\<open>filepath.Join\<close> of two elements.\<close>

definition fjoin :: "string \<Rightarrow> string \<Rightarrow> string" where
  "fjoin a b =
     (if a \<noteq> [] then clean (a @ sep # b) else if b \<noteq> [] then clean b else [])"

text \<open>\<^verbatim>\<open>filepath.Split\<close>: everything up to and including the last separator, and the rest.\<close>

definition fsplit :: "string \<Rightarrow> string \<times> string" where
  "fsplit p = (let file = rev (takeWhile (\<lambda>c. c \<noteq> sep) (rev p))
               in (take (length p - length file) p, file))"

text \<open>\<^verbatim>\<open>filepath.Base\<close>.\<close>

definition fbase :: "string \<Rightarrow> string" where
  "fbase p =
     (if p = [] then ''.''
      else let q = rev (dropWhile (\<lambda>c. c = sep) (rev p));
               b = rev (takeWhile (\<lambda>c. c \<noteq> sep) (rev q))
           in if b = [] then ''/'' else b)"

text \<open>
  \<^verbatim>\<open>fs.ValidPath\<close>: unrooted, slash-separated, without empty, \<^verbatim>\<open>"."\<close> or \<^verbatim>\<open>".."\<close> elements, except
  that the root directory is named \<^verbatim>\<open>"."\<close>. (The check for valid UTF-8 is not modelled.)
\<close>

definition validFSPath :: "string \<Rightarrow> bool" where
  "validFSPath p \<longleftrightarrow>
     p = ''.'' \<or> (\<forall>c \<in> set (splitc sep p). c \<noteq> [] \<and> c \<noteq> ''.'' \<and> c \<noteq> ''..'')"

lemmas path_defs [go_defs] =
  hasPrefix_def trimPrefix_def trimSuffix_def isAbs_def clean_def fjoin_def fsplit_def fbase_def validFSPath_def

subsection \<open>Components\<close>

text \<open>The components a path resolution walks through: empty elements and \<^verbatim>\<open>"."\<close> are skipped.\<close>

definition pcomps :: "string \<Rightarrow> string list" where
  "pcomps p = filter (\<lambda>c. c \<noteq> [] \<and> c \<noteq> ''.'') (splitc sep p)"

text \<open>A proper file name, and a path without \<^verbatim>\<open>".."\<close>.\<close>

definition pname :: "string \<Rightarrow> bool" where
  "pname n \<longleftrightarrow> n \<noteq> [] \<and> n \<noteq> ''.'' \<and> n \<noteq> ''..'' \<and> sep \<notin> set n"

definition nodots :: "string \<Rightarrow> bool" where
  "nodots p \<longleftrightarrow> ''..'' \<notin> set (splitc sep p)"

lemma pcomps_Nil [simp]: "pcomps [] = []"
  by (simp add: pcomps_def)

lemma pcomps_pname: "nodots p \<Longrightarrow> c \<in> set (pcomps p) \<Longrightarrow> pname c"
  by (auto simp: pcomps_def pname_def nodots_def dest: splitc_no_sep)

lemma pcomps_append_sep: "pcomps (a @ sep # b) = pcomps a @ pcomps b"
  by (simp add: pcomps_def splitc_append_sep)

lemma nodots_append_sep: "nodots (a @ sep # b) \<longleftrightarrow> nodots a \<and> nodots b"
  by (auto simp: nodots_def splitc_append_sep)

lemma pcomps_name: "pname n \<Longrightarrow> pcomps n = [n]"
  by (simp add: pcomps_def pname_def splitc_single)

lemma nodots_name: "pname n \<Longrightarrow> nodots n"
  by (auto simp: nodots_def pname_def splitc_single)

lemma nodots_Nil [simp]: "nodots []"
  by (simp add: nodots_def)

lemma splitc_sep_Cons: "splitc sep (sep # p) = [] # splitc sep p"
  by simp

lemma pcomps_joinc: "\<forall>c \<in> set cs. pname c \<Longrightarrow> pcomps (joinc sep cs) = cs"
proof (cases "cs = []")
  case False
  assume "\<forall>c \<in> set cs. pname c"
  with False show ?thesis
    by (auto simp: pcomps_def pname_def splitc_joinc intro!: filter_True)
qed simp

lemma nodots_joinc: "\<forall>c \<in> set cs. pname c \<Longrightarrow> nodots (joinc sep cs)"
  by (cases "cs = []") (auto simp: nodots_def pname_def splitc_joinc)

lemma pcomps_sep_Cons: "pcomps (sep # p) = pcomps p"
  by (simp add: pcomps_def)

lemma nodots_sep_Cons: "nodots (sep # p) = nodots p"
  by (simp add: nodots_def)

lemma clean_go_nodots:
  "''..'' \<notin> set cs \<Longrightarrow> clean_go r out cs = rev out @ filter (\<lambda>c. c \<noteq> [] \<and> c \<noteq> ''.'') cs"
  by (induction r out cs rule: clean_go.induct) auto

lemma clean_nodots:
  assumes "nodots p"
  shows "clean p =
    (if isAbs p then sep # joinc sep (pcomps p)
     else if pcomps p = [] then ''.'' else joinc sep (pcomps p))"
  using assms by (auto simp: clean_def Let_def nodots_def clean_go_nodots pcomps_def isAbs_def)

lemma pcomps_clean [simp]: "nodots p \<Longrightarrow> pcomps (clean p) = pcomps p"
  using pcomps_joinc [of "pcomps p"] pcomps_pname [of p]
  by (auto simp: clean_nodots pcomps_sep_Cons) (simp add: pcomps_def)

lemma nodots_clean: "nodots p \<Longrightarrow> nodots (clean p)"
  using nodots_joinc [of "pcomps p"] pcomps_pname [of p]
  by (auto simp: clean_nodots nodots_sep_Cons) (simp add: nodots_def)

lemma pcomps_fjoin [simp]:
  "nodots a \<Longrightarrow> nodots b \<Longrightarrow> pcomps (fjoin a b) = pcomps a @ pcomps b"
  by (simp add: fjoin_def nodots_append_sep pcomps_append_sep)

lemma nodots_fjoin [simp]: "nodots a \<Longrightarrow> nodots b \<Longrightarrow> nodots (fjoin a b)"
  by (simp add: fjoin_def nodots_append_sep nodots_clean)

lemma clean_go_no_empty: "[] \<notin> set out \<Longrightarrow> [] \<notin> set (clean_go r out cs)"
  by (induction r out cs rule: clean_go.induct) (auto split: list.splits)

lemma joinc_eq_Nil: "[] \<notin> set xs \<Longrightarrow> joinc c xs = [] \<longleftrightarrow> xs = []"
  by (cases "(c, xs)" rule: joinc.cases) auto

lemma clean_not_Nil [simp]: "clean p \<noteq> []"
  by (auto simp: clean_def Let_def joinc_eq_Nil clean_go_no_empty)

lemma fjoin_not_Nil [simp]: "a \<noteq> [] \<Longrightarrow> fjoin a b \<noteq> []"
  by (simp add: fjoin_def)

lemma fbase_name: "pname n \<Longrightarrow> fbase (d @ sep # n) = n"
proof -
  assume n: "pname n"
  have "dropWhile (\<lambda>c. c = sep) (rev n @ sep # rev d) = rev n @ sep # rev d"
    using n by (cases "rev n") (auto simp: pname_def)
  moreover have "takeWhile (\<lambda>c. c \<noteq> sep) (rev n @ sep # rev d) = rev n"
    using n by (subst takeWhile_append2) (auto simp: pname_def)
  ultimately show ?thesis
    using n by (simp add: fbase_def pname_def)
qed

subsection \<open>Cleaned paths\<close>

text \<open>A cleaned path below the root or the working directory.\<close>

definition canon :: "string \<Rightarrow> bool" where
  "canon p \<longleftrightarrow> nodots p \<and> pcomps p \<noteq> [] \<and>
     p = (if isAbs p then sep # joinc sep (pcomps p) else joinc sep (pcomps p))"

lemma canon_clean: "nodots p \<Longrightarrow> pcomps p \<noteq> [] \<Longrightarrow> canon (clean p)"
proof -
  assume p: "nodots p" "pcomps p \<noteq> []"
  then obtain c cs where cs: "pcomps p = c # cs" "pname c"
    using pcomps_pname [of p] by (cases "pcomps p") auto
  then have "\<not> isAbs (joinc sep (pcomps p))"
    by (cases cs; cases c) (auto simp: isAbs_def pname_def)
  moreover have "isAbs (sep # joinc sep (pcomps p))"
    by (simp add: isAbs_def)
  ultimately show ?thesis
    using p nodots_clean [OF p(1)] pcomps_clean [OF p(1)] clean_nodots [OF p(1)]
    by (simp add: canon_def)
qed

lemma canon_fjoin:
  "nodots a \<Longrightarrow> nodots b \<Longrightarrow> a \<noteq> [] \<Longrightarrow> pcomps a @ pcomps b \<noteq> [] \<Longrightarrow> canon (fjoin a b)"
  unfolding fjoin_def
  by (auto simp: nodots_append_sep pcomps_append_sep intro!: canon_clean)

lemma canon_nodots: "canon p \<Longrightarrow> nodots p"
  by (simp add: canon_def)

lemma canon_not_Nil: "canon p \<Longrightarrow> p \<noteq> []"
  by (auto simp: canon_def)

lemma fjoin_canon_name:
  assumes "canon p" "pname n"
  shows "fjoin p n = p @ sep # n" and "canon (p @ sep # n)"
proof -
  have nd: "nodots (p @ sep # n)" and pc: "pcomps (p @ sep # n) = pcomps p @ [n]"
    using assms by (auto simp: canon_def nodots_append_sep nodots_name pcomps_append_sep pcomps_name)
  have abs: "isAbs (p @ sep # n) = isAbs p"
    using canon_not_Nil [OF assms(1)] by (cases p) (auto simp: isAbs_def)
  have str: "p @ sep # n =
      (if isAbs p then sep # joinc sep (pcomps p @ [n]) else joinc sep (pcomps p @ [n]))"
    using assms(1) by (auto simp: canon_def joinc_append split: if_splits)
  have "clean (p @ sep # n) = p @ sep # n"
    unfolding clean_nodots [OF nd] abs pc using str by simp
  then show "fjoin p n = p @ sep # n"
    using canon_not_Nil [OF assms(1)] by (simp add: fjoin_def)
  show "canon (p @ sep # n)"
    unfolding canon_def abs pc using nd str by simp
qed

lemma isAbs_joinc_pname: "\<forall>c \<in> set cs. pname c \<Longrightarrow> \<not> isAbs (joinc sep cs)"
  by (cases "(sep, cs)" rule: joinc.cases; cases "hd cs")
     (auto simp: isAbs_def pname_def split: list.splits)

text \<open>Cleaned relative paths are equal when their components are.\<close>

lemma canon_rel_inj:
  "canon p \<Longrightarrow> canon q \<Longrightarrow> \<not> isAbs p \<Longrightarrow> \<not> isAbs q \<Longrightarrow> pcomps p = pcomps q \<Longrightarrow> p = q"
  by (simp add: canon_def)

end
