(* ===== verification/Go_OS.thy ===== *)
theory Go_OS
  imports Go_Path
begin

text \<open>
  The part of a Linux file system and of Go's \<^verbatim>\<open>os\<close>, \<^verbatim>\<open>io/fs\<close> and \<^verbatim>\<open>path/filepath\<close> packages that
  the driver uses. A file system maps absolute component lists to directories, regular files and
  symbolic links; path resolution follows links, at most forty of them, as the kernel does. The
  process runs as root with working directory \<^verbatim>\<open>"/"\<close>, so relative and absolute names of the same
  components denote the same file and permission bits are recorded but do not stop a call.

  Every system call first asks the environment whether it fails (\<open>faulty\<close>): an arbitrary
  schedule of failing calls stands for I/O errors, and a schedule that fails from some call on
  stands for a crash at that call. Loops over Go maps ask the environment for an order (\<open>mapord\<close>).
\<close>

unbundle bit_operations_syntax

section \<open>Files and the world\<close>

type_synonym mode = "32 word"

record attr =
  a_mode :: mode
  a_uid :: int
  a_gid :: int

datatype node = Dir attr | File attr string | Link string

type_synonym fpath = "string list"
type_synonym fs = "(fpath \<times> node) list"

text \<open>Wall-clock time, as \<^verbatim>\<open>time.Now().UTC()\<close> gives it to \<^verbatim>\<open>Format\<close>.\<close>

record clock =
  c_year :: nat
  c_month :: nat
  c_day :: nat
  c_hour :: nat
  c_min :: nat
  c_sec :: nat

record world =
  wfs :: fs
  tick :: nat
  faulty :: "nat \<Rightarrow> bool"
  iters :: nat
  mapord :: "nat \<Rightarrow> string list \<Rightarrow> string list"
  now :: clock
  rnd :: "nat \<Rightarrow> 32 word"
  rndpos :: nat
  umask :: mode
  goos :: string

type_synonym 'a os = "(world, 'a) io"

text \<open>The environment may reorder the keys of a map, nothing else.\<close>

definition world_ok :: "world \<Rightarrow> bool" where
  "world_ok w \<longleftrightarrow> (\<forall>n ks. mset (mapord w n ks) = mset ks)"

text \<open>\<^verbatim>\<open>for k := range m\<close>: the keys in an order of the environment's choice.\<close>

definition map_range :: "string list \<Rightarrow> string list os" where
  "map_range ks w = (Inr (mapord w (iters w) ks), w\<lparr>iters := Suc (iters w)\<rparr>)"

section \<open>Path resolution\<close>

fun walk :: "nat \<Rightarrow> fs \<Rightarrow> bool \<Rightarrow> fpath \<Rightarrow> string list \<Rightarrow> errno + fpath" where
  "walk b f follow cur [] = Inr cur"
| "walk b f follow cur (c # cs) =
     (if c = ''..'' then walk b f follow (butlast cur) cs
      else (case map_of f (cur @ [c]) of
          None \<Rightarrow> if cs = [] then Inr (cur @ [c]) else Inl ENOENT
        | Some (Dir _) \<Rightarrow> walk b f follow (cur @ [c]) cs
        | Some (File _ _) \<Rightarrow> if cs = [] then Inr (cur @ [c]) else Inl ENOTDIR
        | Some (Link t) \<Rightarrow>
            if cs = [] \<and> \<not> follow then Inr (cur @ [c])
            else (case b of
                0 \<Rightarrow> Inl ELOOP
              | Suc b' \<Rightarrow> walk b' f follow (if isAbs t then [] else cur) (pcomps t @ cs))))"

definition maxSymlinks :: nat where
  "maxSymlinks = 40"

definition resolve :: "fs \<Rightarrow> bool \<Rightarrow> string \<Rightarrow> errno + fpath" where
  "resolve f follow p =
     (if p = [] then Inl ENOENT else walk maxSymlinks f follow [] (pcomps p))"

section \<open>System calls\<close>

definition syscall :: "(world \<Rightarrow> errno + 'a \<times> fs) \<Rightarrow> 'a os" where
  "syscall k w =
     (let w' = w\<lparr>tick := Suc (tick w)\<rparr>
      in if faulty w (tick w) then (Inl (Sys EIO), w')
         else (case k w of
             Inl e \<Rightarrow> (Inl (Sys e), w')
           | Inr (x, f) \<Rightarrow> (Inr x, w'\<lparr>wfs := f\<rparr>)))"

text \<open>A system call on one path: resolve it, then act on the node found there.\<close>

definition pathcall :: "bool \<Rightarrow> string \<Rightarrow> (fs \<Rightarrow> fpath \<Rightarrow> errno + 'a \<times> fs) \<Rightarrow> 'a os" where
  "pathcall follow p k =
     syscall (\<lambda>w. case resolve (wfs w) follow p of
         Inl e \<Rightarrow> Inl e
       | Inr r \<Rightarrow> k (wfs w) r)"

definition k_lstat :: "fs \<Rightarrow> fpath \<Rightarrow> errno + node \<times> fs" where
  "k_lstat f r = (case map_of f r of None \<Rightarrow> Inl ENOENT | Some n \<Rightarrow> Inr (n, f))"

definition k_readlink :: "fs \<Rightarrow> fpath \<Rightarrow> errno + string \<times> fs" where
  "k_readlink f r =
     (case map_of f r of
        None \<Rightarrow> Inl ENOENT
      | Some (Link t) \<Rightarrow> Inr (t, f)
      | Some _ \<Rightarrow> Inl EINVAL)"

definition k_create :: "node \<Rightarrow> fs \<Rightarrow> fpath \<Rightarrow> errno + unit \<times> fs" where
  "k_create n f r =
     (case map_of f r of
        None \<Rightarrow> Inr ((), AList.update r n f)
      | Some _ \<Rightarrow> Inl EEXIST)"

definition k_unlink :: "fs \<Rightarrow> fpath \<Rightarrow> errno + unit \<times> fs" where
  "k_unlink f r =
     (case map_of f r of
        None \<Rightarrow> Inl ENOENT
      | Some (Dir _) \<Rightarrow> Inl EISDIR
      | Some _ \<Rightarrow> Inr ((), AList.delete r f))"

text \<open>The names in a directory, in the sorted order in which \<^verbatim>\<open>os.ReadDir\<close> returns them.\<close>

definition children :: "fs \<Rightarrow> fpath \<Rightarrow> string list" where
  "children f r =
     sort (remdups [last p. (p, _) \<leftarrow> f, p \<noteq> [] \<and> butlast p = r])"

definition k_rmdir :: "fs \<Rightarrow> fpath \<Rightarrow> errno + unit \<times> fs" where
  "k_rmdir f r =
     (case map_of f r of
        None \<Rightarrow> Inl ENOENT
      | Some (Dir _) \<Rightarrow>
          if r = [] then Inl EINVAL
          else if children f r = [] then Inr ((), AList.delete r f) else Inl ENOTEMPTY
      | Some _ \<Rightarrow> Inl ENOTDIR)"

definition k_readdir :: "fs \<Rightarrow> fpath \<Rightarrow> errno + string list \<times> fs" where
  "k_readdir f r =
     (case map_of f r of
        None \<Rightarrow> Inl ENOENT
      | Some (Dir _) \<Rightarrow> Inr (children f r, f)
      | Some _ \<Rightarrow> Inl ENOTDIR)"

text \<open>\<^verbatim>\<open>open(O_CREATE|O_TRUNC)\<close>, a write through the open file, and reading a whole file.\<close>

definition k_open_trunc :: "attr \<Rightarrow> fs \<Rightarrow> fpath \<Rightarrow> errno + unit \<times> fs" where
  "k_open_trunc a f r =
     (case map_of f r of
        None \<Rightarrow> Inr ((), AList.update r (File a []) f)
      | Some (File a' _) \<Rightarrow> Inr ((), AList.update r (File a' []) f)
      | Some (Dir _) \<Rightarrow> Inl EISDIR
      | Some (Link _) \<Rightarrow> Inl ELOOP)"

definition k_write :: "string \<Rightarrow> fs \<Rightarrow> fpath \<Rightarrow> errno + unit \<times> fs" where
  "k_write d f r =
     (case map_of f r of
        Some (File a d') \<Rightarrow> Inr ((), AList.update r (File a (d' @ d)) f)
      | _ \<Rightarrow> Inl EINVAL)"

definition k_read :: "fs \<Rightarrow> fpath \<Rightarrow> errno + string \<times> fs" where
  "k_read f r =
     (case map_of f r of
        None \<Rightarrow> Inl ENOENT
      | Some (File _ d) \<Rightarrow> Inr (d, f)
      | Some (Dir _) \<Rightarrow> Inl EISDIR
      | Some (Link _) \<Rightarrow> Inl ELOOP)"

fun map_attr :: "(attr \<Rightarrow> attr) \<Rightarrow> node \<Rightarrow> node" where
  "map_attr g (Dir a) = Dir (g a)"
| "map_attr g (File a d) = File (g a) d"
| "map_attr g (Link t) = Link t"

definition k_setattr :: "(attr \<Rightarrow> attr) \<Rightarrow> fs \<Rightarrow> fpath \<Rightarrow> errno + unit \<times> fs" where
  "k_setattr g f r =
     (case map_of f r of
        None \<Rightarrow> Inl ENOENT
      | Some n \<Rightarrow> Inr ((), AList.update r (map_attr g n) f))"

text \<open>
  \<^verbatim>\<open>rename(2)\<close>: an existing destination is replaced by one update. A directory moves with
  everything below it.
\<close>

definition k_rename :: "fs \<Rightarrow> fpath \<Rightarrow> fpath \<Rightarrow> errno + unit \<times> fs" where
  "k_rename f r r' =
     (case map_of f r of
        None \<Rightarrow> Inl ENOENT
      | Some (Dir a) \<Rightarrow>
          if prefix r r' then Inl EINVAL
          else (case map_of f r' of
              Some (Dir _) \<Rightarrow>
                if children f r' = []
                then Inr ((), [(if prefix r p then r' @ drop (length r) p else p, n). (p, n) \<leftarrow> AList.delete r' f])
                else Inl ENOTEMPTY
            | Some _ \<Rightarrow> Inl ENOTDIR
            | None \<Rightarrow> Inr ((), [(if prefix r p then r' @ drop (length r) p else p, n). (p, n) \<leftarrow> f]))
      | Some n \<Rightarrow>
          (case map_of f r' of
             Some (Dir _) \<Rightarrow> Inl EISDIR
           | _ \<Rightarrow> Inr ((), if r = r' then f else AList.update r' n (AList.delete r f))))"

section \<open>Functions of package os\<close>

definition permBits :: mode where
  "permBits = 0x1FF"

text \<open>
  The mode bits a call passes to the kernel: the permission bits of an \<^verbatim>\<open>os.FileMode\<close> with its
  setuid, setgid and sticky flags moved to where the kernel wants them (\<^verbatim>\<open>syscallMode\<close>).
\<close>

definition syscallMode :: "mode \<Rightarrow> mode" where
  "syscallMode m =
     (m AND permBits) OR (if bit m 23 then 0x800 else 0) OR (if bit m 22 then 0x400 else 0)
     OR (if bit m 20 then 0x200 else 0)"

definition newAttr :: "mode \<Rightarrow> world \<Rightarrow> attr" where
  "newAttr m w = \<lparr>a_mode = syscallMode m AND NOT (umask w), a_uid = 0, a_gid = 0\<rparr>"

definition osStat :: "string \<Rightarrow> node os" where
  "osStat p = pathcall True p k_lstat"

definition osLstat :: "string \<Rightarrow> node os" where
  "osLstat p = pathcall False p k_lstat"

definition osReadlink :: "string \<Rightarrow> string os" where
  "osReadlink p = pathcall False p k_readlink"

definition osMkdir :: "string \<Rightarrow> mode \<Rightarrow> unit os" where
  "osMkdir p m w = pathcall False p (k_create (Dir (newAttr m w))) w"

definition osSymlink :: "string \<Rightarrow> string \<Rightarrow> unit os" where
  "osSymlink t p = pathcall False p (k_create (Link t))"

definition osRename :: "string \<Rightarrow> string \<Rightarrow> unit os" where
  "osRename p p' = syscall (\<lambda>w. case resolve (wfs w) False p of
       Inl e \<Rightarrow> Inl e
     | Inr r \<Rightarrow> (case resolve (wfs w) False p' of
         Inl e \<Rightarrow> Inl e
       | Inr r' \<Rightarrow> k_rename (wfs w) r r'))"

definition osChmod :: "string \<Rightarrow> mode \<Rightarrow> unit os" where
  "osChmod p m = pathcall True p (k_setattr (\<lambda>a. a\<lparr>a_mode := syscallMode m\<rparr>))"

text \<open>
  \<^verbatim>\<open>os.Chown\<close>: the system call takes 32-bit ids; the id with all bits set, which is -1, leaves the
  field unchanged.
\<close>

definition chownId :: "int \<Rightarrow> int \<Rightarrow> int" where
  "chownId i old = (if i mod 4294967296 = 4294967295 then old else i mod 4294967296)"

definition osChown :: "string \<Rightarrow> int \<Rightarrow> int \<Rightarrow> unit os" where
  "osChown p u g = pathcall True p (k_setattr (\<lambda>a.
     a\<lparr>a_uid := chownId u (a_uid a), a_gid := chownId g (a_gid a)\<rparr>))"

definition osReadDir :: "string \<Rightarrow> string list os" where
  "osReadDir p = pathcall True p k_readdir"

definition osReadFile :: "string \<Rightarrow> string os" where
  "osReadFile p = pathcall True p k_read"

definition osOpenTrunc :: "string \<Rightarrow> mode \<Rightarrow> unit os" where
  "osOpenTrunc p m w = pathcall True p (k_open_trunc (newAttr m w)) w"

definition osAppend :: "string \<Rightarrow> string \<Rightarrow> unit os" where
  "osAppend p d = pathcall True p (k_write d)"

text \<open>\<^verbatim>\<open>os.WriteFile\<close> opens with \<^verbatim>\<open>O_CREATE|O_TRUNC\<close>, then writes.\<close>

definition osWriteFile :: "string \<Rightarrow> string \<Rightarrow> mode \<Rightarrow> unit os" where
  "osWriteFile p d m = andThen (osOpenTrunc p m) (\<lambda>_. osAppend p d)"

text \<open>\<^verbatim>\<open>os.Remove\<close> tries \<^verbatim>\<open>unlink\<close>, then \<^verbatim>\<open>rmdir\<close>.\<close>

definition osRemove :: "string \<Rightarrow> unit os" where
  "osRemove p = attempt (pathcall False p k_unlink) (\<lambda>r. case r of
       Inr _ \<Rightarrow> ret ()
     | Inl e \<Rightarrow> attempt (pathcall False p k_rmdir) (\<lambda>r'. case r' of
         Inr _ \<Rightarrow> ret ()
       | Inl e' \<Rightarrow> throw (if e' = Sys ENOTDIR then e else e')))"

text \<open>
  \<^verbatim>\<open>os.RemoveAll\<close> removes everything it can below the path, deepest entries first, and returns
  the first error. \<open>rm_tree\<close> removes the listed nodes, keeping the first error.
\<close>

definition k_remove :: "fs \<Rightarrow> fpath \<Rightarrow> errno + unit \<times> fs" where
  "k_remove f r = (case map_of f r of Some (Dir _) \<Rightarrow> k_rmdir f r | _ \<Rightarrow> k_unlink f r)"

fun rm_tree :: "fpath list \<Rightarrow> goerr option \<Rightarrow> unit os" where
  "rm_tree [] err = (case err of None \<Rightarrow> ret () | Some e \<Rightarrow> throw e)"
| "rm_tree (p # ps) err =
     attempt (syscall (\<lambda>w. k_remove (wfs w) p)) (\<lambda>r. rm_tree ps (case r of
         Inr _ \<Rightarrow> err
       | Inl e \<Rightarrow> if isNotExist e then err else if err = None then Some e else err))"

definition below :: "fs \<Rightarrow> fpath \<Rightarrow> fpath list" where
  "below f r = rev (sort_key length (remdups [p. (p, _) \<leftarrow> f, prefix r p]))"

definition osRemoveAll :: "string \<Rightarrow> unit os" where
  "osRemoveAll p =
     (if p = [] then ret ()
      else if p = ''.'' \<or> drop (length p - 2) p = ''/.'' then throw (Sys EINVAL)
      else attempt (osRemove p) (\<lambda>r. case r of
          Inr _ \<Rightarrow> ret ()
        | Inl e \<Rightarrow>
            if isNotExist e then ret ()
            else (\<lambda>w. case resolve (wfs w) False p of
                Inl e' \<Rightarrow> (Inl (Sys e'), w)
              | Inr q \<Rightarrow> rm_tree (below (wfs w) q) None w)))"

text \<open>
  \<^verbatim>\<open>os.MkdirAll\<close>: a path that already is a directory is fine; otherwise make the parents first.
  The recursion is on the components, the call on the directory named by each prefix.
\<close>

function mkdirAllC :: "bool \<Rightarrow> fpath \<Rightarrow> mode \<Rightarrow> unit os" where
  "mkdirAllC ab cs m =
     (let p = (if ab then sep # joinc sep cs else joinc sep cs)
      in if cs = [] then ret ()
         else attempt (osStat p) (\<lambda>r. case r of
             Inr (Dir _) \<Rightarrow> ret ()
           | Inr _ \<Rightarrow> throw (Sys ENOTDIR)
           | Inl _ \<Rightarrow> andThen (mkdirAllC ab (butlast cs) m) (\<lambda>_.
               attempt (osMkdir p m) (\<lambda>r'. case r' of
                   Inr _ \<Rightarrow> ret ()
                 | Inl e \<Rightarrow> attempt (osLstat p) (\<lambda>r''. case r'' of
                     Inr (Dir _) \<Rightarrow> ret ()
                   | _ \<Rightarrow> throw e)))))"
  by pat_completeness auto
termination
  by (relation "measure (\<lambda>(ab, cs, m). length cs)") auto

declare mkdirAllC.simps [simp del]

definition osMkdirAll :: "string \<Rightarrow> mode \<Rightarrow> unit os" where
  "osMkdirAll p m = (if p = [] then throw (Sys ENOENT) else mkdirAllC (isAbs p) (pcomps p) m)"

subsection \<open>Temporary directories\<close>

definition digit :: "nat \<Rightarrow> char" where
  "digit d = ''0123456789'' ! d"

text \<open>Decimal digits of a number, and padding with zeros to a width.\<close>

fun itoa :: "nat \<Rightarrow> string" where
  "itoa n = (if n < 10 then [digit n] else itoa (n div 10) @ [digit (n mod 10)])"

declare itoa.simps [simp del]

definition padded :: "nat \<Rightarrow> nat \<Rightarrow> string" where
  "padded k n = (let s = itoa n in replicate (k - length s) CHR ''0'' @ s)"

text \<open>\<^verbatim>\<open>t.Format("..2006_01_02_15_04_05.")\<close>.\<close>

definition formatStamp :: "clock \<Rightarrow> string" where
  "formatStamp c = ''..'' @ padded 4 (c_year c) @ ''_'' @ padded 2 (c_month c) @ ''_'' @
     padded 2 (c_day c) @ ''_'' @ padded 2 (c_hour c) @ ''_'' @ padded 2 (c_min c) @ ''_'' @
     padded 2 (c_sec c) @ ''.''"

text \<open>
  \<^verbatim>\<open>os.MkdirTemp(dir, prefix)\<close>: a random number is appended to the prefix, a name that already
  exists is retried, at most ten thousand times.
\<close>

definition nextRandom :: "string os" where
  "nextRandom w = (Inr (itoa (unat (rnd w (rndpos w)))), w\<lparr>rndpos := Suc (rndpos w)\<rparr>)"

definition joinPath :: "string \<Rightarrow> string \<Rightarrow> string" where
  "joinPath dir name = (if dir \<noteq> [] \<and> last dir = sep then dir @ name else dir @ sep # name)"

fun mkdirTemp_loop :: "nat \<Rightarrow> string \<Rightarrow> string \<Rightarrow> string os" where
  "mkdirTemp_loop 0 dir pre = throw (Sys EEXIST)"
| "mkdirTemp_loop (Suc n) dir pre =
     andThen nextRandom (\<lambda>s.
       let name = joinPath dir (pre @ s)
       in attempt (osMkdir name 0x1C0) (\<lambda>r. case r of
           Inr _ \<Rightarrow> ret name
         | Inl e \<Rightarrow> if e = Sys EEXIST then mkdirTemp_loop n dir pre
                   else if isNotExist e then
                     attempt (osStat dir) (\<lambda>r'. case r' of
                         Inl e' \<Rightarrow> throw (if isNotExist e' then e' else e)
                       | Inr _ \<Rightarrow> throw e)
                   else throw e))"

definition osMkdirTemp :: "string \<Rightarrow> string \<Rightarrow> string os" where
  "osMkdirTemp dir pre = mkdirTemp_loop 10000 dir pre"

subsection \<open>Walking a directory tree\<close>

text \<open>
  \<^verbatim>\<open>filepath.Walk\<close> with a visitor that records every path it is called with and returns
  \<^verbatim>\<open>nil\<close>, whatever error it is handed. The first argument bounds the depth of the recursion; the
  caller passes a bound on the depth of the whole file system (\<open>fsdepth\<close>).
\<close>

fun walkTree :: "nat \<Rightarrow> string \<Rightarrow> node \<Rightarrow> string list \<Rightarrow> string list os" where
  "walkTree n path (File _ _) acc = ret (acc @ [path])"
| "walkTree n path (Link _) acc = ret (acc @ [path])"
| "walkTree 0 path (Dir _) acc = ret acc"
| "walkTree (Suc n) path (Dir _) acc =
     attempt (osReadDir path) (\<lambda>r. case r of
         Inl _ \<Rightarrow> ret (acc @ [path])
       | Inr names \<Rightarrow> for_acc (\<lambda>name acc'.
           let filename = fjoin path name
           in attempt (osLstat filename) (\<lambda>r'. case r' of
               Inl _ \<Rightarrow> ret (acc' @ [filename])
             | Inr info \<Rightarrow> walkTree n filename info acc')) names (acc @ [path]))"

definition fsdepth :: "fs \<Rightarrow> nat" where
  "fsdepth f = Suc (fold (\<lambda>(p, _). max (length p)) f 0)"

definition fpWalk :: "string \<Rightarrow> string list os" where
  "fpWalk root = attempt (osLstat root) (\<lambda>r. case r of
       Inl _ \<Rightarrow> ret [root]
     | Inr info \<Rightarrow> (\<lambda>w. walkTree (fsdepth (wfs w)) root info [] w))"

subsection \<open>os.DirFS\<close>

text \<open>
  Opening a file through \<^verbatim>\<open>os.DirFS("/")\<close>: a name that is not a valid \<^verbatim>\<open>io/fs\<close> path, in
  particular every absolute one, is refused before the file system is touched. The result is the
  node, for a file with the content that reading it gives.
\<close>

definition dirfsOpen :: "string \<Rightarrow> node os" where
  "dirfsOpen p = (if validFSPath p then osStat (sep # p) else throw (Sys EINVAL))"

definition dirfsReadDir :: "string \<Rightarrow> string list os" where
  "dirfsReadDir p = (if validFSPath p then osReadDir (sep # p) else throw (Sys EINVAL))"

end
