(* ===== verification/OS_Facts.thy ===== *)
theory OS_Facts
  imports Go_OS
begin

text \<open>
  Laws of the file system model: well-formed file systems, where a path resolution ends, what a
  system call may change, and Hoare rules that lift facts about file systems (\<open>on_fs\<close>) to code.
  \<open>framed f0 S\<close> is the invariant the components use: the file system is well formed and differs
  from \<open>f0\<close> at most at the paths in \<open>S\<close>.
\<close>

section \<open>Well-formed file systems\<close>

definition isdir :: "fs \<Rightarrow> fpath \<Rightarrow> bool" where
  "isdir f p \<longleftrightarrow> (\<exists>a. map_of f p = Some (Dir a))"

definition islink :: "fs \<Rightarrow> fpath \<Rightarrow> bool" where
  "islink f p \<longleftrightarrow> (\<exists>t. map_of f p = Some (Link t))"

definition wf_fs :: "fs \<Rightarrow> bool" where
  "wf_fs f \<longleftrightarrow> isdir f [] \<and>
     (\<forall>p c. map_of f (p @ [c]) \<noteq> None \<longrightarrow> pname c \<and> isdir f p)"

lemma wf_fs_parent: "wf_fs f \<Longrightarrow> map_of f (p @ [c]) = Some n \<Longrightarrow> pname c \<and> isdir f p"
  by (auto simp: wf_fs_def)

lemma wf_fs_prefix:
  assumes "wf_fs f" "map_of f (p @ q) \<noteq> None" "q \<noteq> []"
  shows "isdir f p \<and> (\<forall>c \<in> set q. pname c)"
  using assms(2,3)
proof (induction q rule: rev_induct)
  case (snoc c q)
  then have c: "pname c" and d: "isdir f (p @ q)"
    using assms(1) unfolding wf_fs_def by (metis append.assoc)+
  show ?case
  proof (cases "q = []")
    case False
    with snoc.IH d c show ?thesis by (auto simp: isdir_def)
  qed (use c d in auto)
qed simp

lemma wf_fs_names: "wf_fs f \<Longrightarrow> map_of f p \<noteq> None \<Longrightarrow> \<forall>c \<in> set p. pname c"
  using wf_fs_prefix [of f "[]" p] by (cases "p = []") auto

lemma wf_fs_isdir_names: "wf_fs f \<Longrightarrow> isdir f p \<Longrightarrow> \<forall>c \<in> set p. pname c"
  by (rule wf_fs_names) (auto simp: isdir_def)

lemma wf_fs_absent_below:
  "wf_fs f \<Longrightarrow> \<not> isdir f p \<Longrightarrow> q \<noteq> [] \<Longrightarrow> map_of f (p @ q) = None"
  using wf_fs_prefix by blast

lemma isdir_prefix: "wf_fs f \<Longrightarrow> isdir f (p @ q) \<Longrightarrow> isdir f p"
  using wf_fs_prefix [of f p q] by (cases "q = []") (auto simp: isdir_def)

section \<open>Where a resolution ends\<close>

text \<open>A resolved path is the root, an entry of a directory, or the name of a possible new entry.\<close>

definition good_loc :: "fs \<Rightarrow> fpath \<Rightarrow> bool" where
  "good_loc f r \<longleftrightarrow> r = [] \<or> isdir f (butlast r) \<and> pname (last r)"

lemma pcomps_ok: "c \<in> set (pcomps p) \<Longrightarrow> c \<noteq> ''..'' \<Longrightarrow> pname c"
  by (auto simp: pcomps_def pname_def dest: splitc_no_sep)

lemma isdir_good_loc: "wf_fs f \<Longrightarrow> isdir f r \<Longrightarrow> good_loc f r"
  by (cases r rule: rev_cases) (auto simp: good_loc_def isdir_def dest: wf_fs_parent)

lemma isdir_butlast: "wf_fs f \<Longrightarrow> isdir f cur \<Longrightarrow> isdir f (butlast cur)"
  by (cases cur rule: rev_cases) (auto simp: isdir_def dest: wf_fs_parent)

lemma walk_good:
  "walk b f fl cur cs = Inr r \<Longrightarrow> wf_fs f \<Longrightarrow> isdir f cur \<Longrightarrow>
     (\<And>c. c \<in> set cs \<Longrightarrow> c \<noteq> ''..'' \<Longrightarrow> pname c) \<Longrightarrow> good_loc f r"
proof (induction b f fl cur cs rule: walk.induct)
  case (1 b f fl cur)
  then show ?case by (auto intro: isdir_good_loc)
next
  case (2 b f fl cur c cs)
  show ?case
  proof (cases "c = ''..''")
    case True
    with 2 show ?thesis by (auto intro: isdir_butlast)
  next
    case False
    then have c: "pname c" using "2.prems"(4) by auto
    have here: "good_loc f (cur @ [c])" using "2.prems"(3) c by (simp add: good_loc_def)
    show ?thesis
    proof (cases "map_of f (cur @ [c])")
      case None
      with False "2.prems" here show ?thesis by (auto split: if_splits)
    next
      case (Some n)
      show ?thesis
      proof (cases n)
        case (Dir a)
        with Some have "isdir f (cur @ [c])" by (auto simp: isdir_def)
        with False Some Dir 2 show ?thesis by auto
      next
        case (File a d)
        with False Some "2.prems" here show ?thesis by (auto split: if_splits)
      next
        case (Link t)
        have root: "isdir f []" using "2.prems"(2) by (simp add: wf_fs_def)
        show ?thesis
        proof (cases "cs = [] \<and> \<not> fl")
          case True
          with False Some Link "2.prems" here show ?thesis by auto
        next
          case nofin: False
          with False Some Link "2.prems"(1) obtain b' where b: "b = Suc b'"
            by (cases b) auto
          have "walk b' f fl (if isAbs t then [] else cur) (pcomps t @ cs) = Inr r"
            using False Some Link nofin b "2.prems"(1) by auto
          then show ?thesis
            using "2.IH"(3) [OF False Some Link nofin b] "2.prems"(2,3,4) root pcomps_ok
            by (auto split: if_splits)
        qed
      qed
    qed
  qed
qed

lemma resolve_good: "resolve f fl p = Inr r \<Longrightarrow> wf_fs f \<Longrightarrow> good_loc f r"
  unfolding resolve_def
  by (auto split: if_splits intro!: walk_good pcomps_ok simp: wf_fs_def)

text \<open>A path without links on the way resolves to its own components, if at all.\<close>

lemma walk_plain:
  "walk b f fl cur cs = Inr r \<Longrightarrow> ''..'' \<notin> set cs \<Longrightarrow>
     (\<And>q q'. cs = q @ q' \<Longrightarrow> q \<noteq> [] \<Longrightarrow> q' \<noteq> [] \<or> fl \<Longrightarrow> \<not> islink f (cur @ q)) \<Longrightarrow> r = cur @ cs"
proof (induction b f fl cur cs rule: walk.induct)
  case (2 b f fl cur c cs)
  have c: "c \<noteq> ''..''" using "2.prems"(2) by auto
  have nl: "\<not> islink f (cur @ [c])" if "cs \<noteq> [] \<or> fl"
    using that "2.prems"(3) [of "[c]" cs] by auto
  have step: "\<not> islink f ((cur @ [c]) @ q)" if "cs = q @ q'" "q \<noteq> []" "q' \<noteq> [] \<or> fl" for q q'
    using that "2.prems"(3) [of "c # q" q'] by auto
  show ?case
  proof (cases "map_of f (cur @ [c])")
    case None
    with c "2.prems"(1) show ?thesis by (auto split: if_splits)
  next
    case (Some n)
    then show ?thesis
    proof (cases n)
      case (Dir a)
      have "walk b f fl (cur @ [c]) cs = Inr r"
        using "2.prems"(1) c Some Dir by simp
      then show ?thesis
        using "2.IH"(2) [OF c Some Dir _ _ step] "2.prems"(2) by simp
    next
      case (File a d)
      with c Some "2.prems"(1) show ?thesis by (auto split: if_splits)
    next
      case (Link t)
      with Some nl have "cs = [] \<and> \<not> fl" by (auto simp: islink_def)
      with c Some Link "2.prems"(1) show ?thesis by auto
    qed
  qed
qed simp

lemma walk_dirs:
  "wf_fs f \<Longrightarrow> isdir f (cur @ d) \<Longrightarrow> (\<forall>c \<in> set d. c \<noteq> ''..'') \<Longrightarrow>
     walk b f fl cur (d @ cs) = walk b f fl (cur @ d) cs"
proof (induction d arbitrary: cur)
  case (Cons c d)
  have "isdir f ((cur @ [c]) @ d)" using Cons.prems by simp
  moreover from this have "isdir f (cur @ [c])"
    using isdir_prefix Cons.prems(1) by blast
  ultimately show ?case
    using Cons.IH [of "cur @ [c]"] Cons.prems by (auto simp: isdir_def)
qed simp

lemma pname_not_dots: "pname c \<Longrightarrow> c \<noteq> ''..''"
  by (simp add: pname_def)

lemma walk_isdir:
  "wf_fs f \<Longrightarrow> isdir f d \<Longrightarrow> walk b f fl [] (d @ cs) = walk b f fl d cs"
  using walk_dirs [of f "[]" d b fl cs] wf_fs_isdir_names [of f d] by (auto simp: pname_def)

lemma walk_child:
  assumes "wf_fs f" "isdir f d" "pname c" "\<not> fl \<or> \<not> islink f (d @ [c])"
  shows "walk b f fl [] (d @ [c]) = Inr (d @ [c])"
  using assms by (auto simp: walk_isdir pname_not_dots islink_def split: option.splits node.splits)

lemma resolve_child:
  assumes "wf_fs f" "isdir f d" "pcomps p = d @ [c]" "pname c" "\<not> fl \<or> \<not> islink f (d @ [c])"
  shows "resolve f fl p = Inr (d @ [c])"
proof -
  from assms(3) have "p \<noteq> []" by auto
  with assms show ?thesis by (simp add: resolve_def walk_child)
qed

lemma resolve_existing:
  assumes "wf_fs f" "map_of f d = Some n" "pcomps p = d" "p \<noteq> []" "\<not> fl \<or> \<not> islink f d"
  shows "resolve f fl p = Inr d"
proof (cases d rule: rev_cases)
  case Nil
  with assms show ?thesis by (simp add: resolve_def)
next
  case (snoc d' c)
  with assms wf_fs_parent [of f d' c n] show ?thesis by (auto intro!: resolve_child)
qed

section \<open>What system calls change\<close>

definition only_changes :: "fpath set \<Rightarrow> fs \<Rightarrow> fs \<Rightarrow> bool" where
  "only_changes S f f' \<longleftrightarrow> (\<forall>p. p \<notin> S \<longrightarrow> map_of f' p = map_of f p)"

lemma only_changes_refl [simp]: "only_changes S f f"
  by (simp add: only_changes_def)

lemma only_changes_trans: "only_changes S f g \<Longrightarrow> only_changes S g h \<Longrightarrow> only_changes S f h"
  by (simp add: only_changes_def)

lemma only_changes_mono: "only_changes S f g \<Longrightarrow> S \<subseteq> S' \<Longrightarrow> only_changes S' f g"
  by (auto simp: only_changes_def)

lemma only_changes_at: "only_changes S f g \<Longrightarrow> p \<notin> S \<Longrightarrow> map_of g p = map_of f p"
  by (simp add: only_changes_def)

text \<open>A call body is tame when it changes the resolved path only and keeps the file system well formed.\<close>

definition tame :: "(fs \<Rightarrow> fpath \<Rightarrow> errno + 'a \<times> fs) \<Rightarrow> bool" where
  "tame k \<longleftrightarrow> (\<forall>f r x f'. wf_fs f \<longrightarrow> good_loc f r \<longrightarrow> k f r = Inr (x, f') \<longrightarrow>
     wf_fs f' \<and> only_changes {r} f f')"

definition readonly :: "(fs \<Rightarrow> fpath \<Rightarrow> errno + 'a \<times> fs) \<Rightarrow> bool" where
  "readonly k \<longleftrightarrow> (\<forall>f r x f'. k f r = Inr (x, f') \<longrightarrow> f' = f)"

lemma wf_fs_update_new:
  assumes "wf_fs f" "good_loc f r" "map_of f r = None"
  shows "wf_fs (AList.update r n f)"
proof -
  from assms have r: "r \<noteq> []" by (auto simp: wf_fs_def isdir_def)
  then have "isdir f (butlast r)" "pname (last r)" using assms(2) by (auto simp: good_loc_def)
  with assms r show ?thesis
    by (auto simp: wf_fs_def isdir_def) (metis append_self_conv butlast_snoc option.distinct(1) snoc_eq_iff_butlast)+
qed

lemma wf_fs_update_same:
  assumes "wf_fs f" "map_of f r = Some n" "(\<exists>a. n = Dir a) \<longleftrightarrow> (\<exists>a. n' = Dir a)"
  shows "wf_fs (AList.update r n' f)"
proof -
  have "isdir (AList.update r n' f) p = isdir f p" for p
    using assms(2,3) by (auto simp: isdir_def)
  then show ?thesis using assms(1,2) by (auto simp: wf_fs_def)
qed

lemma set_children: "set (children f r) = {c. map_of f (r @ [c]) \<noteq> None}"
proof -
  have "c \<in> set (children f r) \<longleftrightarrow> r @ [c] \<in> fst ` set f" for c
    by (force simp: children_def snoc_eq_iff_butlast)
  then show ?thesis by (auto simp: map_of_eq_None_iff)
qed

lemma children_Nil_iff: "children f r = [] \<longleftrightarrow> (\<forall>c. map_of f (r @ [c]) = None)"
  using set_children [of f r] by (metis (mono_tags, lifting) empty_iff equals0I mem_Collect_eq set_empty)

lemma distinct_children [simp]: "distinct (children f r)"
  by (simp add: children_def)

lemma wf_fs_delete_leaf:
  assumes "wf_fs f" "r \<noteq> []" "\<And>c. map_of f (r @ [c]) = None"
  shows "wf_fs (AList.delete r f)"
  using assms by (auto simp: wf_fs_def isdir_def)

lemma leaf_of_nondir: "wf_fs f \<Longrightarrow> \<not> isdir f r \<Longrightarrow> map_of f (r @ [c]) = None"
  using wf_fs_absent_below [of f r "[c]"] by simp

lemma tame_create: "tame (k_create n)"
  by (auto simp: tame_def k_create_def only_changes_def wf_fs_update_new split: option.splits)

lemma tame_open_trunc: "tame (k_open_trunc a)"
  unfolding tame_def
  by (auto simp: k_open_trunc_def only_changes_def wf_fs_update_new
      split: option.splits node.splits intro: wf_fs_update_same)

lemma tame_write: "tame (k_write d)"
  unfolding tame_def
  by (auto simp: k_write_def only_changes_def split: option.splits node.splits intro: wf_fs_update_same)

lemma tame_setattr: "tame (k_setattr g)"
proof -
  have "(\<exists>a. n = Dir a) \<longleftrightarrow> (\<exists>a. map_attr g n = Dir a)" for n
    by (cases n) auto
  then show ?thesis
    unfolding tame_def
    by (auto simp: k_setattr_def only_changes_def split: option.splits intro!: wf_fs_update_same)
qed

lemma tame_unlink: "tame k_unlink"
proof -
  have "wf_fs (AList.delete r f)" if "wf_fs f" "map_of f r = Some n" "\<not> isdir f r" for f r n
  proof (rule wf_fs_delete_leaf)
    show "r \<noteq> []" using that by (auto simp: wf_fs_def)
  qed (use that leaf_of_nondir in auto)
  then show ?thesis
    unfolding tame_def
    by (auto simp: k_unlink_def only_changes_def isdir_def split: option.splits node.splits)
qed

lemma tame_rmdir: "tame k_rmdir"
  unfolding tame_def
  by (auto simp: k_rmdir_def only_changes_def children_Nil_iff
      split: option.splits node.splits if_splits intro!: wf_fs_delete_leaf)

lemma tame_remove: "tame k_remove"
proof -
  have "k_remove f r = k_rmdir f r \<or> k_remove f r = k_unlink f r" for f r
    by (simp add: k_remove_def split: option.splits node.splits)
  with tame_unlink tame_rmdir show ?thesis
    unfolding tame_def by metis
qed

lemma readonly_lstat: "readonly k_lstat"
  by (auto simp: readonly_def k_lstat_def split: option.splits)

lemma readonly_readlink: "readonly k_readlink"
  by (auto simp: readonly_def k_readlink_def split: option.splits node.splits)

lemma readonly_readdir: "readonly k_readdir"
  by (auto simp: readonly_def k_readdir_def split: option.splits node.splits)

lemma readonly_read: "readonly k_read"
  by (auto simp: readonly_def k_read_def split: option.splits node.splits)

end
