(* ===== verification/OS_Hoare.thy ===== *)
theory OS_Hoare
  imports OS_Facts
begin

text \<open>
  Hoare rules for the functions of package \<^verbatim>\<open>os\<close>: \<open>on_fs w0 \<Phi>\<close> says that the file system
  satisfies \<open>\<Phi>\<close> and that the environment (fault schedule, map orders, umask, platform) is the one
  of \<open>w0\<close>. The rules ending in \<open>_framed\<close> bound what a call changes whatever happens; those ending
  in \<open>_ok\<close> say that a call succeeds when the environment has no faults.
\<close>

section \<open>Lifting facts about file systems\<close>

definition same_env :: "world \<Rightarrow> world \<Rightarrow> bool" where
  "same_env w0 w \<longleftrightarrow> faulty w = faulty w0 \<and> mapord w = mapord w0 \<and> umask w = umask w0 \<and>
     goos w = goos w0 \<and> now w = now w0 \<and> rnd w = rnd w0"

definition on_fs :: "world \<Rightarrow> (fs \<Rightarrow> bool) \<Rightarrow> world \<Rightarrow> bool" where
  "on_fs w0 \<Phi> w \<longleftrightarrow> same_env w0 w \<and> \<Phi> (wfs w)"

definition faultfree :: "world \<Rightarrow> bool" where
  "faultfree w \<longleftrightarrow> (\<forall>n. \<not> faulty w n)"

lemma same_env_refl [simp]: "same_env w w"
  by (simp add: same_env_def)

lemma on_fs_start: "\<Phi> (wfs w) \<Longrightarrow> on_fs w \<Phi> w"
  by (simp add: on_fs_def)

lemma on_fs_mono: "on_fs w0 \<Phi> w \<Longrightarrow> (\<And>f. \<Phi> f \<Longrightarrow> \<Psi> f) \<Longrightarrow> on_fs w0 \<Psi> w"
  by (simp add: on_fs_def)

text \<open>The ways a call on a path can fail.\<close>

definition call_fails ::
  "world \<Rightarrow> bool \<Rightarrow> string \<Rightarrow> (fs \<Rightarrow> fpath \<Rightarrow> errno + 'a \<times> fs) \<Rightarrow> fs \<Rightarrow> errno \<Rightarrow> bool" where
  "call_fails w0 fl p k f e \<longleftrightarrow>
     e = EIO \<and> \<not> faultfree w0 \<or> resolve f fl p = Inl e \<or>
     (\<exists>r. resolve f fl p = Inr r \<and> k f r = Inl e)"

lemma hoare_pathcall:
  assumes ok: "\<And>f r x f'. \<Phi> f \<Longrightarrow> resolve f fl p = Inr r \<Longrightarrow> k f r = Inr (x, f') \<Longrightarrow> \<Psi> x f'"
    and err: "\<And>f e. \<Phi> f \<Longrightarrow> call_fails w0 fl p k f e \<Longrightarrow> \<Xi> (Sys e) f"
  shows "hoare (on_fs w0 \<Phi>) (pathcall fl p k) (\<lambda>x. on_fs w0 (\<Psi> x)) (\<lambda>e. on_fs w0 (\<Xi> e))"
proof (rule hoareI)
  fix w x w' assume "on_fs w0 \<Phi> w" "pathcall fl p k w = (Inr x, w')"
  then show "on_fs w0 (\<Psi> x) w'"
    using ok by (auto simp: on_fs_def pathcall_def syscall_def Let_def same_env_def
        split: if_splits sum.splits prod.splits)
next
  fix w e w' assume *: "on_fs w0 \<Phi> w" "pathcall fl p k w = (Inl e, w')"
  have "\<not> faultfree w0" if "faulty w (tick w)"
    using that *(1) by (auto simp: on_fs_def same_env_def faultfree_def)
  with * show "on_fs w0 (\<Xi> e) w'"
    using err [of "wfs w"]
    by (auto simp: on_fs_def pathcall_def syscall_def Let_def same_env_def call_fails_def
        split: if_splits sum.splits prod.splits)
qed

lemma hoare_pathcall_ok:
  assumes "faultfree w0"
    and "\<And>f. \<Phi> f \<Longrightarrow> \<exists>r x f'. resolve f fl p = Inr r \<and> k f r = Inr (x, f') \<and> \<Psi> x f'"
  shows "hoare (on_fs w0 \<Phi>) (pathcall fl p k) (\<lambda>x. on_fs w0 (\<Psi> x)) (\<lambda>_ _. False)"
proof -
  have "hoare (on_fs w0 \<Phi>) (pathcall fl p k) (\<lambda>x. on_fs w0 (\<Psi> x)) (\<lambda>e. on_fs w0 (\<lambda>_. False))"
    by (rule hoare_pathcall) (use assms in \<open>fastforce simp: call_fails_def\<close>)+
  then show ?thesis
    by (rule hoare_weaken) (auto simp: on_fs_def)
qed

lemma hoare_map_range:
  assumes "world_ok w0" "\<And>ks'. mset ks' = mset ks \<Longrightarrow> hoare (on_fs w0 \<Phi>) (g ks') Q E"
  shows "hoare (on_fs w0 \<Phi>) (andThen (map_range ks) g) Q E"
proof (rule hoare_andThen [where R = "\<lambda>ks' w. mset ks' = mset ks \<and> on_fs w0 \<Phi> w"])
  show "hoare (on_fs w0 \<Phi>) (map_range ks) (\<lambda>ks' w. mset ks' = mset ks \<and> on_fs w0 \<Phi> w) E"
    using assms(1) by (auto simp: hoare_def map_range_def on_fs_def same_env_def world_ok_def)
next
  fix ks'
  show "hoare (\<lambda>w. mset ks' = mset ks \<and> on_fs w0 \<Phi> w) (g ks') Q E"
    using assms(2) [of ks'] by (auto simp: hoare_def)
qed

section \<open>Frames\<close>

definition framed :: "fs \<Rightarrow> fpath set \<Rightarrow> fs \<Rightarrow> bool" where
  "framed f0 S f \<longleftrightarrow> wf_fs f \<and> only_changes S f0 f"

lemma framed_refl: "wf_fs f \<Longrightarrow> framed f S f"
  by (simp add: framed_def)

lemma framed_wf: "framed f0 S f \<Longrightarrow> wf_fs f"
  by (simp add: framed_def)

lemma framed_at: "framed f0 S f \<Longrightarrow> p \<notin> S \<Longrightarrow> map_of f p = map_of f0 p"
  by (simp add: framed_def only_changes_def)

lemma framed_isdir: "framed f0 S f \<Longrightarrow> isdir f0 p \<Longrightarrow> p \<notin> S \<Longrightarrow> isdir f p"
  by (simp add: isdir_def framed_at)

lemma framed_mono: "framed f0 S f \<Longrightarrow> S \<subseteq> S' \<Longrightarrow> framed f0 S' f"
  by (auto simp: framed_def intro: only_changes_mono)

lemma framed_trans: "framed f0 S f \<Longrightarrow> framed f S g \<Longrightarrow> framed f0 S g"
  by (auto simp: framed_def intro: only_changes_trans)

lemma framed_update: "framed f0 S f \<Longrightarrow> p \<in> S \<Longrightarrow> wf_fs (AList.update p n f) \<Longrightarrow> framed f0 S (AList.update p n f)"
  by (auto simp: framed_def only_changes_def)

lemma framed_delete: "framed f0 S f \<Longrightarrow> p \<in> S \<Longrightarrow> wf_fs (AList.delete p f) \<Longrightarrow> framed f0 S (AList.delete p f)"
  by (auto simp: framed_def only_changes_def)

text \<open>\<open>stays w0 \<Phi> m\<close>: code after which \<open>\<Phi>\<close> still holds, on success and on failure.\<close>

definition stays :: "world \<Rightarrow> (fs \<Rightarrow> bool) \<Rightarrow> 'a os \<Rightarrow> bool" where
  "stays w0 \<Phi> m \<longleftrightarrow> hoare (on_fs w0 \<Phi>) m (\<lambda>_. on_fs w0 \<Phi>) (\<lambda>_. on_fs w0 \<Phi>)"

lemma stays_snd: "stays w0 \<Phi> m \<Longrightarrow> on_fs w0 \<Phi> w \<Longrightarrow> on_fs w0 \<Phi> (snd (m w))"
  by (cases "m w"; cases "fst (m w)") (auto simp: stays_def dest: hoareD_ok hoareD_err)

lemma stays_ret [simp]: "stays w0 \<Phi> (ret x)"
  by (simp add: stays_def hoare_def ret_def)

lemma stays_throw [simp]: "stays w0 \<Phi> (throw e)"
  by (simp add: stays_def hoare_def throw_def)

lemma stays_lift_res [simp]: "stays w0 \<Phi> (lift_res r)"
  by (simp add: stays_def hoare_def lift_res_def split: sum.splits)

lemma stays_andThen: "stays w0 \<Phi> m \<Longrightarrow> (\<And>x. stays w0 \<Phi> (g x)) \<Longrightarrow> stays w0 \<Phi> (andThen m g)"
  unfolding stays_def by (rule hoare_andThen)

lemma stays_attempt: "stays w0 \<Phi> m \<Longrightarrow> (\<And>r. stays w0 \<Phi> (g r)) \<Longrightarrow> stays w0 \<Phi> (attempt m g)"
  unfolding stays_def by (rule hoare_attempt)

lemma stays_ignoring: "stays w0 \<Phi> m \<Longrightarrow> stays w0 \<Phi> (ignoring m)"
  unfolding ignoring_def by (intro stays_attempt) auto

lemma stays_wrapping: "stays w0 \<Phi> m \<Longrightarrow> stays w0 \<Phi> (wrapping s m)"
  unfolding wrapping_def by (intro stays_attempt) (auto split: sum.splits)

lemma stays_for_each: "(\<And>x. x \<in> set xs \<Longrightarrow> stays w0 \<Phi> (g x)) \<Longrightarrow> stays w0 \<Phi> (for_each g xs)"
  unfolding stays_def by (rule hoare_for_each)

lemma stays_for_acc:
  "(\<And>x a. x \<in> set xs \<Longrightarrow> stays w0 \<Phi> (g x a)) \<Longrightarrow> stays w0 \<Phi> (for_acc g xs a)"
  by (induction xs arbitrary: a) (auto intro!: stays_andThen)

lemma stays_map_range [simp]: "stays w0 \<Phi> (map_range ks)"
  by (simp add: stays_def hoare_def map_range_def on_fs_def same_env_def)

lemma stays_fs: "(\<And>w. on_fs w0 \<Phi> w \<Longrightarrow> on_fs w0 \<Phi> (snd (m w))) \<Longrightarrow> stays w0 \<Phi> m"
  unfolding stays_def hoare_def by (metis (mono_tags, lifting) old.sum.simps(5,6) snd_conv split_beta sumE surjective_pairing)

lemma stays_if: "(b \<Longrightarrow> stays w0 \<Phi> m) \<Longrightarrow> (\<not> b \<Longrightarrow> stays w0 \<Phi> m') \<Longrightarrow> stays w0 \<Phi> (if b then m else m')"
  by simp

lemmas stays_intros = stays_ret stays_throw stays_lift_res stays_andThen stays_attempt stays_ignoring
  stays_wrapping stays_for_each stays_for_acc stays_map_range

lemma stays_readonly: "readonly k \<Longrightarrow> stays w0 \<Phi> (pathcall fl p k)"
  unfolding stays_def
  by (rule hoare_pathcall [where \<Psi> = "\<lambda>_. \<Phi>" and \<Xi> = "\<lambda>_. \<Phi>"]) (auto simp: readonly_def)

lemma stays_reads [simp]:
  "stays w0 \<Phi> (osStat p)" "stays w0 \<Phi> (osLstat p)" "stays w0 \<Phi> (osReadlink p)"
  "stays w0 \<Phi> (osReadDir p)" "stays w0 \<Phi> (osReadFile p)"
  by (simp_all add: osStat_def osLstat_def osReadlink_def osReadDir_def osReadFile_def
      stays_readonly readonly_lstat readonly_readlink readonly_readdir readonly_read)

lemma stays_tame:
  assumes "tame k"
    and "\<And>f r x f'. framed f0 S f \<Longrightarrow> resolve f fl p = Inr r \<Longrightarrow> k f r = Inr (x, f') \<Longrightarrow> r \<in> S"
  shows "stays w0 (framed f0 S) (pathcall fl p k)"
  unfolding stays_def
proof (rule hoare_pathcall)
  fix f r x f'
  assume f: "framed f0 S f" and r: "resolve f fl p = Inr r" and k: "k f r = Inr (x, f')"
  have "wf_fs f' \<and> only_changes {r} f f'"
    using assms(1) f r k resolve_good framed_wf unfolding tame_def by blast
  moreover have "r \<in> S" using assms(2) f r k .
  ultimately show "framed f0 S f'"
    using f by (auto simp: framed_def only_changes_def)
qed auto

lemma stays_osMkdir:
  assumes "\<And>f r. framed f0 S f \<Longrightarrow> resolve f False p = Inr r \<Longrightarrow> map_of f r = None \<Longrightarrow> r \<in> S"
  shows "stays w0 (framed f0 S) (osMkdir p m)"
proof (rule stays_fs)
  fix w assume w: "on_fs w0 (framed f0 S) w"
  have "stays w0 (framed f0 S) (pathcall False p (k_create (Dir (newAttr m w))))"
    by (rule stays_tame [OF tame_create])
       (use assms in \<open>auto simp: k_create_def split: option.splits\<close>)
  then show "on_fs w0 (framed f0 S) (snd (osMkdir p m w))"
    using w by (simp add: osMkdir_def stays_snd)
qed

lemma stays_osSymlink:
  assumes "\<And>f r. framed f0 S f \<Longrightarrow> resolve f False p = Inr r \<Longrightarrow> r \<in> S"
  shows "stays w0 (framed f0 S) (osSymlink t p)"
  unfolding osSymlink_def by (rule stays_tame [OF tame_create]) (use assms in auto)

lemma stays_osOpenTrunc:
  assumes "\<And>f r. framed f0 S f \<Longrightarrow> resolve f True p = Inr r \<Longrightarrow> r \<in> S"
  shows "stays w0 (framed f0 S) (osOpenTrunc p m)"
proof (rule stays_fs)
  fix w assume w: "on_fs w0 (framed f0 S) w"
  have "stays w0 (framed f0 S) (pathcall True p (k_open_trunc (newAttr m w)))"
    by (rule stays_tame [OF tame_open_trunc]) (use assms in auto)
  then show "on_fs w0 (framed f0 S) (snd (osOpenTrunc p m w))"
    using w by (simp add: osOpenTrunc_def stays_snd)
qed

lemma stays_osAppend:
  assumes "\<And>f r. framed f0 S f \<Longrightarrow> resolve f True p = Inr r \<Longrightarrow> r \<in> S"
  shows "stays w0 (framed f0 S) (osAppend p d)"
  unfolding osAppend_def by (rule stays_tame [OF tame_write]) (use assms in auto)

lemma stays_osWriteFile:
  assumes "\<And>f r. framed f0 S f \<Longrightarrow> resolve f True p = Inr r \<Longrightarrow> r \<in> S"
  shows "stays w0 (framed f0 S) (osWriteFile p d m)"
  unfolding osWriteFile_def
  by (intro stays_andThen stays_osOpenTrunc stays_osAppend) (use assms in auto)

lemma stays_osChmod:
  assumes "\<And>f r. framed f0 S f \<Longrightarrow> resolve f True p = Inr r \<Longrightarrow> r \<in> S"
  shows "stays w0 (framed f0 S) (osChmod p m)"
  unfolding osChmod_def by (rule stays_tame [OF tame_setattr]) (use assms in auto)

lemma stays_osChown:
  assumes "\<And>f r. framed f0 S f \<Longrightarrow> resolve f True p = Inr r \<Longrightarrow> r \<in> S"
  shows "stays w0 (framed f0 S) (osChown p u g)"
  unfolding osChown_def by (rule stays_tame [OF tame_setattr]) (use assms in auto)

lemma stays_osRemove:
  assumes "\<And>f r. framed f0 S f \<Longrightarrow> resolve f False p = Inr r \<Longrightarrow> r \<in> S"
  shows "stays w0 (framed f0 S) (osRemove p)"
proof -
  have "stays w0 (framed f0 S) (pathcall False p k_unlink)"
    by (rule stays_tame [OF tame_unlink]) (use assms in auto)
  moreover have "stays w0 (framed f0 S) (pathcall False p k_rmdir)"
    by (rule stays_tame [OF tame_rmdir]) (use assms in auto)
  ultimately show ?thesis
    unfolding osRemove_def by (intro stays_attempt) (auto intro!: stays_attempt split: sum.splits)
qed

lemma k_remove_framed:
  assumes "framed f0 S f" "p \<in> S" "k_remove f p = Inr (x, f')"
  shows "framed f0 S f'"
proof -
  have "good_loc f p"
    using assms(1,3) wf_fs_parent [of f "butlast p" "last p"]
    by (cases "p = []")
       (auto simp: good_loc_def k_remove_def k_unlink_def k_rmdir_def framed_def
         split: option.splits node.splits if_splits)
  then have "wf_fs f' \<and> only_changes {p} f f'"
    using assms(1,3) tame_remove unfolding tame_def framed_def by blast
  then show ?thesis
    using assms(1,2) by (auto simp: framed_def only_changes_def)
qed

lemma stays_rm_tree: "set ps \<subseteq> S \<Longrightarrow> stays w0 (framed f0 S) (rm_tree ps err)"
proof (induction ps arbitrary: err)
  case Nil
  show ?case by (simp split: option.splits)
next
  case (Cons p ps)
  have "stays w0 (framed f0 S) (syscall (\<lambda>w. k_remove (wfs w) p))"
    by (rule stays_fs)
       (use Cons.prems k_remove_framed in
         \<open>auto simp: syscall_def on_fs_def same_env_def Let_def split: sum.splits prod.splits\<close>)
  then show ?case
    using Cons unfolding rm_tree.simps by (intro stays_attempt) auto
qed

lemma set_below: "set (below f r) = {p. prefix r p \<and> map_of f p \<noteq> None}"
  by (force simp: below_def map_of_eq_None_iff)

lemma stays_osRemoveAll:
  assumes "\<And>f r. framed f0 S f \<Longrightarrow> resolve f False p = Inr r \<Longrightarrow> {q. prefix r q} \<subseteq> S"
  shows "stays w0 (framed f0 S) (osRemoveAll p)"
proof -
  have tree: "stays w0 (framed f0 S) (\<lambda>w. case resolve (wfs w) False p of
        Inl e' \<Rightarrow> (Inl (Sys e'), w) | Inr q \<Rightarrow> rm_tree (below (wfs w) q) None w)"
  proof (rule stays_fs)
    fix w assume w: "on_fs w0 (framed f0 S) w"
    have "stays w0 (framed f0 S) (rm_tree (below (wfs w) q) None)"
      if "resolve (wfs w) False p = Inr q" for q
      using that assms w by (intro stays_rm_tree) (auto simp: set_below on_fs_def)
    with w show "on_fs w0 (framed f0 S) (snd (case resolve (wfs w) False p of
        Inl e' \<Rightarrow> (Inl (Sys e'), w) | Inr q \<Rightarrow> rm_tree (below (wfs w) q) None w))"
      by (simp add: stays_snd split: sum.splits)
  qed
  have "stays w0 (framed f0 S) (osRemove p)"
    by (rule stays_osRemove) (use assms in blast)
  with tree show ?thesis
    unfolding osRemoveAll_def by (auto intro!: stays_attempt split: sum.splits)
qed

section \<open>Exact states\<close>

lemma hoare_fix:
  assumes "\<And>f. \<Phi> f \<Longrightarrow> hoare (on_fs w0 (\<lambda>g. g = f)) m Q E"
  shows "hoare (on_fs w0 \<Phi>) m Q E"
proof (rule hoareI)
  fix e x e' assume "on_fs w0 \<Phi> e" "m e = (Inr x, e')"
  then show "Q x e'" using hoareD_ok [OF assms] by (auto simp: on_fs_def)
next
  fix e err e' assume "on_fs w0 \<Phi> e" "m e = (Inl err, e')"
  then show "E err e'" using hoareD_err [OF assms] by (auto simp: on_fs_def)
qed

lemma hoare_osMkdir:
  assumes ok: "\<And>f r a. \<Phi> f \<Longrightarrow> resolve f False p = Inr r \<Longrightarrow> map_of f r = None \<Longrightarrow> \<Psi> (AList.update r (Dir a) f)"
    and err: "\<And>f e. \<Phi> f \<Longrightarrow> call_fails w0 False p (k_create (Link [])) f e \<Longrightarrow> \<Xi> (Sys e) f"
  shows "hoare (on_fs w0 \<Phi>) (osMkdir p m) (\<lambda>_. on_fs w0 \<Psi>) (\<lambda>e. on_fs w0 (\<Xi> e))"
proof -
  have h: "hoare (on_fs w0 \<Phi>) (pathcall False p (k_create (Dir a))) (\<lambda>_. on_fs w0 \<Psi>) (\<lambda>e. on_fs w0 (\<Xi> e))"
    for a
    by (rule hoare_pathcall [where \<Psi> = "\<lambda>_. \<Psi>"])
       (use ok err in \<open>auto simp: k_create_def call_fails_def split: option.splits\<close>)
  show ?thesis
    by (rule hoareI) (use hoareD_ok [OF h] hoareD_err [OF h] in \<open>auto simp: osMkdir_def\<close>)
qed

lemma hoare_osOpenTrunc:
  assumes ok: "\<And>f r a. \<Phi> f \<Longrightarrow> resolve f True p = Inr r \<Longrightarrow> \<not> isdir f r \<Longrightarrow> \<not> islink f r \<Longrightarrow>
      \<Psi> (AList.update r (File a []) f)"
    and err: "\<And>f e. \<Phi> f \<Longrightarrow> call_fails w0 True p (k_open_trunc undefined) f e \<Longrightarrow> \<Xi> (Sys e) f"
  shows "hoare (on_fs w0 \<Phi>) (osOpenTrunc p m) (\<lambda>_. on_fs w0 \<Psi>) (\<lambda>e. on_fs w0 (\<Xi> e))"
proof -
  have same: "k_open_trunc a f r = Inl e \<longleftrightarrow> k_open_trunc undefined f r = Inl e" for a f r e
    by (simp add: k_open_trunc_def split: option.splits node.splits)
  have h: "hoare (on_fs w0 \<Phi>) (pathcall True p (k_open_trunc a)) (\<lambda>_. on_fs w0 \<Psi>) (\<lambda>e. on_fs w0 (\<Xi> e))"
    for a
  proof (rule hoare_pathcall [where \<Psi> = "\<lambda>_. \<Psi>"])
    fix f r x f' assume "\<Phi> f" "resolve f True p = Inr r" "k_open_trunc a f r = Inr (x, f')"
    then show "\<Psi> f'"
      using ok by (auto simp: k_open_trunc_def isdir_def islink_def split: option.splits node.splits)
  next
    fix f e assume "\<Phi> f" "call_fails w0 True p (k_open_trunc a) f e"
    then show "\<Xi> (Sys e) f"
      using err [of f e] same [of a f _ e] by (auto simp: call_fails_def)
  qed
  show ?thesis
    by (rule hoareI) (use hoareD_ok [OF h] hoareD_err [OF h] in \<open>auto simp: osOpenTrunc_def\<close>)
qed

section \<open>Making directories\<close>

abbreviation pathof :: "bool \<Rightarrow> fpath \<Rightarrow> string" where
  "pathof ab q \<equiv> if ab then sep # joinc sep q else joinc sep q"

lemma pcomps_pathof: "\<forall>c \<in> set q. pname c \<Longrightarrow> pcomps (pathof ab q) = q"
  by (simp add: pcomps_joinc pcomps_sep_Cons)

lemma stays_mkdirAllC:
  assumes "\<And>q f r a. prefix q cs \<Longrightarrow> q \<noteq> [] \<Longrightarrow> \<Phi> f \<Longrightarrow> resolve f False (pathof ab q) = Inr r \<Longrightarrow>
      map_of f r = None \<Longrightarrow> \<Phi> (AList.update r (Dir a) f)"
  shows "stays w0 \<Phi> (mkdirAllC ab cs m)"
  using assms
proof (induction ab cs m rule: mkdirAllC.induct)
  case (1 ab cs m)
  have mk: "stays w0 \<Phi> (osMkdir (pathof ab cs) m)" if "cs \<noteq> []"
    unfolding stays_def
    by (rule hoare_osMkdir) (use 1(2) that in auto)
  have rec: "stays w0 \<Phi> (mkdirAllC ab (butlast cs) m)" if "cs \<noteq> []"
  proof (rule "1.IH" [OF refl that])
    fix q f r a
    assume "prefix q (butlast cs)" "q \<noteq> []" "\<Phi> f" "resolve f False (pathof ab q) = Inr r" "map_of f r = None"
    then show "\<Phi> (AList.update r (Dir a) f)"
      using "1.prems" prefix_order.trans prefixeq_butlast by blast
  qed
  show ?case
    using rec mk
    by (subst mkdirAllC.simps, cases ab)
       (auto simp: Let_def intro!: stays_attempt stays_andThen split: sum.splits node.splits)
qed

lemma fsplit_append: "fst (fsplit s) @ snd (fsplit s) = s"
proof -
  define n where "n = length (takeWhile (\<lambda>c. c \<noteq> sep) (rev s))"
  have "rev (takeWhile (\<lambda>c. c \<noteq> sep) (rev s)) = drop (length s - n) s"
    unfolding n_def by (metis length_rev rev_rev_ident rev_take takeWhile_eq_take)
  then show ?thesis by (simp add: fsplit_def Let_def n_def)
qed

lemma fsplit_dir: "fst (fsplit s) = [] \<or> (\<exists>d. fst (fsplit s) = d @ [sep])"
proof (cases "sep \<in> set s")
  case False
  then have *: "takeWhile (\<lambda>c. c \<noteq> sep) (rev s) = rev s" by (auto simp: takeWhile_eq_all_conv)
  show ?thesis unfolding fsplit_def Let_def * by simp
next
  case True
  then obtain d n where s: "s = d @ sep # n" "sep \<notin> set n"
    by (metis split_list_last)
  then have *: "takeWhile (\<lambda>c. c \<noteq> sep) (rev s) = rev n"
    by (auto simp: takeWhile_append takeWhile_eq_all_conv)
  show ?thesis unfolding fsplit_def Let_def * using s by simp
qed

lemma pcomps_fsplit: "pcomps s = pcomps (fst (fsplit s)) @ pcomps (snd (fsplit s))"
  using fsplit_append [of s] fsplit_dir [of s] pcomps_append_sep
  by (metis append.assoc append_Cons append_Nil append_Nil2 pcomps_Nil)

lemma nodots_fsplit: "nodots s \<Longrightarrow> nodots (fst (fsplit s))"
  using fsplit_append [of s] fsplit_dir [of s] nodots_append_sep
  by (metis append.assoc append_Cons append_Nil nodots_Nil)

lemma stays_osMkdirAll:
  assumes "nodots p"
    and "\<And>q f r a s. prefix q (pcomps p) \<Longrightarrow> q \<noteq> [] \<Longrightarrow> pcomps s = q \<Longrightarrow> nodots s \<Longrightarrow> \<Phi> f \<Longrightarrow>
      resolve f False s = Inr r \<Longrightarrow> map_of f r = None \<Longrightarrow> \<Phi> (AList.update r (Dir a) f)"
  shows "stays w0 \<Phi> (osMkdirAll p m)"
proof -
  have "stays w0 \<Phi> (mkdirAllC (isAbs p) (pcomps p) m)"
  proof (rule stays_mkdirAllC)
    fix q f r a
    assume *: "prefix q (pcomps p)" "q \<noteq> []" "\<Phi> f" "resolve f False (pathof (isAbs p) q) = Inr r" "map_of f r = None"
    have names: "\<forall>c \<in> set q. pname c"
      using *(1) pcomps_pname [OF assms(1)] set_mono_prefix by blast
    show "\<Phi> (AList.update r (Dir a) f)"
      by (rule assms(2) [OF *(1,2) _ _ *(3-5)])
         (use names in \<open>auto simp: pcomps_pathof nodots_joinc nodots_sep_Cons pcomps_joinc pcomps_sep_Cons\<close>)
  qed
  then show ?thesis by (simp add: osMkdirAll_def)
qed

section \<open>Resolution below a directory\<close>

abbreviation under :: "fpath \<Rightarrow> fpath set" where
  "under d \<equiv> {p. prefix d p}"

definition nolinks :: "fs \<Rightarrow> fpath \<Rightarrow> bool" where
  "nolinks f d \<longleftrightarrow> (\<forall>p. prefix d p \<longrightarrow> \<not> islink f p)"

text \<open>All links below \<open>d\<close> name an entry of their own directory.\<close>

definition tidy :: "fs \<Rightarrow> fpath \<Rightarrow> bool" where
  "tidy f d \<longleftrightarrow> (\<forall>p t. prefix d p \<longrightarrow> map_of f p = Some (Link t) \<longrightarrow> pname t)"

lemma nolinks_tidy: "nolinks f d \<Longrightarrow> tidy f d"
  by (auto simp: nolinks_def tidy_def islink_def)

lemma isdir_not_islink: "isdir f p \<Longrightarrow> \<not> islink f p"
  by (auto simp: isdir_def islink_def)

lemma resolve_nolinks:
  assumes "wf_fs f" "isdir f d" "nolinks f d" "nodots p" "prefix q (d @ cs)" "pcomps p = q" "resolve f fl p = Inr r"
  shows "r = q"
proof -
  have "walk maxSymlinks f fl [] q = Inr r"
    using assms(6,7) by (auto simp: resolve_def split: if_splits)
  moreover have "''..'' \<notin> set q"
    using assms(4,6) pcomps_pname pname_not_dots by blast
  moreover have "\<not> islink f ([] @ x)" if "q = x @ y" for x y
  proof (cases "prefix x d")
    case True
    then show ?thesis
      using assms(1,2) isdir_prefix isdir_not_islink by (auto simp: prefix_def)
  next
    case False
    moreover have "prefix x (d @ cs)" using that assms(5) by (auto simp: prefix_def)
    ultimately have "prefix d x" by (metis prefix_append prefix_def)
    then show ?thesis using assms(3) by (simp add: nolinks_def)
  qed
  ultimately have "r = [] @ q" by (intro walk_plain) auto
  then show ?thesis by simp
qed

lemma pname_not_abs: "pname t \<Longrightarrow> \<not> isAbs t"
  by (auto simp: pname_def isAbs_def split: list.splits)

lemma walk_tidy:
  "walk b f fl cur cs = Inr r \<Longrightarrow> tidy f d \<Longrightarrow> prefix d cur \<Longrightarrow> ''..'' \<notin> set cs \<Longrightarrow> prefix d r"
proof (induction b f fl cur cs rule: walk.induct)
  case (2 b f fl cur c cs)
  have c: "c \<noteq> ''..''" using "2.prems" by auto
  have pre: "prefix d (cur @ [c])" using "2.prems" by simp
  show ?case
  proof (cases "map_of f (cur @ [c])")
    case None
    with 2 c pre show ?thesis by (auto split: if_splits)
  next
    case (Some n)
    show ?thesis
    proof (cases n)
      case (Link t)
      then have t: "pname t" using Some "2.prems"(2) pre unfolding tidy_def by blast
      show ?thesis
      proof (cases "cs = [] \<and> \<not> fl")
        case True
        with "2.prems"(1) c Some Link pre show ?thesis by auto
      next
        case False
        with "2.prems"(1) c Some Link obtain b' where b: "b = Suc b'" by (cases b) auto
        have "walk b' f fl (if isAbs t then [] else cur) (pcomps t @ cs) = Inr r"
          using "2.prems"(1) c Some Link False b by auto
        moreover have "''..'' \<notin> set (pcomps t @ cs)" "\<not> isAbs t"
          using t "2.prems"(4) by (auto simp: pcomps_name pname_def pname_not_abs)
        ultimately show ?thesis
          using "2.IH"(3) [OF c Some Link False b] "2.prems"(2,3) by simp
      qed
    qed (use 2 c pre Some in \<open>auto split: if_splits\<close>)
  qed
qed simp

lemma hoare_wfs:
  assumes "hoare (on_fs w0 (\<lambda>g. g = f)) (m f) Q E"
  shows "hoare (on_fs w0 (\<lambda>g. g = f)) (\<lambda>w. m (wfs w) w) Q E"
  using assms unfolding hoare_def on_fs_def by metis

lemma hoare_now:
  assumes "\<And>w. P w \<Longrightarrow> now w = c" "hoare P (m c) Q E"
  shows "hoare P (\<lambda>w. m (now w) w) Q E"
  using assms by (simp add: hoare_def)

end
