(* ===== verification/Atomic_Writer.thy ===== *)
theory Atomic_Writer
  imports OS_Hoare
begin

text \<open>
  Model of \<^verbatim>\<open>pkg/util/atomic_writer.go\<close>: the atomic projection of a payload of files into a target
  directory. One definition per Go function; \<open>Write\<close> is composed of its numbered steps. The facts
  about it are in the theories \<open>Atomic_Writer_Paths\<close> and \<open>Atomic_Writer_Facts\<close>.
\<close>

section \<open>Data\<close>

record AtomicWriter =
  targetDir :: string
  logContext :: string

record FileProjection =
  Data :: string
  Mode :: mode
  FsUser :: "int option"

type_synonym payload = "FileProjection gomap"
type_synonym dirFunc = "string \<Rightarrow> string list os"

definition zeroProjection :: FileProjection where
  "zeroProjection = \<lparr>Data = [], Mode = 0, FsUser = None\<rparr>"

text \<open>\<^verbatim>\<open>payload[k]\<close>: the zero value for a missing key.\<close>

definition pget :: "payload \<Rightarrow> string \<Rightarrow> FileProjection" where
  "pget m k = (case mget m k of None \<Rightarrow> zeroProjection | Some v \<Rightarrow> v)"

definition maxFileNameLength :: nat where
  "maxFileNameLength = 255"

definition maxPathLength :: nat where
  "maxPathLength = 4096"

definition dataDirName :: string where
  "dataDirName = ''..data''"

definition newDataDirName :: string where
  "newDataDirName = ''..data_tmp''"

definition NewAtomicWriter :: "string \<Rightarrow> string \<Rightarrow> AtomicWriter os" where
  "NewAtomicWriter td lc = attempt (osStat td) (\<lambda>r. case r of
       Inl e \<Rightarrow> if isNotExist e then throw e else ret \<lparr>targetDir = td, logContext = lc\<rparr>
     | Inr _ \<Rightarrow> ret \<lparr>targetDir = td, logContext = lc\<rparr>)"

section \<open>Validation\<close>

fun validateItems :: "string list \<Rightarrow> goerr + unit" where
  "validateItems [] = Inr ()"
| "validateItems (item # items) =
     (if item = ''..'' then Inl (Msg ''invalid path: must not contain ..'')
      else if length item > maxFileNameLength
        then Inl (Msg ''invalid path: filenames must be less than or equal to 255 characters'')
      else validateItems items)"

definition validatePath :: "string \<Rightarrow> goerr + unit" where
  "validatePath targetPath =
     (if targetPath = [] then Inl (Msg ''invalid path: must not be empty'')
      else if isAbs targetPath then Inl (Msg ''invalid path: must be relative path'')
      else if length targetPath > maxPathLength
        then Inl (Msg ''invalid path: must be less than or equal to 4096 characters'')
      else let items = splitc sep targetPath
        in case validateItems items of
             Inl e \<Rightarrow> Inl e
           | Inr _ \<Rightarrow>
               if hasPrefix (hd items) ''..'' \<and> length (hd items) > 2
               then Inl (Msg ''invalid path: must not start with ..'')
               else Inr ())"

definition validatePayload :: "payload \<Rightarrow> payload os" where
  "validatePayload payload =
     andThen (map_range (mkeys payload)) (\<lambda>ks.
       for_acc (\<lambda>k cleanPayload.
         andThen (lift_res (validatePath k)) (\<lambda>_.
           ret (mput (clean k) (pget payload k) cleanPayload))) ks [])"

section \<open>Steps of a write\<close>

definition newTimestampDir :: "AtomicWriter \<Rightarrow> string os" where
  "newTimestampDir aw =
     andThen (\<lambda>w. osMkdirTemp (targetDir aw) (formatStamp (now w)) w) (\<lambda>tsDir.
       andThen (osChmod tsDir 0x1ED) (\<lambda>_. ret tsDir))"

definition writeFileToDir :: "string \<Rightarrow> string \<Rightarrow> FileProjection \<Rightarrow> unit os" where
  "writeFileToDir dir userVisiblePath fileProjection =
     (let fullPath = fjoin dir userVisiblePath;
          baseDir = fst (fsplit fullPath)
      in andThen (osMkdirAll baseDir 0x1FF) (\<lambda>_.
         andThen (osWriteFile fullPath (Data fileProjection) (Mode fileProjection)) (\<lambda>_.
         andThen (osChmod fullPath (Mode fileProjection)) (\<lambda>_.
           case FsUser fileProjection of
             None \<Rightarrow> ret ()
           | Some u \<Rightarrow> osChown fullPath u (-1)))))"

definition writePayloadToDir :: "payload \<Rightarrow> string \<Rightarrow> unit os" where
  "writePayloadToDir payload dir =
     andThen (map_range (mkeys payload)) (\<lambda>ks.
       for_each (\<lambda>k. writeFileToDir dir k (pget payload k)) ks)"

definition createUserVisibleFile :: "AtomicWriter \<Rightarrow> string \<Rightarrow> unit os" where
  "createUserVisibleFile aw userVisiblePath =
     (let linkname = takeWhile (\<lambda>c. c \<noteq> sep) userVisiblePath
      in attempt (osReadlink (fjoin (targetDir aw) linkname)) (\<lambda>r. case r of
          Inl e \<Rightarrow>
            if isNotExist e
            then osSymlink (fjoin dataDirName linkname) (fjoin (targetDir aw) linkname)
            else ret ()
        | Inr _ \<Rightarrow> ret ()))"

definition createUserVisibleFiles :: "AtomicWriter \<Rightarrow> payload \<Rightarrow> unit os" where
  "createUserVisibleFiles aw payload =
     andThen (map_range (mkeys payload)) (\<lambda>ks. for_each (createUserVisibleFile aw) ks)"

definition shouldWriteFile :: "string \<Rightarrow> string \<Rightarrow> bool os" where
  "shouldWriteFile fPath content =
     attempt (osLstat fPath) (\<lambda>r.
       if r = Inl (Sys ENOENT) then ret True
       else andThen (osReadFile fPath) (\<lambda>contentOnFs. ret (content \<noteq> contentOnFs)))"

fun shouldWriteLoop :: "payload \<Rightarrow> string \<Rightarrow> string list \<Rightarrow> bool os" where
  "shouldWriteLoop payload oldTSDir [] = ret False"
| "shouldWriteLoop payload oldTSDir (k # ks) =
     andThen (shouldWriteFile (fjoin oldTSDir k) (Data (pget payload k))) (\<lambda>shouldWrite.
       if shouldWrite then ret True else shouldWriteLoop payload oldTSDir ks)"

definition shouldWritePayload :: "payload \<Rightarrow> string \<Rightarrow> bool os" where
  "shouldWritePayload payload oldTSDir =
     andThen (map_range (mkeys payload)) (shouldWriteLoop payload oldTSDir)"

text \<open>A path and all the directories above it, as the inner loop of \<^verbatim>\<open>pathsToRemove\<close> lists them.\<close>

lemma subPaths_decreases:
  "s \<noteq> [] \<Longrightarrow> length (trimSuffix (fst (fsplit s)) ''/'') < length s"
proof -
  assume s: "s \<noteq> []"
  define lastpart where "lastpart = rev (takeWhile (\<lambda>c. c \<noteq> sep) (rev s))"
  have len: "length (trimSuffix x p) \<le> length x" for x p
    by (auto simp: trimSuffix_def trimPrefix_def)
  have dir: "fst (fsplit s) = take (length s - length lastpart) s"
    by (simp add: fsplit_def lastpart_def Let_def)
  show ?thesis
  proof (cases "lastpart = []")
    case True
    then have "last s = sep"
      using s by (cases s rule: rev_cases) (auto simp: lastpart_def split: if_splits)
    then have "trimSuffix (fst (fsplit s)) ''/'' = butlast s"
      using s True dir
      by (cases s rule: rev_cases) (auto simp: trimSuffix_def trimPrefix_def hasPrefix_def)
    then show ?thesis using s by simp
  next
    case False
    have "length (fst (fsplit s)) < length s"
      using s False dir by (cases lastpart) auto
    then show ?thesis using len [of "fst (fsplit s)" "''/''"] by simp
  qed
qed

function subPaths :: "string \<Rightarrow> string list" where
  "subPaths subPath =
     (if subPath = [] then []
      else subPath # subPaths (trimSuffix (fst (fsplit subPath)) ''/''))"
  by pat_completeness auto
termination
  by (relation "measure length") (auto simp: subPaths_decreases)

declare subPaths.simps [simp del]

text \<open>The visitor of \<^verbatim>\<open>pathsToRemove\<close>: paths relative to the old data directory.\<close>

definition relativePath :: "string \<Rightarrow> string \<Rightarrow> string" where
  "relativePath oldTSDir path = trimPrefix (trimPrefix path oldTSDir) ''/''"

definition pathsToRemove :: "payload \<Rightarrow> string \<Rightarrow> string list os" where
  "pathsToRemove payload oldTSDir =
     attempt (fpWalk oldTSDir) (\<lambda>r. case r of
         Inl e \<Rightarrow> if isNotExist e then ret [] else throw e
       | Inr visited \<Rightarrow>
           let paths = remdups (filter (\<lambda>p. p \<noteq> []) (map (relativePath oldTSDir) visited));
               newPaths = concat (map subPaths (mkeys payload))
           in ret (filter (\<lambda>p. p \<notin> set newPaths) paths))"

definition removeUserVisiblePaths :: "AtomicWriter \<Rightarrow> string list \<Rightarrow> unit os" where
  "removeUserVisiblePaths aw paths =
     andThen (map_range paths) (\<lambda>ps.
     andThen (for_acc (\<lambda>p lasterr.
         if sep \<in> set p then ret lasterr
         else attempt (osRemove (fjoin (targetDir aw) p)) (\<lambda>r. case r of
             Inl e \<Rightarrow> ret (Some e)
           | Inr _ \<Rightarrow> ret lasterr)) ps None) (\<lambda>lasterr.
       case lasterr of None \<Rightarrow> ret () | Some e \<Rightarrow> throw e))"

section \<open>Write\<close>

text \<open>Step 2: the current timestamped directory, the empty string when there is none.\<close>

definition readOldTSDir :: "AtomicWriter \<Rightarrow> string os" where
  "readOldTSDir aw =
     attempt (osReadlink (fjoin (targetDir aw) dataDirName)) (\<lambda>r. case r of
         Inr t \<Rightarrow> ret t
       | Inl e \<Rightarrow> if isNotExist e then ret [] else throw e)"

text \<open>Step 6: the post-write functions, whose new files join the payload as empty projections.\<close>

definition addNewFiles :: "string list \<Rightarrow> payload \<Rightarrow> payload os" where
  "addNewFiles newFiles cleanPayload =
     andThen (map_range newFiles) (\<lambda>nfs.
       for_acc (\<lambda>newFile cp.
         andThen (lift_res (validatePath newFile)) (\<lambda>_.
           ret (mput (clean newFile) zeroProjection cp))) nfs cleanPayload)"

definition runDirFuncs :: "dirFunc list \<Rightarrow> string \<Rightarrow> payload \<Rightarrow> payload os" where
  "runDirFuncs dirFuncs tsDir cleanPayload =
     for_acc (\<lambda>f cp.
       andThen (wrapping ''error running specified post-write directory func'' (f tsDir)) (\<lambda>newFiles.
         addNewFiles newFiles cp)) dirFuncs cleanPayload"

text \<open>Steps 7 and 8: point the data directory at the new timestamped directory.\<close>

definition renameDataDir :: "string \<Rightarrow> string \<Rightarrow> string \<Rightarrow> unit os" where
  "renameDataDir tsDirName newDataDirPath dataDirPath w =
     (if goos w = ''windows''
      then andThen (ignoring (osRemove dataDirPath)) (\<lambda>_.
           attempt (osSymlink tsDirName dataDirPath) (\<lambda>r.
           andThen (ignoring (osRemove newDataDirPath)) (\<lambda>_. lift_res r))) w
      else osRename newDataDirPath dataDirPath w)"

definition switchDataDir :: "AtomicWriter \<Rightarrow> string \<Rightarrow> unit os" where
  "switchDataDir aw tsDir =
     (let tsDirName = fbase tsDir;
          dataDirPath = fjoin (targetDir aw) dataDirName;
          newDataDirPath = fjoin (targetDir aw) newDataDirName
      in attempt (osSymlink tsDirName newDataDirPath) (\<lambda>r. case r of
          Inl e \<Rightarrow> andThen (ignoring (osRemoveAll tsDir)) (\<lambda>_. throw e)
        | Inr _ \<Rightarrow>
            attempt (renameDataDir tsDirName newDataDirPath dataDirPath) (\<lambda>r'. case r' of
              Inl e \<Rightarrow>
                andThen (ignoring (osRemove newDataDirPath)) (\<lambda>_.
                andThen (ignoring (osRemoveAll tsDir)) (\<lambda>_. throw e))
            | Inr _ \<Rightarrow> ret ())))"

text \<open>Steps 9 to 12: remove what the new payload no longer has and the old timestamped directory.\<close>

definition finishWrite :: "AtomicWriter \<Rightarrow> payload \<Rightarrow> string \<Rightarrow> unit os" where
  "finishWrite aw cleanPayload oldTSDir =
     (let oldTSPath = fjoin (targetDir aw) oldTSDir
      in andThen
        (if oldTSDir \<noteq> []
         then andThen (pathsToRemove cleanPayload oldTSPath) (\<lambda>paths.
              andThen (shouldWritePayload cleanPayload oldTSPath) (\<lambda>should.
                ret (if \<not> should \<and> paths = [] then None else Some paths)))
         else ret (Some []))
        (\<lambda>todo. case todo of
            None \<Rightarrow> ret ()
          | Some paths \<Rightarrow>
              andThen (removeUserVisiblePaths aw paths) (\<lambda>_.
                if length oldTSDir > 0 then osRemoveAll oldTSPath else ret ())))"

definition Write :: "AtomicWriter \<Rightarrow> payload \<Rightarrow> dirFunc list \<Rightarrow> unit os" where
  "Write aw payload dirFuncs =
     andThen (validatePayload payload) (\<lambda>validPayload.
     andThen (readOldTSDir aw) (\<lambda>oldTSDir.
     andThen (newTimestampDir aw) (\<lambda>tsDir.
     andThen (writePayloadToDir validPayload tsDir) (\<lambda>_.
     andThen (runDirFuncs dirFuncs tsDir validPayload) (\<lambda>cleanPayload.
     andThen (createUserVisibleFiles aw cleanPayload) (\<lambda>_.
     andThen (switchDataDir aw tsDir) (\<lambda>_.
       finishWrite aw cleanPayload oldTSDir)))))))"

end
