(* ===== verification/Atomic_Writer_Paths.thy ===== *)
theory Atomic_Writer_Paths
  imports Atomic_Writer
begin

text \<open>
  What \<open>validatePath\<close> accepts, where accepted paths lead, the names that the writer reserves, and
  the names of its timestamped directories.
\<close>

section \<open>Accepted paths\<close>

lemma validateItems_iff:
  "validateItems items = Inr () \<longleftrightarrow>
     (\<forall>c \<in> set items. c \<noteq> ''..'' \<and> length c \<le> maxFileNameLength)"
  by (induction items) auto

lemma validateItems_total: "validateItems items = Inr () \<or> (\<exists>m. validateItems items = Inl (Msg m))"
  by (induction items) auto

lemma validatePath_iff:
  "validatePath p = Inr () \<longleftrightarrow>
     p \<noteq> [] \<and> \<not> isAbs p \<and> length p \<le> maxPathLength \<and>
     (\<forall>c \<in> set (splitc sep p). c \<noteq> ''..'' \<and> length c \<le> maxFileNameLength) \<and>
     \<not> (hasPrefix (hd (splitc sep p)) ''..'' \<and> length (hd (splitc sep p)) > 2)"
  using validateItems_iff [of "splitc sep p"]
  by (auto simp: validatePath_def Let_def split: sum.splits)

lemma validatePath_nodots: "validatePath p = Inr () \<Longrightarrow> nodots p"
  by (auto simp: validatePath_iff nodots_def)

lemma validatePath_rel: "validatePath p = Inr () \<Longrightarrow> \<not> isAbs p \<and> p \<noteq> []"
  by (simp add: validatePath_iff)

text \<open>The cleaned form of an accepted path: its components, or \<^verbatim>\<open>"."\<close>.\<close>

lemma clean_valid:
  "validatePath p = Inr () \<Longrightarrow> clean p = (if pcomps p = [] then ''.'' else joinc sep (pcomps p))"
  by (simp add: clean_nodots validatePath_nodots validatePath_rel)

section \<open>Reserved names\<close>

text \<open>The writer reserves the names that start with \<^verbatim>\<open>".."\<close>.\<close>

definition unreserved :: "string \<Rightarrow> bool" where
  "unreserved n \<longleftrightarrow> \<not> hasPrefix n ''..''"

text \<open>A payload key whose cleaned form does not start with a reserved name.\<close>

definition safe_key :: "string \<Rightarrow> bool" where
  "safe_key k \<longleftrightarrow> (pcomps k \<noteq> [] \<longrightarrow> unreserved (hd (pcomps k)))"

lemma unreserved_not_data [simp]:
  "unreserved n \<Longrightarrow> n \<noteq> dataDirName" "unreserved n \<Longrightarrow> n \<noteq> newDataDirName" "unreserved n \<Longrightarrow> n \<noteq> ''..''"
  by (auto simp: unreserved_def hasPrefix_def dataDirName_def newDataDirName_def)

text \<open>An accepted path that does not begin with the element \<^verbatim>\<open>"."\<close> never names a reserved entry.\<close>

lemma valid_safe_key:
  assumes "validatePath p = Inr ()" "hd (splitc sep p) \<noteq> ''.''"
  shows "safe_key p"
proof -
  from assms(1) have p: "p \<noteq> []" "\<not> isAbs p" by (auto simp: validatePath_iff)
  obtain c cs where cs: "splitc sep p = c # cs" by (cases "splitc sep p") auto
  have "c = takeWhile (\<lambda>x. x \<noteq> sep) p" using cs hd_splitc [of sep p] by simp
  with p have "c \<noteq> []" by (cases p) (auto simp: isAbs_def)
  with cs assms(2) have hd: "pcomps p = c # filter (\<lambda>c. c \<noteq> [] \<and> c \<noteq> ''.'') cs"
    by (simp add: pcomps_def)
  have "c \<noteq> ''..''" "\<not> (hasPrefix c ''..'' \<and> length c > 2)"
    using assms(1) cs by (auto simp: validatePath_iff)
  then have "unreserved c"
    using \<open>c \<noteq> []\<close>
    by (auto simp: unreserved_def hasPrefix_iff)
  with hd show ?thesis by (simp add: safe_key_def)
qed

section \<open>Timestamped directories\<close>

definition is_digit :: "char \<Rightarrow> bool" where
  "is_digit c \<longleftrightarrow> c \<in> set ''0123456789''"

text \<open>The names \<^verbatim>\<open>newTimestampDir\<close> gives: two dots, then a digit, and no separator.\<close>

definition tsname :: "string \<Rightarrow> bool" where
  "tsname n \<longleftrightarrow> (\<exists>c r. n = CHR ''.'' # CHR ''.'' # c # r \<and> is_digit c) \<and> sep \<notin> set n"

lemma digit_is_digit: "d < 10 \<Longrightarrow> is_digit (digit d)"
  using nth_mem [of d "''0123456789''"] by (simp add: is_digit_def digit_def)

lemma itoa_digits: "\<forall>c \<in> set (itoa n). is_digit c"
proof (induction n rule: itoa.induct)
  case (1 n)
  then show ?case
    by (subst itoa.simps) (auto simp: digit_is_digit)
qed

lemma itoa_not_Nil [simp]: "itoa n \<noteq> []"
  by (subst itoa.simps) simp

lemma is_digit_0: "is_digit CHR ''0''"
  by (simp add: is_digit_def)

lemma padded_digits: "\<forall>c \<in> set (padded k n). is_digit c"
  using itoa_digits is_digit_0 by (auto simp: padded_def Let_def)

lemma padded_not_Nil [simp]: "padded k n \<noteq> []"
  by (simp add: padded_def Let_def)

lemma sep_not_digit: "\<not> is_digit sep"
  by (simp add: is_digit_def)

lemma tsname_stamp: "tsname (formatStamp c @ itoa n)"
proof -
  obtain x xs where x: "padded 4 (c_year c) = x # xs"
    by (cases "padded 4 (c_year c)") auto
  have dig: "is_digit x" using padded_digits [of 4 "c_year c"] x by simp
  have nosep: "sep \<notin> set (padded k m)" "sep \<notin> set (itoa m)" for k m
    using padded_digits itoa_digits sep_not_digit by blast+
  have "sep \<notin> set (formatStamp c @ itoa n)"
    using nosep by (simp add: formatStamp_def)
  moreover have "\<exists>r. formatStamp c @ itoa n = CHR ''.'' # CHR ''.'' # x # r"
    by (simp add: formatStamp_def x)
  ultimately show ?thesis
    using dig unfolding tsname_def by blast
qed

lemma tsname_pname: "tsname n \<Longrightarrow> pname n"
  by (auto simp: tsname_def pname_def)

lemma tsname_reserved: "tsname n \<Longrightarrow> \<not> unreserved n"
  by (auto simp: tsname_def unreserved_def hasPrefix_def)

lemma tsname_not_data [simp]:
  "tsname n \<Longrightarrow> n \<noteq> dataDirName" "tsname n \<Longrightarrow> n \<noteq> newDataDirName"
  by (auto simp: tsname_def dataDirName_def newDataDirName_def is_digit_def)

lemma pname_data [simp]: "pname dataDirName" "pname newDataDirName"
  by (auto simp: pname_def dataDirName_def newDataDirName_def)

end
