(* ===== verification/Atomic_Writer_Build.thy ===== *)
theory Atomic_Writer_Build
  imports Atomic_Writer_Paths
begin

text \<open>
  The first half of a write: validation of the payload, the new timestamped directory, and the
  files written below it. The facts hold for every schedule of failing system calls: on failure
  nothing changed outside the new directory.
\<close>

section \<open>Validated payloads\<close>

text \<open>The keys of a validated payload are clean, relative, without \<^verbatim>\<open>".."\<close>, and not reserved.\<close>

definition key_ok :: "string \<Rightarrow> bool" where
  "key_ok k \<longleftrightarrow> nodots k \<and> safe_key k \<and>
     k = (if pcomps k = [] then ''.'' else joinc sep (pcomps k))"

lemma key_ok_clean:
  assumes "validatePath k = Inr ()" "safe_key k"
  shows "key_ok (clean k)"
proof -
  have nd: "nodots k" using assms(1) by (rule validatePath_nodots)
  then have pc: "pcomps (clean k) = pcomps k" by simp
  have "clean k = (if pcomps (clean k) = [] then ''.'' else joinc sep (pcomps (clean k)))"
    unfolding pc using assms(1) by (rule clean_valid)
  then show ?thesis
    using assms(2) nodots_clean [OF nd] unfolding key_ok_def safe_key_def pc by blast
qed

lemma key_ok_inj: "key_ok k \<Longrightarrow> key_ok k' \<Longrightarrow> pcomps k = pcomps k' \<Longrightarrow> k = k'"
  unfolding key_ok_def by metis

lemma key_ok_linkname:
  "key_ok k \<Longrightarrow> takeWhile (\<lambda>c. c \<noteq> sep) k = (if pcomps k = [] then ''.'' else hd (pcomps k))"
proof -
  assume k: "key_ok k"
  show ?thesis
  proof (cases "pcomps k = []")
    case True
    with k have "k = ''.''" by (auto simp: key_ok_def)
    with True show ?thesis by simp
  next
    case False
    have names: "\<forall>c \<in> set (pcomps k). pname c"
      using k pcomps_pname by (auto simp: key_ok_def)
    have "takeWhile (\<lambda>c. c \<noteq> sep) k = hd (splitc sep (joinc sep (pcomps k)))"
      using k False unfolding key_ok_def by (metis hd_splitc)
    then show ?thesis using names False by (subst (asm) splitc_joinc) (auto simp: pname_def)
  qed
qed

text \<open>What \<open>validatePayload\<close> returns: every accepted entry under its cleaned key.\<close>

definition cleaned :: "payload \<Rightarrow> payload \<Rightarrow> bool" where
  "cleaned payload cp \<longleftrightarrow> distinct (mkeys cp) \<and>
     (\<forall>k v. mget cp k = Some v \<longrightarrow>
        (\<exists>k0 \<in> set (mkeys payload). validatePath k0 = Inr () \<and> k = clean k0 \<and> v = pget payload k0)) \<and>
     (\<forall>k0 \<in> set (mkeys payload). validatePath k0 = Inr () \<and> clean k0 \<in> set (mkeys cp))"

lemma hoare_validatePayload:
  assumes "world_ok w0"
  shows "hoare (on_fs w0 \<Phi>) (validatePayload payload)
    (\<lambda>cp w. on_fs w0 \<Phi> w \<and> cleaned payload cp) (\<lambda>_. on_fs w0 \<Phi>)"
  unfolding validatePayload_def
proof (rule hoare_map_range [OF assms])
  fix ks assume ks: "mset ks = mset (mkeys payload)"
  let ?P = "\<lambda>ys cp w. on_fs w0 \<Phi> w \<and> distinct (mkeys cp) \<and>
      (\<forall>k v. mget cp k = Some v \<longrightarrow>
        (\<exists>k0 \<in> set ys. validatePath k0 = Inr () \<and> k = clean k0 \<and> v = pget payload k0)) \<and>
      (\<forall>k0 \<in> set ys. validatePath k0 = Inr () \<and> clean k0 \<in> set (mkeys cp))"
  let ?body = "\<lambda>k cp. andThen (lift_res (validatePath k)) (\<lambda>_. ret (mput (clean k) (pget payload k) cp))"
  have "hoare (?P [] []) (for_acc ?body ks []) (?P ks) (\<lambda>_. on_fs w0 \<Phi>)"
  proof (rule hoare_for_acc_done)
    fix ys x zs cp
    show "hoare (?P ys cp) (?body x cp) (?P (ys @ [x])) (\<lambda>_. on_fs w0 \<Phi>)"
    proof (cases "validatePath x")
      case (Inl e)
      then show ?thesis by (simp add: hoare_def andThen_def lift_res_def)
    next
      case (Inr u)
      then show ?thesis
        by (auto simp: hoare_def andThen_def lift_res_def ret_def distinct_update
            dom_update split: if_splits)
    qed
  qed
  moreover have "set ks = set (mkeys payload)" using ks by (metis set_mset_mset)
  ultimately show "hoare (on_fs w0 \<Phi>) (for_acc ?body ks [])
      (\<lambda>cp w. on_fs w0 \<Phi> w \<and> cleaned payload cp) (\<lambda>_. on_fs w0 \<Phi>)"
    by (elim hoare_weaken) (auto simp: cleaned_def)
qed

section \<open>The new timestamped directory\<close>

text \<open>\<open>new_ts td f0 d f\<close>: \<open>d\<close> names a new, empty directory of \<open>f\<close> that \<open>f0\<close> does not have.\<close>

definition new_ts :: "string \<Rightarrow> fs \<Rightarrow> string \<Rightarrow> fs \<Rightarrow> bool" where
  "new_ts td f0 d f \<longleftrightarrow> (\<exists>ts. pcomps d = pcomps td @ [ts] \<and> nodots d \<and> tsname ts \<and> fbase d = ts \<and>
     map_of f0 (pcomps td @ [ts]) = None \<and> framed f0 {pcomps td @ [ts]} f \<and> isdir f (pcomps td @ [ts]))"

lemma joinPath_name:
  assumes "nodots td" "td \<noteq> []" "pname n"
  shows "pcomps (joinPath td n) = pcomps td @ [n]" "nodots (joinPath td n)" "fbase (joinPath td n) = n"
proof -
  obtain d where d: "joinPath td n = d @ sep # n" "pcomps d = pcomps td" "nodots d"
  proof (cases "last td = sep")
    case True
    then obtain d where "td = d @ [sep]" using assms(2) by (metis append_butlast_last_id)
    then show thesis
      using that [of d] assms(1) pcomps_append_sep [of d "[]"] nodots_append_sep [of d "[]"]
      by (simp add: joinPath_def)
  qed (use that [of td] assms in \<open>simp add: joinPath_def\<close>)
  then show "pcomps (joinPath td n) = pcomps td @ [n]" "nodots (joinPath td n)" "fbase (joinPath td n) = n"
    using assms(3) by (simp_all add: pcomps_append_sep pcomps_name nodots_append_sep nodots_name fbase_name)
qed

lemma hoare_mkdir_ts:
  assumes td: "nodots td" "td \<noteq> []" "wf_fs f0" "isdir f0 (pcomps td)"
  shows "hoare (on_fs w0 (\<lambda>f. f = f0)) (osMkdir (joinPath td (formatStamp c @ itoa x)) 0x1C0)
    (\<lambda>_. on_fs w0 (new_ts td f0 (joinPath td (formatStamp c @ itoa x)))) (\<lambda>_. on_fs w0 (\<lambda>f. f = f0))"
proof (rule hoare_osMkdir)
  fix f r a
  let ?ts = "formatStamp c @ itoa x"
  assume f: "f = f0" and r: "resolve f False (joinPath td ?ts) = Inr r" "map_of f r = None"
  have ts: "pname ?ts" using tsname_stamp tsname_pname by blast
  have "resolve f False (joinPath td ?ts) = Inr (pcomps td @ [?ts])"
    by (rule resolve_child) (use td f ts in \<open>auto simp: joinPath_name\<close>)
  with r have r': "r = pcomps td @ [?ts]" by simp
  have "wf_fs (AList.update r (Dir a) f)"
    by (rule wf_fs_update_new) (use td f r r' ts in \<open>auto simp: good_loc_def\<close>)
  with r r' f show "new_ts td f0 (joinPath td ?ts) (AList.update r (Dir a) f)"
    using joinPath_name [OF td(1,2) ts] tsname_stamp
    by (auto simp: new_ts_def framed_def only_changes_def isdir_def)
qed auto

lemma hoare_mkdirTemp:
  assumes td: "nodots td" "td \<noteq> []" "wf_fs f0" "isdir f0 (pcomps td)"
  shows "hoare (on_fs w0 (\<lambda>f. f = f0)) (mkdirTemp_loop n td (formatStamp c))
    (\<lambda>d. on_fs w0 (new_ts td f0 d)) (\<lambda>_. on_fs w0 (\<lambda>f. f = f0))"
proof (induction n)
  case 0
  show ?case by (simp add: hoare_def throw_def)
next
  case (Suc n)
  let ?I = "on_fs w0 (\<lambda>f. f = f0)" and ?Q = "\<lambda>d. on_fs w0 (new_ts td f0 d)"
  have rnd: "hoare ?I nextRandom (\<lambda>s w. ?I w \<and> (\<exists>x. s = itoa x)) (\<lambda>_. ?I)"
    by (auto simp: hoare_def nextRandom_def on_fs_def same_env_def)
  have thr: "hoare ?I (throw e) ?Q (\<lambda>_. ?I)" for e by (simp add: hoare_def throw_def)
  have st: "hoare ?I (osStat td) (\<lambda>_. ?I) (\<lambda>_. ?I)"
    using stays_reads(1) by (simp add: stays_def)
  have fail: "hoare ?I (attempt (osStat td)
      (case_sum (\<lambda>e'. throw (if isNotExist e' then e' else e)) (\<lambda>_. throw e))) ?Q (\<lambda>_. ?I)" for e
    by (rule hoare_cases [OF st thr thr])
  show ?case
    unfolding mkdirTemp_loop.simps Let_def
  proof (rule hoare_andThen [OF rnd], rule hoare_assume, elim exE, hypsubst)
    fix x
    let ?d = "joinPath td (formatStamp c @ itoa x)"
    show "hoare ?I (attempt (osMkdir ?d 0x1C0)
        (case_sum (\<lambda>e. if e = Sys EEXIST then mkdirTemp_loop n td (formatStamp c)
            else if isNotExist e then attempt (osStat td)
              (case_sum (\<lambda>e'. throw (if isNotExist e' then e' else e)) (\<lambda>_. throw e)) else throw e)
          (\<lambda>_. ret ?d))) ?Q (\<lambda>_. ?I)"
      by (rule hoare_cases [OF hoare_mkdir_ts [OF td]]) (use Suc.IH fail thr in \<open>auto intro: hoare_ret\<close>)
  qed
qed

lemma new_ts_isdir_target:
  "new_ts td f0 d f \<Longrightarrow> isdir f0 (pcomps td) \<Longrightarrow> isdir f (pcomps td)"
  unfolding new_ts_def by (elim exE conjE, erule framed_isdir) auto

lemma hoare_newTimestampDir:
  assumes td: "nodots td" "td \<noteq> []" "wf_fs f0" "isdir f0 (pcomps td)" "targetDir aw = td"
  shows "hoare (on_fs w0 (\<lambda>f. f = f0)) (newTimestampDir aw)
    (\<lambda>d. on_fs w0 (new_ts td f0 d))
    (\<lambda>_. on_fs w0 (\<lambda>f. f = f0 \<or> (\<exists>d. new_ts td f0 d f)))"
  unfolding newTimestampDir_def osMkdirTemp_def
proof (rule hoare_andThen [where R = "\<lambda>d. on_fs w0 (new_ts td f0 d)"])
  show "hoare (on_fs w0 (\<lambda>f. f = f0)) (\<lambda>w. mkdirTemp_loop 10000 (targetDir aw) (formatStamp (now w)) w)
     (\<lambda>d. on_fs w0 (new_ts td f0 d)) (\<lambda>_. on_fs w0 (\<lambda>f. f = f0 \<or> (\<exists>d. new_ts td f0 d f)))"
  proof (rule hoare_now [where c = "now w0"])
    show "hoare (on_fs w0 (\<lambda>f. f = f0)) (mkdirTemp_loop 10000 (targetDir aw) (formatStamp (now w0)))
       (\<lambda>d. on_fs w0 (new_ts td f0 d)) (\<lambda>_. on_fs w0 (\<lambda>f. f = f0 \<or> (\<exists>d. new_ts td f0 d f)))"
      unfolding td(5)
      by (rule hoare_weaken [OF hoare_mkdirTemp [OF td(1-4)]]) (auto simp: on_fs_def)
  qed (auto simp: on_fs_def same_env_def)
next
  fix d
  have chmod: "stays w0 (new_ts td f0 d) (osChmod d 0x1ED)"
    unfolding stays_def osChmod_def
  proof (rule hoare_pathcall)
    fix f r x f'
    assume f: "new_ts td f0 d f" and r: "resolve f True d = Inr r"
      and k: "k_setattr (\<lambda>a. a\<lparr>a_mode := syscallMode 0x1ED\<rparr>) f r = Inr (x, f')"
    then obtain ts where ts: "pcomps d = pcomps td @ [ts]" "tsname ts" "isdir f (pcomps td @ [ts])"
      "framed f0 {pcomps td @ [ts]} f"
      by (auto simp: new_ts_def)
    then have r': "r = pcomps td @ [ts]"
      using resolve_child [of f "pcomps td" d ts True] r new_ts_isdir_target [OF f td(4)]
        isdir_not_islink tsname_pname
      by (auto simp: framed_def)
    with ts(3) k have "isdir f' r"
      by (auto simp: isdir_def k_setattr_def)
    moreover have "wf_fs f' \<and> only_changes {r} f f'"
      using tame_setattr k r ts(4) resolve_good unfolding tame_def framed_def by blast
    ultimately show "new_ts td f0 d f'"
      using f ts(1) r' by (auto simp: new_ts_def framed_def only_changes_def)
  qed auto
  show "hoare (on_fs w0 (new_ts td f0 d)) (andThen (osChmod d 0x1ED) (\<lambda>_. ret d))
      (\<lambda>d. on_fs w0 (new_ts td f0 d)) (\<lambda>_. on_fs w0 (\<lambda>f. f = f0 \<or> (\<exists>d. new_ts td f0 d f)))"
    by (rule hoare_andThen [where R = "\<lambda>_. on_fs w0 (new_ts td f0 d)"])
       (use chmod in \<open>auto simp: stays_def hoare_def ret_def on_fs_def split: prod.splits sum.splits\<close>)
qed

section \<open>Writing the payload below the new directory\<close>

text \<open>
  \<open>lay f1 D f\<close>: \<open>f\<close> differs from \<open>f1\<close> below \<open>D\<close> only, \<open>D\<close> is a directory without links below it and
  without reserved names in it.
\<close>

definition lay :: "fs \<Rightarrow> fpath \<Rightarrow> fs \<Rightarrow> bool" where
  "lay f1 D f \<longleftrightarrow> framed f1 (under D) f \<and> isdir f D \<and> nolinks f D \<and>
     (\<forall>n. map_of f (D @ [n]) \<noteq> None \<longrightarrow> unreserved n)"

definition file_ok :: "fs \<Rightarrow> fpath \<Rightarrow> FileProjection \<Rightarrow> bool" where
  "file_ok f q fp \<longleftrightarrow> (\<exists>a. map_of f q = Some (File a (Data fp)) \<and> a_mode a = syscallMode (Mode fp) \<and>
     (\<forall>u. FsUser fp = Some u \<longrightarrow> 0 \<le> u \<and> u < 4294967295 \<longrightarrow> a_uid a = u))"

lemma lay_wf: "lay f1 D f \<Longrightarrow> wf_fs f"
  by (simp add: lay_def framed_def)

lemma lay_update:
  assumes lay: "lay f1 D f" and cs: "cs \<noteq> []" "unreserved (hd cs)" and nl: "\<And>t. n \<noteq> Link t"
    and wf: "wf_fs (AList.update (D @ cs) n f)"
  shows "lay f1 D (AList.update (D @ cs) n f)"
proof -
  have "framed f1 (under D) (AList.update (D @ cs) n f)"
    using lay wf by (intro framed_update) (auto simp: lay_def)
  moreover have "isdir (AList.update (D @ cs) n f) D"
    using lay cs by (auto simp: lay_def isdir_def)
  moreover have "nolinks (AList.update (D @ cs) n f) D"
    using lay nl by (auto simp: lay_def nolinks_def islink_def)
  moreover have "unreserved m" if "map_of (AList.update (D @ cs) n f) (D @ [m]) \<noteq> None" for m
    using that lay cs by (auto simp: lay_def split: if_splits)
  ultimately show ?thesis by (simp add: lay_def)
qed

lemma lay_resolve:
  assumes "lay f1 D f" "nodots p" "prefix (pcomps p) (D @ cs)" "resolve f fl p = Inr r"
  shows "r = pcomps p"
  using assms resolve_nolinks [of f D p "pcomps p" cs fl r] by (auto simp: lay_def framed_def)

lemma prefix_of_append_dir:
  assumes "wf_fs f" "isdir f D" "prefix q (D @ cs)" "map_of f q = None"
  obtains x where "q = D @ x" "x \<noteq> []" "prefix x cs"
proof -
  have "\<not> prefix q D"
  proof
    assume "prefix q D"
    then obtain z where "D = q @ z" by (auto simp: prefix_def)
    then have "isdir f q" using assms(1,2) isdir_prefix by blast
    with assms(4) show False by (simp add: isdir_def)
  qed
  then obtain x where "q = D @ x" "prefix x cs"
    using assms(3) by (auto simp: prefix_append)
  with that assms(2,4) show thesis by (cases x) (auto simp: isdir_def)
qed

lemma unreserved_hd_prefix: "prefix x cs \<Longrightarrow> x \<noteq> [] \<Longrightarrow> hd x = hd cs"
  by (cases x; cases cs) auto

lemma wf_fs_put_file:
  assumes "wf_fs f" "good_loc f r" "\<not> isdir f r"
  shows "wf_fs (AList.update r (File a d) f)"
proof (cases "map_of f r")
  case None
  with assms show ?thesis by (intro wf_fs_update_new)
next
  case (Some n)
  with assms show ?thesis by (intro wf_fs_update_same) (auto simp: isdir_def)
qed

text \<open>The state while one file is being written: everything that was there before is kept.\<close>

definition writing ::
  "fs \<Rightarrow> fpath \<Rightarrow> fs \<Rightarrow> string list \<Rightarrow> (attr \<Rightarrow> bool) \<Rightarrow> string \<Rightarrow> fs \<Rightarrow> bool" where
  "writing f1 D f2 cs P d f \<longleftrightarrow> lay f1 D f \<and> cs \<noteq> [] \<and> unreserved (hd cs) \<and>
     (\<forall>p. p \<noteq> D @ cs \<longrightarrow> map_of f2 p \<noteq> None \<longrightarrow> map_of f p = map_of f2 p) \<and>
     (\<exists>a. map_of f (D @ cs) = Some (File a d) \<and> P a)"

lemma writing_update:
  assumes "writing f1 D f2 cs P d f" "P' a'"
  shows "writing f1 D f2 cs P' d' (AList.update (D @ cs) (File a' d') f)"
proof -
  have "wf_fs (AList.update (D @ cs) (File a' d') f)"
    using assms(1) by (auto simp: writing_def intro!: wf_fs_update_same dest: lay_wf)
  then show ?thesis
    using assms lay_update [of f1 D f cs "File a' d'"] by (auto simp: writing_def)
qed

lemma hoare_writing_setattr:
  assumes "nodots p" "pcomps p = D @ cs" "\<And>a. P a \<Longrightarrow> P' (g a)"
  shows "hoare (on_fs w0 (writing f1 D f2 cs P d)) (pathcall True p (k_setattr g))
     (\<lambda>_. on_fs w0 (writing f1 D f2 cs P' d)) (\<lambda>_. on_fs w0 (framed f1 (under D)))"
proof (rule hoare_pathcall)
  fix f r x f'
  assume f: "writing f1 D f2 cs P d f" and r: "resolve f True p = Inr r" and k: "k_setattr g f r = Inr (x, f')"
  from f have "r = D @ cs"
    using lay_resolve [of f1 D f p cs] r assms(1,2) by (auto simp: writing_def)
  moreover obtain a where a: "map_of f (D @ cs) = Some (File a d)" "P a"
    using f by (auto simp: writing_def)
  ultimately have "f' = AList.update (D @ cs) (File (g a) d) f"
    using k by (auto simp: k_setattr_def)
  then show "writing f1 D f2 cs P' d f'"
    using writing_update [OF f, of P' "g a" d] assms(3) a(2) by simp
qed (auto simp: writing_def lay_def)

text \<open>
  The calls of the loop body of writePayloadToDir, one lemma each, for the file at the components
  \<open>cs\<close> of a key below the version's directory \<open>D\<close>.
\<close>

lemma stays_file_base:
  assumes p: "nodots p" "pcomps p = D @ cs" and safe: "cs \<noteq> [] \<Longrightarrow> unreserved (hd cs)"
  shows "stays w0 (\<lambda>f. lay f1 D f \<and> (\<forall>p. map_of f2 p \<noteq> None \<longrightarrow> map_of f p = map_of f2 p))
    (osMkdirAll (fst (fsplit p)) m)" (is "stays w0 ?\<Phi> _")
proof (rule stays_osMkdirAll)
  show "nodots (fst (fsplit p))" using p nodots_fsplit by metis
  have base: "prefix (pcomps (fst (fsplit p))) (D @ cs)" using p pcomps_fsplit [of p] prefixI by metis
  fix q f r a s
  assume q: "prefix q (pcomps (fst (fsplit p)))" "q \<noteq> []" "pcomps s = q" "nodots s"
    and f: "?\<Phi> f" and r: "resolve f False s = Inr r" "map_of f r = None"
  have q': "prefix q (D @ cs)" using q(1) base by (rule prefix_order.trans)
  have rq: "r = q" using lay_resolve [of f1 D f s cs] f q q' r by auto
  have wf: "wf_fs f" "isdir f D" using f by (auto simp: lay_def framed_def)
  obtain x where x: "q = D @ x" "x \<noteq> []" "prefix x cs"
    using prefix_of_append_dir [OF wf q'] r(2) rq by blast
  have "wf_fs (AList.update r (Dir a) f)"
    using wf(1) r resolve_good by (intro wf_fs_update_new)
  moreover have "cs \<noteq> []" using x by auto
  ultimately have "lay f1 D (AList.update r (Dir a) f)"
    using lay_update [of f1 D f x "Dir a"] f x rq safe unreserved_hd_prefix [OF x(3,2)] by auto
  then show "?\<Phi> (AList.update r (Dir a) f)"
    using f r(2) by auto
qed

lemma hoare_file_open:
  assumes p: "nodots p" "pcomps p = D @ cs" and safe: "cs \<noteq> [] \<Longrightarrow> unreserved (hd cs)"
  shows "hoare (on_fs w0 (\<lambda>f. lay f1 D f \<and> (\<forall>p. map_of f2 p \<noteq> None \<longrightarrow> map_of f p = map_of f2 p)))
    (osOpenTrunc p m) (\<lambda>_. on_fs w0 (writing f1 D f2 cs (\<lambda>_. True) [])) (\<lambda>_. on_fs w0 (framed f1 (under D)))"
proof (rule hoare_osOpenTrunc)
  fix f r a
  assume f: "lay f1 D f \<and> (\<forall>p. map_of f2 p \<noteq> None \<longrightarrow> map_of f p = map_of f2 p)"
    and r: "resolve f True p = Inr r" "\<not> isdir f r" "\<not> islink f r"
  have rq: "r = D @ cs" using lay_resolve [of f1 D f p cs] f p r by auto
  have cs: "cs \<noteq> []" using r(2) rq f by (auto simp: lay_def)
  have "wf_fs (AList.update r (File a []) f)"
    using f r resolve_good by (intro wf_fs_put_file) (auto simp: lay_def framed_def)
  then show "writing f1 D f2 cs (\<lambda>_. True) [] (AList.update r (File a []) f)"
    using f rq cs safe lay_update [of f1 D f cs "File a []"] by (auto simp: writing_def)
qed (auto simp: lay_def)

lemma hoare_file_append:
  assumes p: "nodots p" "pcomps p = D @ cs"
  shows "hoare (on_fs w0 (writing f1 D f2 cs (\<lambda>_. True) [])) (osAppend p x)
    (\<lambda>_. on_fs w0 (writing f1 D f2 cs (\<lambda>_. True) x)) (\<lambda>_. on_fs w0 (framed f1 (under D)))"
  unfolding osAppend_def
proof (rule hoare_pathcall)
  fix f r u f'
  assume f: "writing f1 D f2 cs (\<lambda>_. True) [] f" and r: "resolve f True p = Inr r"
    and k: "k_write x f r = Inr (u, f')"
  have "r = D @ cs"
    using lay_resolve [of f1 D f p cs] f p r by (auto simp: writing_def)
  then obtain a where "f' = AList.update (D @ cs) (File a x) f"
    using k f by (auto simp: writing_def k_write_def)
  then show "writing f1 D f2 cs (\<lambda>_. True) x f'"
    using writing_update [OF f, of "\<lambda>_. True" a x] by simp
qed (auto simp: writing_def lay_def)

lemma hoare_file_chown:
  assumes p: "nodots p" "pcomps p = D @ cs"
  shows "hoare (on_fs w0 (writing f1 D f2 cs A x)) (case u of None \<Rightarrow> ret () | Some u \<Rightarrow> osChown p u (-1))
    (\<lambda>_. on_fs w0 (writing f1 D f2 cs
       (\<lambda>a. (\<exists>a'. A a' \<and> a_mode a' = a_mode a) \<and> (\<forall>v. u = Some v \<longrightarrow> 0 \<le> v \<and> v < 4294967295 \<longrightarrow> a_uid a = v)) x))
    (\<lambda>_. on_fs w0 (framed f1 (under D)))"
proof (cases u)
  case None
  then show ?thesis by (auto simp: hoare_def ret_def on_fs_def writing_def)
next
  case (Some v)
  show ?thesis
    unfolding Some option.case osChown_def by (rule hoare_writing_setattr [OF p]) (auto simp: chownId_def)
qed

lemma hoare_writeFileToDir:
  assumes d: "nodots d" "d \<noteq> []" "pcomps d = D" and k: "key_ok k" and f2: "lay f1 D f2"
  shows "hoare (on_fs w0 (\<lambda>f. f = f2)) (writeFileToDir d k fp)
    (\<lambda>_. on_fs w0 (\<lambda>f. lay f1 D f \<and> pcomps k \<noteq> [] \<and> file_ok f (D @ pcomps k) fp \<and>
       (\<forall>p. p \<noteq> D @ pcomps k \<longrightarrow> map_of f2 p \<noteq> None \<longrightarrow> map_of f p = map_of f2 p)))
    (\<lambda>_. on_fs w0 (framed f1 (under D)))"
proof -
  define cs where "cs = pcomps k"
  define p where "p = fjoin d k"
  let ?E = "\<lambda>_::goerr. on_fs w0 (framed f1 (under D))"
  let ?\<Phi>1 = "\<lambda>f. lay f1 D f \<and> (\<forall>p. map_of f2 p \<noteq> None \<longrightarrow> map_of f p = map_of f2 p)"
  have nk: "nodots k" and safe: "cs \<noteq> [] \<Longrightarrow> unreserved (hd cs)"
    using k by (auto simp: key_ok_def cs_def safe_key_def)
  have p: "nodots p" "pcomps p = D @ cs"
    using d nk by (simp_all add: p_def cs_def)
  have mk: "hoare (on_fs w0 ?\<Phi>1) (osMkdirAll (fst (fsplit p)) 0x1FF) (\<lambda>_. on_fs w0 ?\<Phi>1) ?E"
    using stays_file_base [OF p safe] unfolding stays_def
    by (rule hoare_weaken) (auto simp: on_fs_def lay_def)
  have chm: "hoare (on_fs w0 (writing f1 D f2 cs (\<lambda>_. True) (Data fp))) (osChmod p (Mode fp))
      (\<lambda>_. on_fs w0 (writing f1 D f2 cs (\<lambda>a. a_mode a = syscallMode (Mode fp)) (Data fp))) ?E"
    unfolding osChmod_def by (rule hoare_writing_setattr [OF p]) simp
  have opn: "hoare (on_fs w0 ?\<Phi>1) (osOpenTrunc p (Mode fp))
      (\<lambda>_. on_fs w0 (writing f1 D f2 cs (\<lambda>_. True) [])) ?E"
    by (rule hoare_file_open [OF p]) (rule safe)
  note steps = hoare_andThen [OF mk hoare_andThen
    [OF hoare_andThen [OF opn hoare_file_append [OF p]] hoare_andThen [OF chm hoare_file_chown [OF p]]]]
  show ?thesis
    unfolding writeFileToDir_def Let_def osWriteFile_def p_def [symmetric]
    by (rule hoare_weaken [OF steps])
       (use f2 in \<open>auto simp: on_fs_def writing_def file_ok_def cs_def\<close>)
qed

lemma hoare_writePayloadToDir:
  assumes d: "nodots d" "d \<noteq> []" "pcomps d = D" and w0: "world_ok w0"
    and keys: "distinct (mkeys cp)" "\<And>k. k \<in> set (mkeys cp) \<Longrightarrow> key_ok k"
  shows "hoare (on_fs w0 (lay f1 D)) (writePayloadToDir cp d)
    (\<lambda>_. on_fs w0 (\<lambda>f. lay f1 D f \<and>
       (\<forall>k \<in> set (mkeys cp). pcomps k \<noteq> [] \<and> file_ok f (D @ pcomps k) (pget cp k))))
    (\<lambda>_. on_fs w0 (framed f1 (under D)))"
  unfolding writePayloadToDir_def
proof (rule hoare_map_range [OF w0])
  fix ks assume ks: "mset ks = mset (mkeys cp)"
  then have set_ks: "set ks = set (mkeys cp)" and dist: "distinct ks"
    using keys(1) by (metis set_mset_mset, metis mset_eq_imp_distinct_iff)
  let ?P = "\<lambda>ys f. lay f1 D f \<and>
      (\<forall>k \<in> set ys. pcomps k \<noteq> [] \<and> file_ok f (D @ pcomps k) (pget cp k))"
  have "hoare (on_fs w0 (?P [])) (for_each (\<lambda>k. writeFileToDir d k (pget cp k)) ks)
      (\<lambda>_. on_fs w0 (?P ks)) (\<lambda>_. on_fs w0 (framed f1 (under D)))"
  proof (rule hoare_for_each_done)
    fix ys x zs assume split: "ks = ys @ x # zs"
    have x: "key_ok x" using split set_ks keys(2) by auto
    have other: "D @ pcomps k \<noteq> D @ pcomps x" if "k \<in> set ys" for k
    proof -
      have "key_ok k" "k \<noteq> x" using that split set_ks keys(2) dist by auto
      with x key_ok_inj show ?thesis by auto
    qed
    show "hoare (on_fs w0 (?P ys)) (writeFileToDir d x (pget cp x)) (\<lambda>_. on_fs w0 (?P (ys @ [x])))
        (\<lambda>_. on_fs w0 (framed f1 (under D)))"
    proof (rule hoare_fix)
      fix f2 assume f2: "?P ys f2"
      show "hoare (on_fs w0 (\<lambda>g. g = f2)) (writeFileToDir d x (pget cp x))
          (\<lambda>_. on_fs w0 (?P (ys @ [x]))) (\<lambda>_. on_fs w0 (framed f1 (under D)))"
        by (rule hoare_weaken [OF hoare_writeFileToDir [OF d x, of f1 f2]])
           (use f2 other in \<open>auto simp: on_fs_def file_ok_def\<close>)
    qed
  qed
  then show "hoare (on_fs w0 (lay f1 D)) (for_each (\<lambda>k. writeFileToDir d k (pget cp k)) ks)
    (\<lambda>_. on_fs w0 (\<lambda>f. lay f1 D f \<and>
       (\<forall>k \<in> set (mkeys cp). pcomps k \<noteq> [] \<and> file_ok f (D @ pcomps k) (pget cp k))))
    (\<lambda>_. on_fs w0 (framed f1 (under D)))"
    using set_ks by simp
qed

text \<open>A new timestamped directory is a place to write.\<close>

lemma new_ts_lay:
  assumes "new_ts td f0 d f" "wf_fs f0"
  shows "lay f (pcomps d) f"
proof -
  from assms(1) obtain ts where ts: "pcomps d = pcomps td @ [ts]" "map_of f0 (pcomps d) = None"
    "framed f0 {pcomps d} f" "isdir f (pcomps d)"
    by (auto simp: new_ts_def)
  have none: "map_of f (pcomps d @ q) = None" if "q \<noteq> []" for q
  proof -
    have "map_of f0 (pcomps d @ q) = None"
      using wf_fs_absent_below [OF assms(2) _ that] ts(2) by (auto simp: isdir_def)
    then show ?thesis using framed_at [OF ts(3)] that by auto
  qed
  have "nolinks f (pcomps d)"
    unfolding nolinks_def
  proof (intro allI impI)
    fix p assume "prefix (pcomps d) p"
    then obtain q where "p = pcomps d @ q" by (auto simp: prefix_def)
    then show "\<not> islink f p"
      using none [of q] ts(4) isdir_not_islink by (cases "q = []") (auto simp: islink_def)
  qed
  with ts none show ?thesis by (auto simp: lay_def framed_def)
qed

end
