(* ===== verification/Atomic_Writer_Publish.thy ===== *)
theory Atomic_Writer_Publish
  imports Atomic_Writer_Build
begin

text \<open>
  The second half of a write: post-write functions, user-visible links, the switch of the data
  directory and the removal of what is old. The invariant \<open>aw_inv\<close> of a target directory holds
  before and after every write, for every schedule of failing system calls.
\<close>

section \<open>The invariant of a target directory\<close>

text \<open>Every unreserved entry of the target directory is a link into the data directory.\<close>

definition vis :: "fpath \<Rightarrow> fs \<Rightarrow> bool" where
  "vis T f \<longleftrightarrow> (\<forall>n. unreserved n \<longrightarrow> map_of f (T @ [n]) \<noteq> None \<longrightarrow>
     map_of f (T @ [n]) = Some (Link (''..data/'' @ n)))"

text \<open>\<open>version T ts f\<close>: the timestamped directory \<open>ts\<close> exists and has no reserved names in it.\<close>

definition version :: "fpath \<Rightarrow> string \<Rightarrow> fs \<Rightarrow> bool" where
  "version T ts f \<longleftrightarrow> tsname ts \<and> isdir f (T @ [ts]) \<and>
     (\<forall>n. map_of f (T @ [ts, n]) \<noteq> None \<longrightarrow> unreserved n)"

definition aw_inv :: "fpath \<Rightarrow> fs \<Rightarrow> bool" where
  "aw_inv T f \<longleftrightarrow> wf_fs f \<and> isdir f T \<and> vis T f \<and>
     (\<forall>x. map_of f (T @ [dataDirName]) = Some x \<longrightarrow> (\<exists>ts. x = Link ts \<and> version T ts f))"

section \<open>Post-write functions\<close>

text \<open>
  The contract of a post-write function: in the directory it is given it may add entries, replace
  links, and change the entries named in \<open>N\<close>; every other file stays as it is. It leaves links
  only to entries of the same directory and none with a name of \<open>N\<close>, it adds no reserved names, and
  reports names only.
\<close>

definition writable_in :: "string set \<Rightarrow> fs \<Rightarrow> fpath \<Rightarrow> fpath set" where
  "writable_in N f D = {D @ [n] | n. n \<in> N \<or> map_of f (D @ [n]) = None \<or> islink f (D @ [n])}"

definition unlinked :: "string set \<Rightarrow> fs \<Rightarrow> fpath \<Rightarrow> bool" where
  "unlinked N f D \<longleftrightarrow> (\<forall>n \<in> N. \<not> islink f (D @ [n]))"

definition dirfunc :: "string set \<Rightarrow> dirFunc \<Rightarrow> bool" where
  "dirfunc N F \<longleftrightarrow> (\<forall>w0 dir f1. nodots dir \<longrightarrow> dir \<noteq> [] \<longrightarrow> wf_fs f1 \<longrightarrow> isdir f1 (pcomps dir) \<longrightarrow>
     tidy f1 (pcomps dir) \<longrightarrow> unlinked N f1 (pcomps dir) \<longrightarrow>
     hoare (on_fs w0 (\<lambda>f. f = f1)) (F dir)
       (\<lambda>new. on_fs w0 (\<lambda>f.
          framed f1 (writable_in N f1 (pcomps dir)) f \<and> tidy f (pcomps dir) \<and> unlinked N f (pcomps dir) \<and>
          (\<forall>n. map_of f (pcomps dir @ [n]) \<noteq> None \<longrightarrow> map_of f1 (pcomps dir @ [n]) \<noteq> None \<or> unreserved n) \<and>
          (\<forall>n \<in> set new. pname n \<and> unreserved n)))
       (\<lambda>_. on_fs w0 (framed f1 (under (pcomps dir)))))"

text \<open>The state of the new directory while the post-write functions run.\<close>

definition built :: "fs \<Rightarrow> fpath \<Rightarrow> payload \<Rightarrow> string set \<Rightarrow> fs \<Rightarrow> bool" where
  "built f1 D cp N f \<longleftrightarrow> framed f1 (under D) f \<and> isdir f D \<and> tidy f D \<and> unlinked N f D \<and>
     (\<forall>n. map_of f (D @ [n]) \<noteq> None \<longrightarrow> unreserved n) \<and>
     (\<forall>k \<in> set (mkeys cp). (\<forall>n \<in> N. pcomps k \<noteq> [n]) \<longrightarrow> file_ok f (D @ pcomps k) (pget cp k))"

definition keys_ok :: "payload \<Rightarrow> payload \<Rightarrow> bool" where
  "keys_ok cp cp' \<longleftrightarrow> distinct (mkeys cp') \<and> set (mkeys cp) \<subseteq> set (mkeys cp') \<and>
     (\<forall>k \<in> set (mkeys cp'). key_ok k)"

lemma built_framed: "built f1 D cp N f \<Longrightarrow> framed f1 (under D) f"
  by (simp add: built_def)

lemma built_step:
  assumes b: "built f1 D cp N f2" "tidy f D" "unlinked N f D" and fr: "framed f2 (writable_in N f2 D) f"
    and new: "\<And>n. map_of f (D @ [n]) \<noteq> None \<Longrightarrow> map_of f2 (D @ [n]) \<noteq> None \<or> unreserved n"
  shows "built f1 D cp N f"
proof -
  have "framed f2 (under D) f"
    using fr by (rule framed_mono) (auto simp: writable_in_def)
  then have "framed f1 (under D) f"
    using framed_trans b(1) unfolding built_def by blast
  moreover have "isdir f D"
    using framed_isdir [OF fr, of D] b(1) by (auto simp: built_def writable_in_def)
  moreover have "file_ok f (D @ pcomps k) (pget cp k)"
    if "k \<in> set (mkeys cp)" "\<forall>n \<in> N. pcomps k \<noteq> [n]" for k
  proof -
    have ok: "file_ok f2 (D @ pcomps k) (pget cp k)" using b(1) that by (auto simp: built_def)
    then have "D @ pcomps k \<notin> writable_in N f2 D"
      using that(2) by (auto simp: writable_in_def file_ok_def islink_def)
    then have "map_of f (D @ pcomps k) = map_of f2 (D @ pcomps k)" using framed_at [OF fr] by blast
    with ok show ?thesis by (simp add: file_ok_def)
  qed
  moreover have "unreserved n" if "map_of f (D @ [n]) \<noteq> None" for n
    using new [OF that] b(1) unfolding built_def by blast
  ultimately show ?thesis using b(2,3) by (simp add: built_def)
qed

lemma key_ok_name: "pname n \<Longrightarrow> unreserved n \<Longrightarrow> key_ok (clean n)"
proof -
  assume n: "pname n" "unreserved n"
  have "clean n = n"
    using n clean_nodots [OF nodots_name] by (auto simp: pcomps_name pname_not_abs)
  with n show ?thesis by (simp add: key_ok_def nodots_name pcomps_name safe_key_def)
qed

lemma set_mkeys_put: "set (mkeys (mput k v m)) = insert k (set (mkeys m))"
  by (simp add: dom_update)

lemma keys_ok_put: "keys_ok cp0 cp \<Longrightarrow> key_ok k \<Longrightarrow> keys_ok cp0 (mput k v cp)"
  unfolding keys_ok_def set_mkeys_put by (auto simp: distinct_update)

lemma hoare_addNewFiles:
  assumes w0: "world_ok w0" and new: "\<forall>n \<in> set new. pname n \<and> unreserved n" and cp: "keys_ok cp0 cp"
  shows "hoare (on_fs w0 \<Phi>) (addNewFiles new cp)
    (\<lambda>cp' w. on_fs w0 \<Phi> w \<and> keys_ok cp0 cp') (\<lambda>_. on_fs w0 \<Phi>)"
  unfolding addNewFiles_def
proof (rule hoare_map_range [OF w0])
  fix ks assume "mset ks = mset new"
  then have ks: "set ks = set new" by (metis set_mset_mset)
  let ?body = "\<lambda>k cp. andThen (lift_res (validatePath k)) (\<lambda>_. ret (mput (clean k) zeroProjection cp))"
  let ?P = "\<lambda>_ cp' w. on_fs w0 \<Phi> w \<and> keys_ok cp0 cp'"
  have "hoare (?P [] cp) (for_acc ?body ks cp) (?P ks) (\<lambda>_. on_fs w0 \<Phi>)"
  proof (rule hoare_for_acc_done)
    fix ys x zs a assume "ks = ys @ x # zs"
    then have x: "key_ok (clean x)" using ks new key_ok_name by auto
    show "hoare (?P ys a) (?body x a) (?P (ys @ [x])) (\<lambda>_. on_fs w0 \<Phi>)"
      using x by (cases "validatePath x")
        (auto simp: hoare_def andThen_def lift_res_def ret_def keys_ok_put)
  qed
  then show "hoare (on_fs w0 \<Phi>) (for_acc ?body ks cp)
      (\<lambda>cp' w. on_fs w0 \<Phi> w \<and> keys_ok cp0 cp') (\<lambda>_. on_fs w0 \<Phi>)"
    by (rule hoare_pre) (use cp in simp)
qed

lemma hoare_runDirFuncs:
  assumes w0: "world_ok w0" and fs: "\<forall>F \<in> set dirFuncs. dirfunc N F"
    and d: "nodots d" "d \<noteq> []" "pcomps d = D"
  shows "hoare (\<lambda>w. on_fs w0 (built f1 D cp0 N) w \<and> keys_ok cp0 cp) (runDirFuncs dirFuncs d cp)
    (\<lambda>cp' w. on_fs w0 (built f1 D cp0 N) w \<and> keys_ok cp0 cp') (\<lambda>_. on_fs w0 (framed f1 (under D)))"
  unfolding runDirFuncs_def
proof (rule hoare_for_acc_done [where P = "\<lambda>_ cp w. on_fs w0 (built f1 D cp0 N) w \<and> keys_ok cp0 cp"])
  fix ys F zs cp assume "dirFuncs = ys @ F # zs"
  then have F: "dirfunc N F" using fs by auto
  let ?B = "built f1 D cp0 N"
  let ?E = "\<lambda>_::goerr. on_fs w0 (framed f1 (under D))"
  have run: "hoare (on_fs w0 ?B) (F d)
      (\<lambda>new w. on_fs w0 ?B w \<and> (\<forall>n \<in> set new. pname n \<and> unreserved n)) ?E"
  proof (rule hoare_fix)
    fix f2 assume f2: "?B f2"
    then have pre: "wf_fs f2" "isdir f2 (pcomps d)" "tidy f2 (pcomps d)" "unlinked N f2 (pcomps d)"
      using d by (auto simp: built_def framed_def)
    show "hoare (on_fs w0 (\<lambda>g. g = f2)) (F d)
        (\<lambda>new w. on_fs w0 ?B w \<and> (\<forall>n \<in> set new. pname n \<and> unreserved n)) ?E"
      by (rule hoare_weaken [OF F [unfolded dirfunc_def, rule_format, OF d(1,2) pre]])
         (use f2 d built_step [OF f2] framed_trans [OF built_framed [OF f2]] in \<open>auto simp: on_fs_def\<close>)
  qed
  show "hoare (\<lambda>w. on_fs w0 ?B w \<and> keys_ok cp0 cp)
     (andThen (wrapping ''error running specified post-write directory func'' (F d))
       (\<lambda>newFiles. addNewFiles newFiles cp))
     (\<lambda>cp' w. on_fs w0 ?B w \<and> keys_ok cp0 cp') ?E"
  proof (cases "keys_ok cp0 cp")
    case True
    show ?thesis
    proof (rule hoare_andThen)
      show "hoare (\<lambda>w. on_fs w0 ?B w \<and> keys_ok cp0 cp)
          (wrapping ''error running specified post-write directory func'' (F d))
          (\<lambda>new w. on_fs w0 ?B w \<and> (\<forall>n \<in> set new. pname n \<and> unreserved n)) ?E"
        by (rule hoare_pre [OF hoare_wrapping [OF run]]) simp
    next
      fix new
      show "hoare (\<lambda>w. on_fs w0 ?B w \<and> (\<forall>n \<in> set new. pname n \<and> unreserved n)) (addNewFiles new cp)
          (\<lambda>cp' w. on_fs w0 ?B w \<and> keys_ok cp0 cp') ?E"
      proof (cases "\<forall>n \<in> set new. pname n \<and> unreserved n")
        case new: True
        show ?thesis
          by (rule hoare_weaken [OF hoare_addNewFiles [OF w0 new True, of ?B]])
             (auto simp: on_fs_def built_def)
      qed (auto simp: hoare_def)
    qed
  qed (simp add: hoare_def)
qed

section \<open>User-visible links\<close>

abbreviation unreserved_in :: "fpath \<Rightarrow> fpath set" where
  "unreserved_in T \<equiv> {T @ [n] | n. unreserved n}"

lemma canon_data: "canon dataDirName"
  by (simp add: canon_def dataDirName_def nodots_def pcomps_def isAbs_def)

lemma fjoin_data: "pname n \<Longrightarrow> fjoin dataDirName n = ''..data/'' @ n"
  using fjoin_canon_name(1) [OF canon_data] by (simp add: dataDirName_def)

text \<open>The user-visible part of the target directory changed, by links into the data directory.\<close>

definition relinked :: "fpath \<Rightarrow> fs \<Rightarrow> fs \<Rightarrow> bool" where
  "relinked T f0 f \<longleftrightarrow> framed f0 (unreserved_in T) f \<and> vis T f"

lemma relinked_isdir: "relinked T f0 f \<Longrightarrow> isdir f0 T \<Longrightarrow> isdir f T"
  unfolding relinked_def by (auto intro: framed_isdir)

lemma stays_createUserVisibleFile:
  assumes td: "nodots td" "targetDir aw = td" "pcomps td = T" "td \<noteq> []" and k: "key_ok k" and T: "isdir f0 T"
  shows "stays w0 (relinked T f0) (createUserVisibleFile aw k)"
proof -
  define n where "n = takeWhile (\<lambda>c. c \<noteq> sep) k"
  have n: "n = (if pcomps k = [] then ''.'' else hd (pcomps k))"
    using key_ok_linkname [OF k] by (simp add: n_def)
  have name: "pname n \<and> unreserved n" if "pcomps k \<noteq> []"
    using that k n pcomps_pname [of k] by (auto simp: key_ok_def safe_key_def)
  have "stays w0 (relinked T f0) (osSymlink (fjoin dataDirName n) (fjoin td n))"
    unfolding stays_def osSymlink_def
  proof (rule hoare_pathcall)
    fix f r x f'
    assume f: "relinked T f0 f" and r: "resolve f False (fjoin td n) = Inr r"
      and k: "k_create (Link (fjoin dataDirName n)) f r = Inr (x, f')"
    have wf: "wf_fs f" "isdir f T"
      using f relinked_isdir [OF f T] by (auto simp: relinked_def framed_def)
    have ex: "map_of f r = None" "f' = AList.update r (Link (fjoin dataDirName n)) f"
      using k by (auto simp: k_create_def split: option.splits)
    have dot: "nodots ''.''" "pcomps ''.'' = []" by (simp_all add: nodots_def pcomps_def)
    show "relinked T f0 f'"
    proof (cases "pcomps k = []")
      case True
      with n td dot have "pcomps (fjoin td n) = T" by simp
      moreover obtain a where "map_of f T = Some (Dir a)" using wf(2) by (auto simp: isdir_def)
      ultimately have "r = T"
        using resolve_existing [of f T "Dir a" "fjoin td n" False] r wf td by auto
      then show ?thesis using ex(1) wf(2) by (simp add: isdir_def)
    next
      case False
      then have nm: "pname n" "unreserved n" using name by auto
      have "pcomps (fjoin td n) = T @ [n]" using nm td by (simp add: nodots_name pcomps_name)
      then have rn: "r = T @ [n]" using resolve_child [OF wf _ nm(1), of "fjoin td n" False] r by simp
      have "wf_fs f'"
        using tame_create k r resolve_good wf(1) unfolding tame_def by blast
      with f rn nm ex fjoin_data [OF nm(1)] show ?thesis
        by (auto simp: relinked_def vis_def intro!: framed_update)
    qed
  qed auto
  then show ?thesis
    unfolding createUserVisibleFile_def n_def [symmetric] Let_def td(2)
    by (intro stays_attempt) (auto split: sum.splits)
qed

lemma stays_createUserVisibleFiles:
  assumes td: "nodots td" "targetDir aw = td" "pcomps td = T" "td \<noteq> []" and T: "isdir f0 T"
    and w0: "world_ok w0" and keys: "\<forall>k \<in> set (mkeys cp). key_ok k"
  shows "stays w0 (relinked T f0) (createUserVisibleFiles aw cp)"
  unfolding stays_def createUserVisibleFiles_def
proof (rule hoare_map_range [OF w0])
  fix ks assume "mset ks = mset (mkeys cp)"
  then have "set ks = set (mkeys cp)" by (metis set_mset_mset)
  then show "hoare (on_fs w0 (relinked T f0)) (for_each (createUserVisibleFile aw) ks)
      (\<lambda>_. on_fs w0 (relinked T f0)) (\<lambda>_. on_fs w0 (relinked T f0))"
    using stays_createUserVisibleFile [OF td _ T] keys
    by (intro stays_for_each [unfolded stays_def]) (auto simp: stays_def)
qed

section \<open>The switch\<close>

lemma hoare_rename_link:
  assumes p: "pcomps p = T @ [m]" "pcomps p' = T @ [m']" "pname m" "pname m'" "m \<noteq> m'"
  shows "hoare (on_fs w0 (\<lambda>f. wf_fs f \<and> isdir f T \<and> map_of f (T @ [m]) = Some (Link t) \<and> f = f1)) (osRename p p')
    (\<lambda>_. on_fs w0 (\<lambda>f. framed f1 {T @ [m], T @ [m']} f \<and> map_of f (T @ [m']) = Some (Link t)))
    (\<lambda>_. on_fs w0 (\<lambda>f. f = f1))"
proof (cases "wf_fs f1 \<and> isdir f1 T \<and> map_of f1 (T @ [m]) = Some (Link t)")
  case True
  then have wf: "wf_fs f1" "isdir f1 T" and m: "map_of f1 (T @ [m]) = Some (Link t)" by auto
  have r: "resolve f1 False p = Inr (T @ [m])" "resolve f1 False p' = Inr (T @ [m'])"
    using wf p by (auto intro!: resolve_child)
  let ?f = "AList.update (T @ [m']) (Link t) (AList.delete (T @ [m]) f1)"
  have k: "k_rename f1 (T @ [m]) (T @ [m']) = (if isdir f1 (T @ [m']) then Inl EISDIR else Inr ((), ?f))"
    using m p(5) by (auto simp: k_rename_def isdir_def split: option.splits node.splits)
  have "framed f1 {T @ [m], T @ [m']} ?f" if nd: "\<not> isdir f1 (T @ [m'])"
  proof -
    let ?g = "AList.delete (T @ [m]) f1"
    have leaf: "map_of f1 ((T @ [m]) @ [c]) = None" for c
      by (rule leaf_of_nondir [OF wf(1)]) (use m in \<open>auto simp: isdir_def\<close>)
    then have g: "wf_fs ?g" using wf(1) by (intro wf_fs_delete_leaf) auto
    have T: "isdir ?g T" using wf(2) by (auto simp: isdir_def)
    have "wf_fs ?f"
    proof (cases "map_of ?g (T @ [m'])")
      case None
      with g T p(4) show ?thesis by (intro wf_fs_update_new) (auto simp: good_loc_def)
    next
      case (Some n)
      with g nd p(5) show ?thesis by (intro wf_fs_update_same) (auto simp: isdir_def)
    qed
    then show ?thesis by (auto simp: framed_def only_changes_def)
  qed
  then show ?thesis
    using r k
    by (auto simp: hoare_def osRename_def syscall_def on_fs_def same_env_def Let_def)
qed (auto simp: hoare_def on_fs_def)

text \<open>
  Step (8) has a frame of its own, the new link and the new version: \<open>switch_frame\<close>. Both error
  branches stay in it, and so do the two removals they are made of.
\<close>

abbreviation switch_frame :: "string list \<Rightarrow> string \<Rightarrow> string list set" where
  "switch_frame T ts \<equiv> insert (T @ [newDataDirName]) (under (T @ [ts]))"

abbreviation new_link :: "string list \<Rightarrow> string \<Rightarrow> fs \<Rightarrow> fs \<Rightarrow> bool" where
  "new_link T ts f1 f \<equiv> framed f1 {T @ [newDataDirName]} f \<and> map_of f (T @ [newDataDirName]) = Some (Link ts)"

abbreviation link_moved :: "string list \<Rightarrow> string \<Rightarrow> fs \<Rightarrow> fs \<Rightarrow> bool" where
  "link_moved T ts f1 f \<equiv> framed f1 {T @ [newDataDirName], T @ [dataDirName]} f \<and>
     map_of f (T @ [dataDirName]) = Some (Link ts)"

lemma data_link_paths:
  assumes "nodots td" "pcomps td = T" "td \<noteq> []"
  shows "pcomps (fjoin td newDataDirName) = T @ [newDataDirName]" "pcomps (fjoin td dataDirName) = T @ [dataDirName]"
  using assms by (simp_all add: nodots_name pcomps_name)

lemma newDataDirName_not_data: "newDataDirName \<noteq> dataDirName"
  by (simp add: newDataDirName_def dataDirName_def)

lemma switch_frame_dir: "framed f1 (switch_frame T ts) f \<Longrightarrow> isdir f1 T \<Longrightarrow> isdir f T \<and> wf_fs f"
  using framed_isdir [of f1 "switch_frame T ts" f T] by (auto simp: framed_def)

lemma switch_resolve:
  assumes td: "nodots td" "pcomps td = T" "td \<noteq> []" and d: "pcomps d = T @ [ts]" "tsname ts"
    and f1: "isdir f1 T" and f: "framed f1 (switch_frame T ts) f"
  shows "resolve f False (fjoin td newDataDirName) = Inr (T @ [newDataDirName])" "resolve f False d = Inr (T @ [ts])"
  using switch_frame_dir [OF f f1] data_link_paths [OF td] d tsname_pname by (auto intro!: resolve_child)

lemma hoare_giving_up:
  assumes "stays w0 \<Phi> m" "hoare (on_fs w0 \<Phi>) (g ()) Q (\<lambda>_. on_fs w0 \<Phi>)"
  shows "hoare (on_fs w0 \<Phi>) (andThen (ignoring m) g) Q (\<lambda>_. on_fs w0 \<Phi>)"
  by (rule hoare_andThen [where R = "\<lambda>_. on_fs w0 \<Phi>"])
     (use stays_ignoring [OF assms(1)] assms(2) in \<open>auto simp: stays_def\<close>)

lemma hoare_link_new:
  assumes r: "resolve f1 False p = Inr (T @ [newDataDirName])" and f1: "wf_fs f1"
  shows "hoare (on_fs w0 (\<lambda>f. f = f1)) (osSymlink ts p) (\<lambda>_. on_fs w0 (new_link T ts f1))
    (\<lambda>_. on_fs w0 (framed f1 (switch_frame T ts)))"
  unfolding osSymlink_def
proof (rule hoare_pathcall)
  fix f r x f'
  assume f: "f = f1" and r': "resolve f False p = Inr r" and k: "k_create (Link ts) f r = Inr (x, f')"
  have rr: "r = T @ [newDataDirName]" using r r' f by simp
  have "wf_fs f' \<and> only_changes {r} f f'"
    using tame_create k r' resolve_good f f1 unfolding tame_def by blast
  with rr f k show "new_link T ts f1 f'"
    by (auto simp: framed_def k_create_def split: option.splits)
qed (use f1 in \<open>auto simp: framed_refl\<close>)

lemma hoare_renameDataDir:
  assumes paths: "pcomps tmp = T @ [newDataDirName]" "pcomps data = T @ [dataDirName]"
    and g: "goos w0 \<noteq> ''windows''" and f1: "wf_fs f1" "isdir f1 T"
  shows "hoare (on_fs w0 (new_link T ts f1)) (renameDataDir ts tmp data) (\<lambda>_. on_fs w0 (link_moved T ts f1))
    (\<lambda>_. on_fs w0 (framed f1 (switch_frame T ts)))"
proof (rule hoare_fix)
  fix f2 assume f2: "new_link T ts f1 f2"
  then have wf2: "wf_fs f2" "isdir f2 T"
    using framed_isdir [of f1 _ f2 T] f1 by (auto simp: framed_def)
  have sub: "framed f1 {T @ [newDataDirName], T @ [dataDirName]} f2" "framed f1 (switch_frame T ts) f2"
    using f2 framed_mono by blast+
  have "hoare (on_fs w0 (\<lambda>f. f = f2)) (osRename tmp data) (\<lambda>_. on_fs w0 (link_moved T ts f1))
      (\<lambda>_. on_fs w0 (framed f1 (switch_frame T ts)))"
    by (rule hoare_weaken [OF hoare_rename_link [OF paths, of w0 ts f2]])
       (use f2 wf2 sub framed_trans newDataDirName_not_data in \<open>auto simp: on_fs_def\<close>)
  then show "hoare (on_fs w0 (\<lambda>f. f = f2)) (renameDataDir ts tmp data) (\<lambda>_. on_fs w0 (link_moved T ts f1))
      (\<lambda>_. on_fs w0 (framed f1 (switch_frame T ts)))"
    using g by (simp add: hoare_def renameDataDir_def on_fs_def same_env_def)
qed

lemma hoare_switchDataDir:
  assumes td: "nodots td" "targetDir aw = td" "pcomps td = T" "td \<noteq> []"
    and d: "pcomps d = T @ [ts]" "fbase d = ts" "tsname ts" and g: "goos w0 \<noteq> ''windows''"
    and f1: "wf_fs f1" "isdir f1 T"
  shows "hoare (on_fs w0 (\<lambda>f. f = f1)) (switchDataDir aw d) (\<lambda>_. on_fs w0 (link_moved T ts f1))
    (\<lambda>_. on_fs w0 (framed f1 (switch_frame T ts)))"
proof -
  let ?F = "framed f1 (switch_frame T ts)" and ?tmp = "fjoin td newDataDirName"
  note at = switch_resolve [OF td(1,3,4) d(1,3) f1(2)]
  have rm: "stays w0 ?F (osRemove ?tmp)" "stays w0 ?F (osRemoveAll d)"
    by (rule stays_osRemove stays_osRemoveAll; use at in auto)+
  have thr: "hoare (on_fs w0 ?F) (throw e) Q (\<lambda>_. on_fs w0 ?F)" for e and Q :: "unit \<Rightarrow> world \<Rightarrow> bool"
    by (simp add: hoare_def throw_def)
  have ren: "hoare (on_fs w0 (new_link T ts f1)) (renameDataDir ts ?tmp (fjoin td dataDirName))
      (\<lambda>_. on_fs w0 (link_moved T ts f1)) (\<lambda>_. on_fs w0 ?F)"
    by (rule hoare_renameDataDir [OF data_link_paths [OF td(1,3,4)] g f1])
  have lnk: "hoare (on_fs w0 (\<lambda>f. f = f1)) (osSymlink ts ?tmp) (\<lambda>_. on_fs w0 (new_link T ts f1)) (\<lambda>_. on_fs w0 ?F)"
    by (rule hoare_link_new) (use at f1 in \<open>auto simp: framed_refl\<close>)
  show ?thesis
    unfolding switchDataDir_def Let_def td(2) d(2)
    by (rule hoare_cases [OF lnk] hoare_cases [OF ren] hoare_giving_up [OF rm(1)] hoare_giving_up [OF rm(2)]
        thr hoare_ret)+
qed

end
