(* ===== verification/Atomic_Writer_Cleanup.thy ===== *)
theory Atomic_Writer_Cleanup
  imports Atomic_Writer_Publish
begin

text \<open>
  The end of a write: which paths \<open>pathsToRemove\<close> finds in the old version, and that removing them
  and the old version touches neither the data link nor the new version.
\<close>

section \<open>Walking the old version\<close>

text \<open>The path \<^verbatim>\<open>filepath.Walk\<close> reports for the node with components \<open>q\<close> below the root.\<close>

definition vpath :: "string \<Rightarrow> fpath \<Rightarrow> string" where
  "vpath root q = (if q = [] then root else root @ sep # joinc sep q)"

lemma vpath_snoc:
  "vpath root (q @ [n]) = vpath root q @ sep # n"
  by (cases "q = []") (auto simp: vpath_def joinc_append)

lemma vpath_canon:
  assumes "canon root" "\<forall>c \<in> set q. pname c"
  shows "canon (vpath root q) \<and> pcomps (vpath root q) = pcomps root @ q"
  using assms(2)
proof (induction q rule: rev_induct)
  case Nil
  then show ?case using assms(1) by (simp add: vpath_def)
next
  case (snoc n q)
  then show ?case
    using fjoin_canon_name [of "vpath root q" n]
    by (auto simp: vpath_snoc pcomps_append_sep pcomps_name)
qed

lemma fjoin_vpath:
  "canon root \<Longrightarrow> \<forall>c \<in> set q. pname c \<Longrightarrow> pname n \<Longrightarrow> fjoin (vpath root q) n = vpath root (q @ [n])"
  using vpath_canon [of root q] fjoin_canon_name(1) by (simp add: vpath_snoc)

text \<open>The reports of a walk are nodes of the tree.\<close>

definition reports :: "fs \<Rightarrow> string \<Rightarrow> string list \<Rightarrow> bool" where
  "reports f root acc \<longleftrightarrow> (\<forall>p \<in> set acc. \<exists>q. p = vpath root q \<and> (q \<noteq> [] \<longrightarrow> map_of f (pcomps root @ q) \<noteq> None))"

lemma reports_snoc:
  "reports f root acc \<Longrightarrow> q \<noteq> [] \<longrightarrow> map_of f (pcomps root @ q) \<noteq> None \<Longrightarrow> reports f root (acc @ [vpath root q])"
  by (auto simp: reports_def)

lemma hoare_osLstat_exact:
  assumes "wf_fs f" "pcomps p = r" "p \<noteq> []" "map_of f r = Some x"
  shows "hoare (on_fs w0 (\<lambda>g. g = f)) (osLstat p) (\<lambda>y w. on_fs w0 (\<lambda>g. g = f) w \<and> y = x)
    (\<lambda>_. on_fs w0 (\<lambda>g. g = f))"
proof -
  have "resolve f False p = Inr r" using assms by (intro resolve_existing) auto
  then have "hoare (on_fs w0 (\<lambda>g. g = f)) (osLstat p) (\<lambda>y. on_fs w0 (\<lambda>g. g = f \<and> y = x)) (\<lambda>_. on_fs w0 (\<lambda>g. g = f))"
    unfolding osLstat_def
    by (intro hoare_pathcall) (use assms(4) in \<open>auto simp: k_lstat_def\<close>)
  then show ?thesis by (rule hoare_weaken) (auto simp: on_fs_def)
qed

lemma hoare_osReadDir_exact:
  assumes "wf_fs f" "pcomps p = r" "p \<noteq> []" "isdir f r"
  shows "hoare (on_fs w0 (\<lambda>g. g = f)) (osReadDir p) (\<lambda>ns w. on_fs w0 (\<lambda>g. g = f) w \<and> ns = children f r)
    (\<lambda>_. on_fs w0 (\<lambda>g. g = f))"
proof -
  obtain a where a: "map_of f r = Some (Dir a)" using assms(4) by (auto simp: isdir_def)
  then have "resolve f True p = Inr r" using assms by (intro resolve_existing) (auto simp: islink_def)
  then have "hoare (on_fs w0 (\<lambda>g. g = f)) (osReadDir p) (\<lambda>ns. on_fs w0 (\<lambda>g. g = f \<and> ns = children f r))
      (\<lambda>_. on_fs w0 (\<lambda>g. g = f))"
    unfolding osReadDir_def
    by (intro hoare_pathcall) (use a in \<open>auto simp: k_readdir_def\<close>)
  then show ?thesis by (rule hoare_weaken) (auto simp: on_fs_def)
qed

text \<open>One entry of a directory: \<open>walkTree\<close> visits what Lstat finds there, by the hypothesis on the subtree.\<close>

lemma hoare_walk_entry:
  assumes f: "wf_fs f" and root: "canon root" and q: "\<forall>c \<in> set q. pname c"
    and c: "c \<in> set (children f (pcomps root @ q))" and acc: "reports f root acc"
    and rec: "\<And>y. map_of f (pcomps root @ (q @ [c])) = Some y \<Longrightarrow> \<forall>c \<in> set (q @ [c]). pname c \<Longrightarrow>
      hoare (on_fs w0 (\<lambda>g. g = f)) (walkTree n (vpath root (q @ [c])) y acc)
        (\<lambda>acc' w. on_fs w0 (\<lambda>g. g = f) w \<and> reports f root acc') E"
  shows "hoare (on_fs w0 (\<lambda>g. g = f)) (attempt (osLstat (fjoin (vpath root q) c))
      (case_sum (\<lambda>_. ret (acc @ [fjoin (vpath root q) c])) (\<lambda>info. walkTree n (fjoin (vpath root q) c) info acc)))
    (\<lambda>acc' w. on_fs w0 (\<lambda>g. g = f) w \<and> reports f root acc') E"
proof -
  let ?I = "on_fs w0 (\<lambda>g. g = f)"
  from c obtain y where y: "map_of f (pcomps root @ (q @ [c])) = Some y"
    by (auto simp: set_children)
  then have nm: "pname c" using wf_fs_parent [OF f, of "pcomps root @ q" c y] by simp
  then have names: "\<forall>c \<in> set (q @ [c]). pname c" using q by simp
  have snoc: "reports f root (acc @ [vpath root (q @ [c])])"
    using acc y by (intro reports_snoc) auto
  have lst: "hoare ?I (osLstat (vpath root (q @ [c]))) (\<lambda>z w. ?I w \<and> z = y) (\<lambda>_. ?I)"
    using vpath_canon [OF root names] y by (intro hoare_osLstat_exact [OF f]) (auto dest: canon_not_Nil)
  show ?thesis
    unfolding fjoin_vpath [OF root q nm]
    by (rule hoare_cases [OF lst]) (use rec [OF y names] snoc in \<open>auto simp: hoare_def ret_def\<close>)
qed

lemma hoare_walkTree:
  assumes f: "wf_fs f" and root: "canon root"
  shows "map_of f (pcomps root @ q) = Some x \<Longrightarrow> \<forall>c \<in> set q. pname c \<Longrightarrow> reports f root acc \<Longrightarrow>
    hoare (on_fs w0 (\<lambda>g. g = f)) (walkTree n (vpath root q) x acc)
      (\<lambda>acc' w. on_fs w0 (\<lambda>g. g = f) w \<and> reports f root acc') E"
proof (induction n arbitrary: q x acc)
  case 0
  then show ?case
    by (cases x) (auto simp: hoare_def ret_def intro: reports_snoc)
next
  case (Suc n)
  let ?I = "on_fs w0 (\<lambda>g. g = f)"
  let ?Q = "\<lambda>acc' w. ?I w \<and> reports f root acc'"
  have here: "reports f root (acc @ [vpath root q])" using Suc.prems by (intro reports_snoc) auto
  show ?case
  proof (cases x)
    case (Dir a)
    let ?body = "\<lambda>name acc'. attempt (osLstat (fjoin (vpath root q) name))
        (case_sum (\<lambda>_. ret (acc' @ [fjoin (vpath root q) name]))
           (\<lambda>info. walkTree n (fjoin (vpath root q) name) info acc'))"
    have entry: "hoare (?Q acc') (?body c acc') ?Q E" if "c \<in> set (children f (pcomps root @ q))" for c acc'
      by (rule hoare_assume, rule hoare_walk_entry [OF f root Suc.prems(2) that]) (use Suc.IH in blast)+
    have loop: "hoare (?Q acc0) (for_acc ?body (children f (pcomps root @ q)) acc0) ?Q E" for acc0
      by (rule hoare_for_acc_done [where P = "\<lambda>_. ?Q"]) (use entry in auto)
    have rd: "hoare ?I (osReadDir (vpath root q)) (\<lambda>ns w. ?I w \<and> ns = children f (pcomps root @ q)) (\<lambda>_. ?I)"
      using vpath_canon [OF root Suc.prems(2)] Suc.prems(1) Dir
      by (intro hoare_osReadDir_exact [OF f]) (auto simp: isdir_def dest: canon_not_Nil)
    show ?thesis
      unfolding Dir walkTree.simps Let_def
      by (rule hoare_cases [OF rd])
         (use loop [of "acc @ [vpath root q]"] here in \<open>auto simp: hoare_def ret_def\<close>)
  qed (use here in \<open>auto simp: hoare_def ret_def\<close>)
qed

lemma hoare_fpWalk:
  assumes f: "wf_fs f" and root: "canon root" and x: "map_of f (pcomps root) = Some x"
  shows "hoare (on_fs w0 (\<lambda>g. g = f)) (fpWalk root)
    (\<lambda>acc w. on_fs w0 (\<lambda>g. g = f) w \<and> reports f root acc) E"
proof -
  let ?I = "on_fs w0 (\<lambda>g. g = f)"
  let ?Q = "\<lambda>acc w. ?I w \<and> reports f root acc"
  have root_rep: "reports f root [root]"
    unfolding reports_def vpath_def by (auto intro!: exI [of _ "[]"])
  have tree: "hoare ?I (\<lambda>w. walkTree (fsdepth (wfs w)) root x [] w) ?Q E"
    using hoare_walkTree [OF f root, of "[]" x "[]" w0 "fsdepth f" E] x
    by (simp add: hoare_def on_fs_def vpath_def reports_def)
  have lst: "hoare ?I (osLstat root) (\<lambda>z w. ?I w \<and> z = x) (\<lambda>_. ?I)"
    using hoare_osLstat_exact [OF f refl _ x] canon_not_Nil [OF root] by simp
  show ?thesis
    unfolding fpWalk_def
    by (rule hoare_cases [OF lst]) (use tree root_rep in \<open>auto simp: hoare_def ret_def\<close>)
qed

section \<open>Paths to remove\<close>

lemma relativePath_vpath: "relativePath root (vpath root q) = joinc sep q"
proof (cases "q = []")
  case True
  have "trimPrefix [] ''/'' = []" by (simp add: trimPrefix_def)
  with True trimPrefix_append [of root "[]"] show ?thesis by (simp add: relativePath_def vpath_def)
next
  case False
  have "trimPrefix (sep # s) ''/'' = s" for s by (simp add: trimPrefix_def hasPrefix_def)
  with False show ?thesis by (simp add: relativePath_def vpath_def)
qed

lemma joinc_no_sep: "sep \<notin> set (joinc sep q) \<Longrightarrow> q \<noteq> [] \<Longrightarrow> q = [joinc sep q]"
  by (cases "(sep, q)" rule: joinc.cases) auto

text \<open>A path to remove that names an entry of the target directory is an unreserved name.\<close>

lemma hoare_pathsToRemove:
  assumes f: "wf_fs f" and root: "canon root" and x: "map_of f (pcomps root) = Some x"
    and un: "\<And>n. map_of f (pcomps root @ [n]) \<noteq> None \<Longrightarrow> unreserved n"
  shows "hoare (on_fs w0 (\<lambda>g. g = f)) (pathsToRemove cp root)
    (\<lambda>ps w. on_fs w0 (\<lambda>g. g = f) w \<and>
       (\<forall>p \<in> set ps. sep \<notin> set p \<longrightarrow> unreserved p \<and> map_of f (pcomps root @ [p]) \<noteq> None)) E"
    (is "hoare ?I _ ?Q _")
  unfolding pathsToRemove_def Let_def
proof (rule hoare_attempt [where R = "case_sum (\<lambda>_ _. False) (\<lambda>acc w. ?I w \<and> reports f root acc)"])
  fix r
  have names: "unreserved p \<and> map_of f (pcomps root @ [p]) \<noteq> None"
    if acc: "reports f root acc" and p: "p \<in> relativePath root ` set acc" "p \<noteq> []" "sep \<notin> set p" for acc p
  proof -
    obtain q where q: "p = joinc sep q" "q \<noteq> [] \<longrightarrow> map_of f (pcomps root @ q) \<noteq> None"
      using acc p(1) relativePath_vpath unfolding reports_def image_iff by metis
    with p have "q \<noteq> []" by auto
    with q joinc_no_sep [of q] p(3) have "map_of f (pcomps root @ [p]) \<noteq> None" by auto
    with un show ?thesis by blast
  qed
  show "hoare (case_sum (\<lambda>_ _. False) (\<lambda>acc w. ?I w \<and> reports f root acc) r)
     (case r of Inl e \<Rightarrow> if isNotExist e then ret [] else throw e
      | Inr visited \<Rightarrow> ret [p\<leftarrow>remdups [p\<leftarrow>map (relativePath root) visited. p \<noteq> []].
          p \<notin> set (concat (map subPaths (mkeys cp)))]) ?Q E"
    by (cases r) (auto simp: hoare_def ret_def dest: names)
qed (use hoare_fpWalk [OF f root x] in simp)

lemma stays_shouldWritePayload: "stays w0 \<Phi> (shouldWritePayload cp root)"
proof -
  have "stays w0 \<Phi> (shouldWriteFile p c)" for p c
    unfolding shouldWriteFile_def by (intro stays_attempt stays_if stays_andThen) auto
  then have "stays w0 \<Phi> (shouldWriteLoop cp root ks)" for ks
    by (induction ks) (auto intro!: stays_andThen)
  then show ?thesis
    unfolding shouldWritePayload_def by (intro stays_andThen) auto
qed

section \<open>Removing\<close>

lemma stays_osRemove_gen:
  assumes "\<And>f r. \<Phi> f \<Longrightarrow> wf_fs f"
    and "\<And>f r. \<Phi> f \<Longrightarrow> resolve f False p = Inr r \<Longrightarrow> wf_fs (AList.delete r f) \<Longrightarrow> \<Phi> (AList.delete r f)"
  shows "stays w0 \<Phi> (osRemove p)"
proof -
  have del: "f' = AList.delete r f" if "k_unlink f r = Inr (x, f') \<or> k_rmdir f r = Inr (x, f')" for f r x f'
    using that by (auto simp: k_unlink_def k_rmdir_def split: option.splits node.splits if_splits)
  have step: "stays w0 \<Phi> (pathcall False p k)" if "tame k" "k = k_unlink \<or> k = k_rmdir" for k
    unfolding stays_def
  proof (rule hoare_pathcall)
    fix f r x f'
    assume f: "\<Phi> f" and r: "resolve f False p = Inr r" and k: "k f r = Inr (x, f')"
    then have "f' = AList.delete r f" using that(2) del by blast
    moreover have "wf_fs f'"
      using that(1) k r resolve_good assms(1) [OF f] unfolding tame_def by blast
    ultimately show "\<Phi> f'" using assms(2) f r by blast
  qed auto
  show ?thesis
    unfolding osRemove_def
    by (intro stays_attempt step [OF tame_unlink])
       (auto intro!: stays_attempt step [OF tame_rmdir] split: sum.splits)
qed

lemma relinked_delete:
  "relinked T f0 f \<Longrightarrow> unreserved n \<Longrightarrow> wf_fs (AList.delete (T @ [n]) f) \<Longrightarrow> relinked T f0 (AList.delete (T @ [n]) f)"
  by (auto simp: relinked_def vis_def intro!: framed_delete)

lemma stays_removeUserVisiblePaths:
  assumes td: "nodots td" "targetDir aw = td" "pcomps td = T" "td \<noteq> []" and T: "isdir f0 T"
    and w0: "world_ok w0" and ps: "\<forall>p \<in> set ps. sep \<notin> set p \<longrightarrow> unreserved p \<and> pname p"
  shows "stays w0 (relinked T f0) (removeUserVisiblePaths aw ps)"
  unfolding stays_def removeUserVisiblePaths_def td(2)
proof (rule hoare_map_range [OF w0])
  fix ks assume "mset ks = mset ps"
  then have ks: "set ks = set ps" by (metis set_mset_mset)
  have rm: "stays w0 (relinked T f0) (osRemove (fjoin td p))" if "unreserved p" "pname p" for p
  proof (rule stays_osRemove_gen)
    fix f r
    assume f: "relinked T f0 f" and r: "resolve f False (fjoin td p) = Inr r"
      and wf: "wf_fs (AList.delete r f)"
    have "resolve f False (fjoin td p) = Inr (T @ [p])"
      by (rule resolve_child)
         (use f td that relinked_isdir [OF f T] in \<open>auto simp: relinked_def framed_def nodots_name pcomps_name\<close>)
    then have "r = T @ [p]" using r by simp
    then show "relinked T f0 (AList.delete r f)" using relinked_delete [OF f that(1)] wf by simp
  qed (auto simp: relinked_def framed_def)
  have "stays w0 (relinked T f0) (for_acc (\<lambda>p lasterr. if sep \<in> set p then ret lasterr
      else attempt (osRemove (fjoin td p)) (case_sum (\<lambda>e. ret (Some e)) (\<lambda>_. ret lasterr))) ks None)"
    by (rule stays_for_acc) (use ks ps rm in \<open>auto intro!: stays_attempt split: sum.splits\<close>)
  then have "stays w0 (relinked T f0) (andThen (for_acc (\<lambda>p lasterr. if sep \<in> set p then ret lasterr
      else attempt (osRemove (fjoin td p)) (case_sum (\<lambda>e. ret (Some e)) (\<lambda>_. ret lasterr))) ks None)
      (case_option (ret ()) throw))"
    by (rule stays_andThen) (auto split: option.splits)
  then show "hoare (on_fs w0 (relinked T f0)) (andThen (for_acc (\<lambda>p lasterr. if sep \<in> set p then ret lasterr
      else attempt (osRemove (fjoin td p)) (case_sum (\<lambda>e. ret (Some e)) (\<lambda>_. ret lasterr))) ks None)
      (case_option (ret ()) throw)) (\<lambda>_. on_fs w0 (relinked T f0)) (\<lambda>_. on_fs w0 (relinked T f0))"
    by (simp add: stays_def)
qed

section \<open>Finishing a write\<close>

text \<open>What the end of a write may change: user-visible links and the old version.\<close>

definition finished :: "fpath \<Rightarrow> string \<Rightarrow> fs \<Rightarrow> fs \<Rightarrow> bool" where
  "finished T old f0 f \<longleftrightarrow> vis T f \<and>
     framed f0 (unreserved_in T \<union> (if old = [] then {} else under (T @ [old]))) f"

lemma relinked_finished: "relinked T f0 f \<Longrightarrow> finished T old f0 f"
  unfolding relinked_def finished_def by (auto intro: framed_mono)

lemma vis_framed:
  assumes "vis T f" "framed f S g" "\<And>n. unreserved n \<Longrightarrow> T @ [n] \<notin> S"
  shows "vis T g"
  using assms framed_at [OF assms(2)] by (auto simp: vis_def)

lemma hoare_removeOld:
  assumes td: "nodots td" "pcomps td = T" "td \<noteq> []" and old: "tsname old" and T: "isdir f0 T"
  shows "hoare (on_fs w0 (relinked T f0)) (osRemoveAll (fjoin td old))
    (\<lambda>_. on_fs w0 (finished T old f0)) (\<lambda>_. on_fs w0 (finished T old f0))"
proof (rule hoare_fix)
  fix f assume f: "relinked T f0 f"
  let ?O = "under (T @ [old])"
  have wf: "wf_fs f" "isdir f T"
    using f relinked_isdir [OF f T] by (auto simp: relinked_def framed_def)
  have "stays w0 (framed f ?O) (osRemoveAll (fjoin td old))"
  proof (rule stays_osRemoveAll)
    fix g r assume g: "framed f ?O g" and r: "resolve g False (fjoin td old) = Inr r"
    have "isdir g T" using framed_isdir [OF g wf(2)] by auto
    then have "resolve g False (fjoin td old) = Inr (T @ [old])"
      using g td tsname_pname [OF old]
      by (intro resolve_child) (auto simp: framed_def nodots_name pcomps_name)
    with r show "under r \<subseteq> ?O" by simp
  qed
  moreover have "finished T old f0 g" if g: "framed f ?O g" for g
  proof -
    have "T @ [n] \<notin> ?O" if "unreserved n" for n
      using that tsname_reserved [OF old] by (auto simp: prefix_def)
    then have "vis T g" using vis_framed [OF _ g] f by (auto simp: relinked_def)
    moreover have "framed f0 (unreserved_in T \<union> ?O) g"
      by (rule framed_trans [of f0 _ f]) (use f g in \<open>auto simp: relinked_def elim!: framed_mono\<close>)
    ultimately show ?thesis
      using old by (auto simp: finished_def tsname_def)
  qed
  ultimately show "hoare (on_fs w0 (\<lambda>g. g = f)) (osRemoveAll (fjoin td old))
      (\<lambda>_. on_fs w0 (finished T old f0)) (\<lambda>_. on_fs w0 (finished T old f0))"
    unfolding stays_def
    by (elim hoare_weaken) (use wf in \<open>auto simp: on_fs_def framed_refl\<close>)
qed

lemma hoare_removePaths:
  assumes td: "nodots td" "targetDir aw = td" "pcomps td = T" "td \<noteq> []" and w0: "world_ok w0"
    and f0: "wf_fs f0" "isdir f0 T" "vis T f0" and old: "old = [] \<or> tsname old"
    and ps: "\<forall>p \<in> set ps. sep \<notin> set p \<longrightarrow> unreserved p \<and> pname p"
  shows "hoare (on_fs w0 (\<lambda>g. g = f0))
    (andThen (removeUserVisiblePaths aw ps) (\<lambda>_. if length old > 0 then osRemoveAll (fjoin td old) else ret ()))
    (\<lambda>_. on_fs w0 (finished T old f0)) (\<lambda>_. on_fs w0 (finished T old f0))"
proof (rule hoare_andThen [where R = "\<lambda>_. on_fs w0 (relinked T f0)"])
  show "hoare (on_fs w0 (\<lambda>g. g = f0)) (removeUserVisiblePaths aw ps) (\<lambda>_. on_fs w0 (relinked T f0))
      (\<lambda>_. on_fs w0 (finished T old f0))"
    by (rule hoare_weaken [OF stays_removeUserVisiblePaths [OF td f0(2) w0 ps, unfolded stays_def]])
       (use f0 in \<open>auto simp: on_fs_def relinked_finished relinked_def framed_refl\<close>)
next
  show "hoare (on_fs w0 (relinked T f0)) (if length old > 0 then osRemoveAll (fjoin td old) else ret ())
      (\<lambda>_. on_fs w0 (finished T old f0)) (\<lambda>_. on_fs w0 (finished T old f0))"
    using old hoare_removeOld [OF td(1,3,4) _ f0(2)]
    by (cases "old = []") (auto simp: hoare_def ret_def on_fs_def relinked_finished)
qed

text \<open>What is to be removed after an existing version: names of the target directory only, or nothing.\<close>

lemma hoare_plan_removal:
  assumes td: "nodots td" "pcomps td = T" "td \<noteq> []" and f0: "wf_fs f0" and v: "version T old f0"
    and E: "\<And>e w. on_fs w0 (\<lambda>g. g = f0) w \<Longrightarrow> E e w"
  shows "hoare (on_fs w0 (\<lambda>g. g = f0)) (andThen (pathsToRemove cp (fjoin td old)) (\<lambda>paths.
      andThen (shouldWritePayload cp (fjoin td old)) (\<lambda>should.
        ret (if \<not> should \<and> paths = [] then None else Some paths))))
    (\<lambda>todo w. on_fs w0 (\<lambda>g. g = f0) w \<and>
      (\<forall>ps. todo = Some ps \<longrightarrow> (\<forall>p \<in> set ps. sep \<notin> set p \<longrightarrow> unreserved p \<and> pname p))) E"
proof -
  let ?root = "fjoin td old" and ?I = "on_fs w0 (\<lambda>g. g = f0)"
  let ?ok = "\<lambda>ps. \<forall>p \<in> set ps. sep \<notin> set p \<longrightarrow> unreserved p \<and> pname p"
  have root: "canon ?root" "pcomps ?root = T @ [old]"
    using td v tsname_pname [of old]
    by (auto simp: version_def nodots_name pcomps_name intro!: canon_fjoin)
  obtain a where a: "map_of f0 (pcomps ?root) = Some (Dir a)"
    using v root by (auto simp: version_def isdir_def)
  have un: "unreserved n" "pname n" if "map_of f0 (pcomps ?root @ [n]) \<noteq> None" for n
    using that v root f0 unfolding wf_fs_def version_def by (auto, blast)
  have paths: "hoare ?I (pathsToRemove cp ?root) (\<lambda>ps w. ?I w \<and> ?ok ps) E"
    by (rule hoare_weaken [OF hoare_pathsToRemove [OF f0 root(1) a un(1), where E = E]])
       (use un(2) in auto)
  have should: "hoare ?I (shouldWritePayload cp ?root) (\<lambda>_. ?I) E"
    by (rule hoare_weaken [OF stays_shouldWritePayload [of w0 "\<lambda>g. g = f0" cp ?root, unfolded stays_def]])
       (use E in auto)
  show ?thesis
    by (rule hoare_andThen [OF paths], rule hoare_assume, rule hoare_andThen [OF should])
       (auto simp: hoare_def ret_def)
qed

lemma hoare_finishWrite:
  assumes td: "nodots td" "targetDir aw = td" "pcomps td = T" "td \<noteq> []" and w0: "world_ok w0"
    and f0: "wf_fs f0" "isdir f0 T" "vis T f0" and old: "old = [] \<or> version T old f0"
  shows "hoare (on_fs w0 (\<lambda>g. g = f0)) (finishWrite aw cp old)
    (\<lambda>_. on_fs w0 (finished T old f0)) (\<lambda>_. on_fs w0 (finished T old f0))"
proof -
  let ?I = "on_fs w0 (\<lambda>g. g = f0)"
  let ?E = "\<lambda>_::goerr. on_fs w0 (finished T old f0)"
  let ?ok = "\<lambda>ps. \<forall>p \<in> set ps. sep \<notin> set p \<longrightarrow> unreserved p \<and> pname p"
  have start: "on_fs w0 (finished T old f0) w" if "?I w" for w
    using that relinked_finished [of T f0 f0 old] f0 by (auto simp: on_fs_def relinked_def framed_refl)
  have oldname: "old = [] \<or> tsname old" using old by (auto simp: version_def)
  have plan: "hoare ?I (if old \<noteq> [] then andThen (pathsToRemove cp (fjoin td old)) (\<lambda>paths.
       andThen (shouldWritePayload cp (fjoin td old)) (\<lambda>should.
         ret (if \<not> should \<and> paths = [] then None else Some paths))) else ret (Some []))
       (\<lambda>todo w. ?I w \<and> (\<forall>ps. todo = Some ps \<longrightarrow> ?ok ps)) ?E"
  proof (cases "old = []")
    case False
    with old show ?thesis by (simp, intro hoare_plan_removal [OF td(1,3,4) f0(1) _ start])
  qed (simp add: hoare_def ret_def)
  have remove: "hoare (\<lambda>w. ?I w \<and> ?ok ps) (andThen (removeUserVisiblePaths aw ps)
      (\<lambda>_. if 0 < length old then osRemoveAll (fjoin td old) else ret ()))
      (\<lambda>_. on_fs w0 (finished T old f0)) ?E" for ps
    using hoare_removePaths [OF td w0 f0 oldname] by (intro hoare_assume) auto
  show ?thesis
    unfolding finishWrite_def Let_def td(2)
  proof (rule hoare_andThen [OF plan])
    show "hoare (\<lambda>w. ?I w \<and> (\<forall>ps. todo = Some ps \<longrightarrow> ?ok ps)) (case todo of None \<Rightarrow> ret ()
        | Some paths \<Rightarrow> andThen (removeUserVisiblePaths aw paths)
            (\<lambda>_. if 0 < length old then osRemoveAll (fjoin td old) else ret ()))
      (\<lambda>_. on_fs w0 (finished T old f0)) ?E" for todo
      using remove start by (cases todo) (simp_all add: hoare_def ret_def)
  qed
qed

end
