(* ===== verification/Samples.thy ===== *)
theory Samples
  imports Atomic_Writer_Publish
begin

text \<open>
  Concrete file systems and payloads on which the witnesses of the development evaluate the model:
  an empty target directory \<^verbatim>\<open>/d\<close>, and one that holds a published version with one file.
\<close>

definition clock0 :: clock where
  "clock0 = \<lparr>c_year = 2022, c_month = 10, c_day = 5, c_hour = 12, c_min = 30, c_sec = 0\<rparr>"

definition rootAttr :: attr where
  "rootAttr = \<lparr>a_mode = 0x1ED, a_uid = 0, a_gid = 0\<rparr>"

text \<open>No faults, maps in list order, the usual umask.\<close>

definition sampleWorld :: "fs \<Rightarrow> world" where
  "sampleWorld f = \<lparr>wfs = f, tick = 0, faulty = (\<lambda>_. False), iters = 0, mapord = (\<lambda>_ ks. ks), now = clock0,
     rnd = of_nat, rndpos = 0, umask = 0x12, goos = ''linux''\<rparr>"

definition emptyFS :: fs where
  "emptyFS = [([], Dir rootAttr), ([''d''], Dir rootAttr)]"

definition oldTS :: string where
  "oldTS = ''..2022_10_05_12_30_00.7''"

definition versionFS :: fs where
  "versionFS = [([], Dir rootAttr), ([''d''], Dir rootAttr), ([''d'', oldTS], Dir rootAttr),
     ([''d'', oldTS, ''a''], File rootAttr ''A''), ([''d'', ''a''], Link ''..data/a''),
     ([''d'', ''..data''], Link oldTS)]"

definition sampleAW :: AtomicWriter where
  "sampleAW = \<lparr>targetDir = ''/d'', logContext = []\<rparr>"

definition fileOf :: "string \<Rightarrow> FileProjection" where
  "fileOf d = \<lparr>Data = d, Mode = 0x1A4, FsUser = None\<rparr>"

lemma sampleWorld_simps [simp]:
  "wfs (sampleWorld f) = f" "world_ok (sampleWorld f)" "goos (sampleWorld f) = ''linux''" "faultfree (sampleWorld f)"
  by (simp_all add: sampleWorld_def world_ok_def faultfree_def)

lemma sample_target [simp]:
  "nodots ''/d''" "pcomps ''/d'' = [''d'']" "targetDir sampleAW = ''/d''"
  by (simp_all add: nodots_def pcomps_def sampleAW_def)

lemma tsname_oldTS: "tsname oldTS"
  by (simp add: tsname_def oldTS_def is_digit_def)

lemma aw_inv_versionFS: "aw_inv [''d''] versionFS"
  using tsname_oldTS tsname_pname [OF tsname_oldTS]
  by (auto simp: aw_inv_def versionFS_def wf_fs_def isdir_def vis_def version_def pname_def unreserved_def
      hasPrefix_def dataDirName_def oldTS_def split: if_splits)

end
