(* ===== verification/Atomic_Writer_Facts.thy ===== *)
theory Atomic_Writer_Facts
  imports Atomic_Writer_Cleanup Samples
begin

text \<open>
  Atomicity of \<open>Write\<close>: for every schedule of failing system calls, in particular for a crash
  after any call, the data directory shows either the old version untouched or the new version
  complete, and the invariant of the target directory holds.
\<close>

section \<open>The two outcomes\<close>

text \<open>The data link and everything below the version it names are as before.\<close>

definition kept :: "fpath \<Rightarrow> fs \<Rightarrow> fs \<Rightarrow> bool" where
  "kept T f0 f \<longleftrightarrow> map_of f (T @ [dataDirName]) = map_of f0 (T @ [dataDirName]) \<and>
     (\<forall>ts q. map_of f0 (T @ [dataDirName]) = Some (Link ts) \<longrightarrow>
        map_of f (T @ [ts] @ q) = map_of f0 (T @ [ts] @ q))"

text \<open>
  The data link names a new version in which every file of the payload has its content and mode,
  except those a post-write function claims by name.
\<close>

definition published :: "fpath \<Rightarrow> fs \<Rightarrow> payload \<Rightarrow> string set \<Rightarrow> fs \<Rightarrow> bool" where
  "published T f0 payload N f \<longleftrightarrow> (\<exists>ts. map_of f (T @ [dataDirName]) = Some (Link ts) \<and>
     map_of f0 (T @ [ts]) = None \<and>
     (\<forall>k \<in> set (mkeys payload). (\<forall>n \<in> N. pcomps k \<noteq> [n]) \<longrightarrow>
        (\<exists>k0 \<in> set (mkeys payload). clean k0 = clean k \<and>
           file_ok f (T @ [ts] @ pcomps k) (pget payload k0))))"

text \<open>Everything inside the target directory; a write changes nothing else.\<close>

definition inside :: "fpath \<Rightarrow> fpath set" where
  "inside T = {T @ q | q. q \<noteq> []}"

section \<open>Before the switch\<close>

definition stageA :: "fpath \<Rightarrow> fs \<Rightarrow> fpath set" where
  "stageA T f0 = {T @ [ts] @ q | ts q. tsname ts \<and> map_of f0 (T @ [ts]) = None} \<union> unreserved_in T \<union>
     {T @ [newDataDirName]}"

definition safeA :: "fpath \<Rightarrow> fs \<Rightarrow> fs \<Rightarrow> bool" where
  "safeA T f0 f \<longleftrightarrow> framed f0 (stageA T f0) f \<and> vis T f"

lemma stageA_not [simp]:
  "T \<notin> stageA T f0" "T @ [dataDirName] \<notin> stageA T f0"
  by (auto simp: stageA_def dataDirName_def newDataDirName_def tsname_def is_digit_def unreserved_def hasPrefix_def)

lemma stageA_not_version: "tsname ts \<Longrightarrow> map_of f0 (T @ [ts]) \<noteq> None \<Longrightarrow> T @ [ts] @ q \<notin> stageA T f0"
  by (auto simp: stageA_def newDataDirName_def tsname_def is_digit_def unreserved_def hasPrefix_def)

lemma stageA_under: "tsname ts \<Longrightarrow> map_of f0 (T @ [ts]) = None \<Longrightarrow> under (T @ [ts]) \<subseteq> stageA T f0"
  by (auto simp: stageA_def prefix_def)

lemma version_framed:
  assumes "version T ts f" "framed f S g" "\<And>q. T @ [ts] @ q \<notin> S"
  shows "version T ts g"
  using assms(1) framed_at [OF assms(2) assms(3), of "[]"] framed_at [OF assms(2) assms(3), of "[_]"]
  by (simp add: version_def isdir_def)

lemma safeA_inv:
  assumes inv: "aw_inv T f0" and f: "safeA T f0 f"
  shows "aw_inv T f \<and> kept T f0 f"
proof -
  have fr: "framed f0 (stageA T f0) f" and v: "vis T f" using f by (auto simp: safeA_def)
  have data: "map_of f (T @ [dataDirName]) = map_of f0 (T @ [dataDirName])"
    using framed_at [OF fr] by simp
  have old: "version T ts f0" "\<And>q. T @ [ts] @ q \<notin> stageA T f0"
    if "map_of f0 (T @ [dataDirName]) = Some (Link ts)" for ts
  proof -
    show "version T ts f0" using that inv by (auto simp: aw_inv_def)
    then show "T @ [ts] @ q \<notin> stageA T f0" for q
      by (intro stageA_not_version) (auto simp: version_def isdir_def)
  qed
  have "kept T f0 f"
    using data old(2) framed_at [OF fr] by (auto simp: kept_def)
  moreover have "aw_inv T f"
    unfolding aw_inv_def
  proof (intro conjI allI impI)
    show "isdir f T" using framed_isdir [OF fr] inv by (simp add: aw_inv_def)
    fix x assume "map_of f (T @ [dataDirName]) = Some x"
    then obtain ts where ts: "x = Link ts" "map_of f0 (T @ [dataDirName]) = Some (Link ts)"
      using data inv by (auto simp: aw_inv_def)
    then show "\<exists>ts. x = Link ts \<and> version T ts f"
      using version_framed [OF old(1) fr old(2)] by blast
  qed (use v fr in \<open>auto simp: framed_def\<close>)
  ultimately show ?thesis by blast
qed

lemma safeA_refl: "aw_inv T f0 \<Longrightarrow> safeA T f0 f0"
  by (auto simp: safeA_def aw_inv_def framed_refl)

lemma safeA_step:
  assumes "safeA T f0 f1" "framed f1 S f" "S \<subseteq> stageA T f0" "vis T f"
  shows "safeA T f0 f"
  using assms framed_trans framed_mono unfolding safeA_def by blast

lemma safeA_under:
  assumes "safeA T f0 f1" "framed f1 (under (T @ [ts])) f" "tsname ts" "map_of f0 (T @ [ts]) = None"
  shows "safeA T f0 f"
proof (rule safeA_step [OF assms(1,2) stageA_under [OF assms(3,4)]])
  show "vis T f"
    by (rule vis_framed [OF _ assms(2)])
       (use assms in \<open>auto simp: safeA_def prefix_def dest: tsname_reserved\<close>)
qed

lemma new_ts_safeA:
  assumes "new_ts td f0 d f" "aw_inv (pcomps td) f0"
  shows "safeA (pcomps td) f0 f"
proof -
  obtain ts where ts: "tsname ts" "map_of f0 (pcomps td @ [ts]) = None" "framed f0 {pcomps td @ [ts]} f"
    using assms(1) by (auto simp: new_ts_def)
  have "framed f0 (under (pcomps td @ [ts])) f" using ts(3) by (rule framed_mono) auto
  then show ?thesis using safeA_under [OF safeA_refl [OF assms(2)]] ts by blast
qed

section \<open>After the switch\<close>

text \<open>The state right after the data link was renamed.\<close>

definition switched :: "fpath \<Rightarrow> fs \<Rightarrow> string \<Rightarrow> payload \<Rightarrow> string set \<Rightarrow> fs \<Rightarrow> bool" where
  "switched T f0 ts cp N f \<longleftrightarrow> wf_fs f \<and> isdir f T \<and> vis T f \<and> version T ts f \<and>
     map_of f0 (T @ [ts]) = None \<and> map_of f (T @ [dataDirName]) = Some (Link ts) \<and>
     only_changes (insert (T @ [dataDirName]) (stageA T f0)) f0 f \<and>
     (\<forall>k \<in> set (mkeys cp). (\<forall>n \<in> N. pcomps k \<noteq> [n]) \<longrightarrow> file_ok f (T @ [ts] @ pcomps k) (pget cp k))"

lemma file_ok_cong: "map_of f q = map_of g q \<Longrightarrow> file_ok f q fp = file_ok g q fp"
  by (simp add: file_ok_def)

text \<open>What a write that returns leaves behind.\<close>

definition succeeded :: "fpath \<Rightarrow> fs \<Rightarrow> payload \<Rightarrow> string set \<Rightarrow> fs \<Rightarrow> bool" where
  "succeeded T f0 payload N f \<longleftrightarrow> aw_inv T f \<and> framed f0 (inside T) f \<and> published T f0 payload N f"

lemma stageA_inside: "stageA T f0 \<subseteq> inside T"
  by (auto simp: stageA_def inside_def)

lemma cleaned_key:
  assumes cp: "cleaned payload cp" and k: "k \<in> set (mkeys payload)"
  shows "clean k \<in> set (mkeys cp)" "pcomps (clean k) = pcomps k"
proof -
  have "validatePath k = Inr ()" and ck: "clean k \<in> set (mkeys cp)"
    using cp k by (auto simp: cleaned_def)
  then show "pcomps (clean k) = pcomps k" using validatePath_nodots by simp
  show "clean k \<in> set (mkeys cp)" by (rule ck)
qed

text \<open>Every key of the payload that no directory function rewrites is a file of the published version.\<close>

lemma cleaned_files:
  assumes cp: "cleaned payload cp" and k: "k \<in> set (mkeys payload)"
    and ok: "file_ok f (D @ pcomps (clean k)) (pget cp (clean k))"
  shows "\<exists>k0 \<in> set (mkeys payload). clean k0 = clean k \<and> file_ok f (D @ pcomps k) (pget payload k0)"
proof -
  note ck = cleaned_key [OF cp k]
  obtain v where v: "mget cp (clean k) = Some v"
    using ck(1) by (metis (no_types, lifting) map_of_eq_None_iff not_Some_eq set_map)
  then obtain k0 where "k0 \<in> set (mkeys payload)" "clean k = clean k0" "v = pget payload k0"
    using cp unfolding cleaned_def by blast
  moreover have "file_ok f (D @ pcomps k) v" using ok v ck(2) by (simp add: pget_def)
  ultimately show ?thesis by metis
qed

lemma finished_outcome:
  assumes inv: "aw_inv T f0" and sw: "switched T f0 ts cp N f1" and fin: "finished T old f1 f"
    and old: "old = [] \<or> version T old f0" and cp: "cleaned payload cp"
  shows "succeeded T f0 payload N f"
proof -
  let ?S = "unreserved_in T \<union> (if old = [] then {} else under (T @ [old]))"
  have fr: "framed f1 ?S f" and v: "vis T f" using fin by (auto simp: finished_def)
  have ts: "tsname ts" "map_of f0 (T @ [ts]) = None" using sw by (auto simp: switched_def version_def)
  have neq: "ts \<noteq> old" using ts old by (auto simp: version_def isdir_def tsname_def)
  have keep: "T @ [ts] @ q \<notin> ?S" for q
    using neq tsname_reserved [OF ts(1)] by (auto simp: prefix_def)
  have dataS: "T @ [dataDirName] \<notin> ?S"
    using old by (auto simp: prefix_def version_def dest: unreserved_not_data tsname_not_data)
  have TS: "T \<notin> ?S" by (auto simp: prefix_def)
  have data: "map_of f (T @ [dataDirName]) = Some (Link ts)"
    using framed_at [OF fr dataS] sw by (simp add: switched_def)
  have ver: "version T ts f"
    using version_framed [OF _ fr keep] sw by (simp add: switched_def)
  have "aw_inv T f"
    unfolding aw_inv_def using data ver v fr framed_isdir [OF fr _ TS] sw
    by (auto simp: framed_def switched_def)
  moreover have "\<exists>k0 \<in> set (mkeys payload). clean k0 = clean k \<and> file_ok f (T @ [ts] @ pcomps k) (pget payload k0)"
    if k: "k \<in> set (mkeys payload)" "\<forall>n \<in> N. pcomps k \<noteq> [n]" for k
  proof -
    from cleaned_key [OF cp k(1)] sw k(2) have "file_ok f1 (T @ [ts] @ pcomps (clean k)) (pget cp (clean k))"
      unfolding switched_def by auto
    then have "file_ok f ((T @ [ts]) @ pcomps (clean k)) (pget cp (clean k))"
      using file_ok_cong [OF framed_at [OF fr keep]] by simp
    from cleaned_files [OF cp k(1) this] show ?thesis by simp
  qed
  moreover have "framed f0 (inside T) f"
  proof -
    have "T @ [dataDirName] \<in> inside T" "?S \<subseteq> inside T" by (auto simp: inside_def prefix_def)
    then have "framed f0 (inside T) f1" "framed f1 (inside T) f"
      using sw framed_mono [OF fr] only_changes_mono [of "insert (T @ [dataDirName]) (stageA T f0)" f0 f1 "inside T"]
        stageA_inside [of T f0] by (auto simp: switched_def framed_def)
    then show ?thesis by (rule framed_trans)
  qed
  ultimately show ?thesis
    using data ts(2) unfolding published_def succeeded_def by blast
qed

section \<open>The whole write\<close>

text \<open>What a write that fails leaves behind.\<close>

definition outcome :: "fpath \<Rightarrow> fs \<Rightarrow> payload \<Rightarrow> string set \<Rightarrow> fs \<Rightarrow> bool" where
  "outcome T f0 payload N f \<longleftrightarrow> aw_inv T f \<and> framed f0 (inside T) f \<and> (kept T f0 f \<or> published T f0 payload N f)"

lemma safeA_outcome: "aw_inv T f0 \<Longrightarrow> safeA T f0 f \<Longrightarrow> outcome T f0 payload N f"
  using safeA_inv framed_mono [OF _ stageA_inside] by (auto simp: outcome_def safeA_def)

lemma hoare_readOldTSDir:
  assumes td: "nodots td" "targetDir aw = td" "pcomps td = T" "td \<noteq> []" and inv: "aw_inv T f0"
  shows "hoare (on_fs w0 (\<lambda>f. f = f0)) (readOldTSDir aw)
    (\<lambda>old w. on_fs w0 (\<lambda>f. f = f0) w \<and> (old = [] \<or> version T old f0)) (\<lambda>_. on_fs w0 (\<lambda>f. f = f0))"
proof -
  let ?I = "on_fs w0 (\<lambda>f. f = f0)"
  have at: "resolve f0 False (fjoin td dataDirName) = Inr (T @ [dataDirName])"
    using td inv by (intro resolve_child) (auto simp: aw_inv_def nodots_name pcomps_name)
  have "hoare ?I (osReadlink (fjoin td dataDirName))
      (\<lambda>t. on_fs w0 (\<lambda>f. f = f0 \<and> version T t f0)) (\<lambda>_. ?I)"
    unfolding osReadlink_def
    by (rule hoare_pathcall)
       (use at inv in \<open>auto simp: k_readlink_def aw_inv_def split: option.splits node.splits\<close>)
  then show ?thesis
    unfolding readOldTSDir_def td(2)
    by (intro hoare_attempt [where R = "case_sum (\<lambda>_. ?I) (\<lambda>t. on_fs w0 (\<lambda>f. f = f0 \<and> version T t f0))"])
       (auto simp: hoare_def ret_def throw_def on_fs_def split: sum.splits prod.splits)
qed

text \<open>The new directory is filled: payload first, then the post-write functions.\<close>

lemma hoare_fillDir:
  assumes d: "new_ts td f0 d f1" and inv: "aw_inv (pcomps td) f0" and w0: "world_ok w0"
    and fs: "\<forall>F \<in> set dirFuncs. dirfunc N F" and keys: "keys_ok cp cp"
  shows "hoare (on_fs w0 (\<lambda>f. f = f1))
    (andThen (writePayloadToDir cp d) (\<lambda>_. runDirFuncs dirFuncs d cp))
    (\<lambda>cp' w. on_fs w0 (built f1 (pcomps d) cp N) w \<and> keys_ok cp cp')
    (\<lambda>_. on_fs w0 (framed f1 (under (pcomps d))))"
proof -
  from d have dd: "nodots d" "d \<noteq> []" by (auto simp: new_ts_def)
  have lay: "lay f1 (pcomps d) f1" using new_ts_lay [OF d] inv by (simp add: aw_inv_def)
  show ?thesis
  proof (rule hoare_andThen [where R = "\<lambda>_ w. on_fs w0 (built f1 (pcomps d) cp N) w \<and> keys_ok cp cp"])
    show "hoare (on_fs w0 (\<lambda>f. f = f1)) (writePayloadToDir cp d)
        (\<lambda>_ w. on_fs w0 (built f1 (pcomps d) cp N) w \<and> keys_ok cp cp)
        (\<lambda>_. on_fs w0 (framed f1 (under (pcomps d))))"
      by (rule hoare_weaken [OF hoare_writePayloadToDir [OF dd refl w0]])
         (use keys lay in \<open>auto simp: on_fs_def keys_ok_def built_def lay_def nolinks_tidy unlinked_def nolinks_def\<close>)
  next
    show "hoare (\<lambda>w. on_fs w0 (built f1 (pcomps d) cp N) w \<and> keys_ok cp cp) (runDirFuncs dirFuncs d cp)
        (\<lambda>cp' w. on_fs w0 (built f1 (pcomps d) cp N) w \<and> keys_ok cp cp')
        (\<lambda>_. on_fs w0 (framed f1 (under (pcomps d))))"
      by (rule hoare_runDirFuncs [OF w0 fs dd refl])
  qed
qed

text \<open>The new version is complete and the data link still names the old one.\<close>

definition ready :: "fpath \<Rightarrow> fs \<Rightarrow> string \<Rightarrow> payload \<Rightarrow> string set \<Rightarrow> fs \<Rightarrow> bool" where
  "ready T f0 ts cp N f \<longleftrightarrow> safeA T f0 f \<and> version T ts f \<and> map_of f0 (T @ [ts]) = None \<and>
     (\<forall>k \<in> set (mkeys cp). (\<forall>n \<in> N. pcomps k \<noteq> [n]) \<longrightarrow> file_ok f (T @ [ts] @ pcomps k) (pget cp k))"

lemma built_ready:
  assumes "new_ts td f0 d f1" "aw_inv (pcomps td) f0" "built f1 (pcomps d) cp N f"
  shows "ready (pcomps td) f0 (fbase d) cp N f"
proof -
  obtain ts where ts: "pcomps d = pcomps td @ [ts]" "tsname ts" "fbase d = ts" "map_of f0 (pcomps td @ [ts]) = None"
    using assms(1) by (auto simp: new_ts_def)
  have "safeA (pcomps td) f0 f"
    using safeA_under [OF new_ts_safeA [OF assms(1,2)] _ ts(2,4)] assms(3) ts(1) by (simp add: built_def)
  then show ?thesis
    using ts assms(3) by (simp add: ready_def built_def version_def)
qed

lemma ready_step:
  assumes "ready T f0 ts cp N f" "framed f S g" "\<And>q. T @ [ts] @ q \<notin> S" "S \<subseteq> stageA T f0" "vis T g"
  shows "ready T f0 ts cp N g"
proof -
  have "safeA T f0 f" "version T ts f" using assms(1) by (auto simp: ready_def)
  then have *: "safeA T f0 g" "version T ts g"
    using safeA_step [OF _ assms(2,4,5)] version_framed [OF _ assms(2,3)] by auto
  have "map_of g (T @ [ts] @ q) = map_of f (T @ [ts] @ q)" for q
    using framed_at [OF assms(2,3)] .
  then have "file_ok g (T @ [ts] @ q) fp = file_ok f (T @ [ts] @ q) fp" for q fp
    by (rule file_ok_cong)
  with * show ?thesis using assms(1) by (simp add: ready_def)
qed

lemma ready_relinked:
  assumes "ready T f0 ts cp N f" "relinked T f g"
  shows "ready T f0 ts cp N g"
proof (rule ready_step [OF assms(1)])
  show "framed f (unreserved_in T) g" "vis T g" using assms(2) by (auto simp: relinked_def)
  show "T @ [ts] @ q \<notin> unreserved_in T" for q
    using assms(1) tsname_reserved by (auto simp: ready_def version_def)
qed (auto simp: stageA_def)

lemma ready_switched:
  assumes "ready T f0 ts cp N f" "framed f {T @ [newDataDirName], T @ [dataDirName]} g" "aw_inv T f0"
    and "map_of g (T @ [dataDirName]) = Some (Link ts)"
  shows "switched T f0 ts cp N g"
proof -
  let ?S = "{T @ [newDataDirName], T @ [dataDirName]}"
  have ts: "tsname ts" using assms(1) by (simp add: ready_def version_def)
  then have out: "T @ [ts] @ q \<notin> ?S" for q by (auto dest: tsname_not_data)
  have "isdir f T" using assms(1) safeA_inv [OF assms(3), of f] by (simp add: ready_def aw_inv_def)
  then have "isdir g T" using framed_isdir [OF assms(2)] by simp
  moreover have "vis T g"
    by (rule vis_framed [OF _ assms(2)])
       (use assms(1) in \<open>auto simp: ready_def safeA_def dest: unreserved_not_data\<close>)
  moreover have "version T ts g"
    using version_framed [OF _ assms(2) out] assms(1) by (simp add: ready_def)
  moreover have "only_changes (insert (T @ [dataDirName]) (stageA T f0)) f0 g"
    using assms(1,2) by (auto simp: ready_def safeA_def framed_def only_changes_def stageA_def)
  moreover have "file_ok g (T @ [ts] @ q) fp = file_ok f (T @ [ts] @ q) fp" for q fp
    by (rule file_ok_cong [OF framed_at [OF assms(2) out]])
  ultimately show ?thesis
    using assms(1,2,4) by (simp add: switched_def ready_def framed_def)
qed

lemma switched_old:
  assumes "switched T f0 ts cp N f" "version T old f0"
  shows "version T old f"
proof -
  have old: "tsname old" "map_of f0 (T @ [old]) \<noteq> None" using assms(2) by (auto simp: version_def isdir_def)
  have "T @ [old] @ q \<notin> insert (T @ [dataDirName]) (stageA T f0)" for q
    using old stageA_not_version by (auto dest: tsname_not_data)
  then have "map_of f (T @ [old] @ q) = map_of f0 (T @ [old] @ q)" for q
    using assms(1) unfolding switched_def only_changes_def by blast
  from this [of "[]"] this [of "[_]"] show ?thesis
    using assms(2) by (simp add: version_def isdir_def)
qed

lemma hoare_switch_ready:
  assumes td: "nodots td" "targetDir aw = td" "pcomps td = T" "td \<noteq> []"
    and d: "pcomps d = T @ [ts]" "fbase d = ts" "tsname ts" and g: "goos w0 \<noteq> ''windows''" and inv: "aw_inv T f0"
  shows "hoare (on_fs w0 (ready T f0 ts cp N)) (switchDataDir aw d)
    (\<lambda>_. on_fs w0 (switched T f0 ts cp N)) (\<lambda>_. on_fs w0 (safeA T f0))"
proof (rule hoare_fix)
  fix f2 assume f2: "ready T f0 ts cp N f2"
  then have s: "safeA T f0 f2" "aw_inv T f2" and new: "map_of f0 (T @ [ts]) = None"
    using safeA_inv [OF inv] by (auto simp: ready_def)
  have err: "safeA T f0 f" if "framed f2 (insert (T @ [newDataDirName]) (under (T @ [ts]))) f" for f
  proof (rule safeA_step [OF s(1) that])
    show "insert (T @ [newDataDirName]) (under (T @ [ts])) \<subseteq> stageA T f0"
      using stageA_under [OF d(3) new] by (auto simp: stageA_def)
    show "vis T f"
      by (rule vis_framed [OF _ that])
         (use s(2) d(3) in \<open>auto simp: aw_inv_def prefix_def dest: tsname_reserved unreserved_not_data\<close>)
  qed
  show "hoare (on_fs w0 (\<lambda>g. g = f2)) (switchDataDir aw d)
    (\<lambda>_. on_fs w0 (switched T f0 ts cp N)) (\<lambda>_. on_fs w0 (safeA T f0))"
    by (rule hoare_weaken [OF hoare_switchDataDir [OF td d g]])
       (use s(2) err ready_switched [OF f2 _ inv] in \<open>auto simp: on_fs_def aw_inv_def\<close>)
qed

lemma hoare_finish_switched:
  assumes td: "nodots td" "targetDir aw = td" "pcomps td = T" "td \<noteq> []" and w0: "world_ok w0"
    and inv: "aw_inv T f0" and old: "old = [] \<or> version T old f0" and cp: "cleaned payload cp"
  shows "hoare (on_fs w0 (switched T f0 ts cp N)) (finishWrite aw cp' old)
    (\<lambda>_. on_fs w0 (succeeded T f0 payload N)) (\<lambda>_. on_fs w0 (outcome T f0 payload N))"
proof (rule hoare_fix)
  fix f2 assume f2: "switched T f0 ts cp N f2"
  then have *: "wf_fs f2" "isdir f2 T" "vis T f2" "old = [] \<or> version T old f2"
    using switched_old [OF f2] old by (auto simp: switched_def)
  show "hoare (on_fs w0 (\<lambda>g. g = f2)) (finishWrite aw cp' old)
    (\<lambda>_. on_fs w0 (succeeded T f0 payload N)) (\<lambda>_. on_fs w0 (outcome T f0 payload N))"
    by (rule hoare_weaken [OF hoare_finishWrite [OF td w0 *]])
       (use finished_outcome [OF inv f2 _ old cp] in \<open>auto simp: on_fs_def outcome_def succeeded_def\<close>)
qed

text \<open>From the new directory to the end of the write.\<close>

lemma hoare_publish:
  assumes td: "nodots td" "targetDir aw = td" "pcomps td = T" "td \<noteq> []" and w0: "world_ok w0"
    and g: "goos w0 \<noteq> ''windows''" and inv: "aw_inv T f0" and old: "old = [] \<or> version T old f0"
    and cp: "cleaned payload cp" and keys: "keys_ok cp cp'" and d: "new_ts td f0 d f1"
  shows "hoare (on_fs w0 (built f1 (pcomps d) cp N))
    (andThen (createUserVisibleFiles aw cp') (\<lambda>_. andThen (switchDataDir aw d) (\<lambda>_. finishWrite aw cp' old)))
    (\<lambda>_. on_fs w0 (succeeded T f0 payload N)) (\<lambda>_. on_fs w0 (outcome T f0 payload N))"
proof (rule hoare_fix)
  fix f2 assume "built f1 (pcomps d) cp N f2"
  then have f2: "ready T f0 (fbase d) cp N f2" using built_ready [OF d] inv td(3) by simp
  then have T: "isdir f2 T" "wf_fs f2" "vis T f2"
    using safeA_inv [OF inv, of f2] by (auto simp: ready_def aw_inv_def)
  have dd: "pcomps d = T @ [fbase d]" "tsname (fbase d)" using d td(3) by (auto simp: new_ts_def)
  have rel: "ready T f0 (fbase d) cp N f" "outcome T f0 payload N f" if "relinked T f2 f" for f
    using ready_relinked [OF f2 that] safeA_outcome [OF inv, of f] by (auto simp: ready_def)
  have vis: "hoare (on_fs w0 (\<lambda>g. g = f2)) (createUserVisibleFiles aw cp')
      (\<lambda>_. on_fs w0 (ready T f0 (fbase d) cp N)) (\<lambda>_. on_fs w0 (outcome T f0 payload N))"
    by (rule hoare_weaken [OF stays_createUserVisibleFiles [OF td T(1) w0, unfolded stays_def]])
       (use keys rel T in \<open>auto simp: on_fs_def keys_ok_def relinked_def framed_refl\<close>)
  have sw: "hoare (on_fs w0 (ready T f0 (fbase d) cp N)) (switchDataDir aw d)
      (\<lambda>_. on_fs w0 (switched T f0 (fbase d) cp N)) (\<lambda>_. on_fs w0 (outcome T f0 payload N))"
    by (rule hoare_weaken [OF hoare_switch_ready [OF td dd(1) refl dd(2) g inv]])
       (use safeA_outcome [OF inv] in \<open>auto simp: on_fs_def\<close>)
  show "hoare (on_fs w0 (\<lambda>g. g = f2))
    (andThen (createUserVisibleFiles aw cp') (\<lambda>_. andThen (switchDataDir aw d) (\<lambda>_. finishWrite aw cp' old)))
    (\<lambda>_. on_fs w0 (succeeded T f0 payload N)) (\<lambda>_. on_fs w0 (outcome T f0 payload N))"
    by (rule hoare_andThen [OF vis], rule hoare_andThen [OF sw],
        rule hoare_finish_switched [OF td w0 inv old cp])
qed

lemma cleaned_keys_ok:
  assumes "cleaned payload cp" "\<forall>k \<in> set (mkeys payload). safe_key k"
  shows "keys_ok cp cp"
proof -
  have "key_ok k" if "k \<in> set (mkeys cp)" for k
  proof -
    have "mget cp k \<noteq> None" using that by (metis map_of_eq_None_iff list.set_map)
    then obtain k0 where "k0 \<in> set (mkeys payload)" "validatePath k0 = Inr ()" "k = clean k0"
      using assms(1) unfolding cleaned_def by blast
    with assms(2) show ?thesis using key_ok_clean by blast
  qed
  with assms(1) show ?thesis by (auto simp: keys_ok_def cleaned_def)
qed

lemma hoare_Write_new:
  assumes td: "nodots td" "targetDir aw = td" "pcomps td = T" "td \<noteq> []" and w0: "world_ok w0"
    and g: "goos w0 \<noteq> ''windows''" and inv: "aw_inv T f0" and old: "old = [] \<or> version T old f0"
    and cp: "cleaned payload cp" and keys: "keys_ok cp cp" and fs: "\<forall>F \<in> set dirFuncs. dirfunc N F"
  shows "hoare (on_fs w0 (new_ts td f0 d))
    (andThen (writePayloadToDir cp d) (\<lambda>_. andThen (runDirFuncs dirFuncs d cp) (\<lambda>cp'.
       andThen (createUserVisibleFiles aw cp') (\<lambda>_. andThen (switchDataDir aw d) (\<lambda>_. finishWrite aw cp' old)))))
    (\<lambda>_. on_fs w0 (succeeded T f0 payload N)) (\<lambda>_. on_fs w0 (outcome T f0 payload N))"
  unfolding andThen_assoc [symmetric, of "writePayloadToDir cp d"]
proof (rule hoare_fix)
  fix f1 assume f1: "new_ts td f0 d f1"
  have err: "outcome T f0 payload N f" if "framed f1 (under (pcomps d)) f" for f
    using that f1 safeA_under [OF new_ts_safeA [OF f1]] inv td(3) safeA_outcome [OF inv]
    by (auto simp: new_ts_def)
  have fill: "hoare (on_fs w0 (\<lambda>f. f = f1)) (andThen (writePayloadToDir cp d) (\<lambda>_. runDirFuncs dirFuncs d cp))
      (\<lambda>cp' w. on_fs w0 (built f1 (pcomps d) cp N) w \<and> keys_ok cp cp') (\<lambda>_. on_fs w0 (outcome T f0 payload N))"
    by (rule hoare_weaken [OF hoare_fillDir [OF f1 _ w0 fs keys]]) (use err inv td(3) in \<open>auto simp: on_fs_def\<close>)
  show "hoare (on_fs w0 (\<lambda>f. f = f1)) (andThen (andThen (writePayloadToDir cp d) (\<lambda>_. runDirFuncs dirFuncs d cp))
      (\<lambda>cp'. andThen (createUserVisibleFiles aw cp') (\<lambda>_. andThen (switchDataDir aw d) (\<lambda>_. finishWrite aw cp' old))))
      (\<lambda>_. on_fs w0 (succeeded T f0 payload N)) (\<lambda>_. on_fs w0 (outcome T f0 payload N))"
    by (rule hoare_andThen [OF fill], rule hoare_assume, rule hoare_publish [OF td w0 g inv old cp _ f1])
qed

lemma hoare_Write:
  assumes td: "nodots td" "targetDir aw = td" "pcomps td = T" "td \<noteq> []" and w0: "world_ok w0"
    and g: "goos w0 \<noteq> ''windows''" and inv: "aw_inv T f0"
    and safe: "\<forall>k \<in> set (mkeys payload). safe_key k" and fs: "\<forall>F \<in> set dirFuncs. dirfunc N F"
  shows "hoare (on_fs w0 (\<lambda>f. f = f0)) (Write aw payload dirFuncs)
    (\<lambda>_. on_fs w0 (succeeded T f0 payload N)) (\<lambda>_. on_fs w0 (outcome T f0 payload N))"
proof -
  let ?I = "on_fs w0 (\<lambda>f. f = f0)" and ?E = "\<lambda>_::goerr. on_fs w0 (outcome T f0 payload N)"
  have start: "outcome T f0 payload N f0" by (rule safeA_outcome [OF inv safeA_refl [OF inv]])
  have val: "hoare ?I (validatePayload payload) (\<lambda>cp w. ?I w \<and> cleaned payload cp) ?E"
    by (rule hoare_weaken [OF hoare_validatePayload [OF w0, of "\<lambda>f. f = f0"]]) (use start in \<open>auto simp: on_fs_def\<close>)
  have rd: "hoare ?I (readOldTSDir aw) (\<lambda>old w. ?I w \<and> (old = [] \<or> version T old f0)) ?E"
    by (rule hoare_weaken [OF hoare_readOldTSDir [OF td inv]]) (use start in \<open>auto simp: on_fs_def\<close>)
  have tsd: "hoare ?I (newTimestampDir aw) (\<lambda>d. on_fs w0 (new_ts td f0 d)) ?E"
    by (rule hoare_weaken [OF hoare_newTimestampDir [OF td(1,4) _ _ td(2), of f0]])
       (use start inv td(3) safeA_outcome [OF inv] new_ts_safeA [of td f0] in \<open>auto simp: on_fs_def aw_inv_def\<close>)
  show ?thesis
    unfolding Write_def
    by (rule hoare_andThen [OF val], rule hoare_assume, rule hoare_andThen [OF rd], rule hoare_assume,
        rule hoare_andThen [OF tsd], rule hoare_Write_new [OF td w0 g inv _ _ cleaned_keys_ok fs])
       (use safe in auto)
qed

section \<open>Properties\<close>

text \<open>
  C1. A write is atomic. Whatever system calls fail, and so also after a crash at any call, the
  target directory satisfies its invariant, and the data link either names the old version, untouched,
  or a new version in which every file of the payload is complete. Nothing outside the target
  directory changes. When \<open>Write\<close> returns without error it is the new version.
\<close>

theorem Write_atomic:
  assumes "aw_inv (pcomps (targetDir aw)) (wfs w)" "nodots (targetDir aw)" "targetDir aw \<noteq> []"
    and "world_ok w" "goos w \<noteq> ''windows''"
    and "\<forall>k \<in> set (mkeys payload). safe_key k" "\<forall>F \<in> set dirFuncs. dirfunc N F"
  defines "r \<equiv> Write aw payload dirFuncs w"
  shows "aw_inv (pcomps (targetDir aw)) (wfs (snd r)) \<and>
    (kept (pcomps (targetDir aw)) (wfs w) (wfs (snd r)) \<or>
     published (pcomps (targetDir aw)) (wfs w) payload N (wfs (snd r))) \<and>
    only_changes (inside (pcomps (targetDir aw))) (wfs w) (wfs (snd r)) \<and>
    (fst r = Inr () \<longrightarrow> published (pcomps (targetDir aw)) (wfs w) payload N (wfs (snd r)))"
proof -
  note h = hoare_Write [OF assms(2) refl refl assms(3,4,5,1,6,7)]
  have start: "on_fs w (\<lambda>f. f = wfs w) w" by (simp add: on_fs_start)
  obtain v w' where r: "r = (v, w')" by fastforce
  then have "Write aw payload dirFuncs w = (v, w')" by (simp add: r_def)
  then have *: "case v of Inl e \<Rightarrow> on_fs w (outcome (pcomps (targetDir aw)) (wfs w) payload N) w'
      | Inr _ \<Rightarrow> on_fs w (succeeded (pcomps (targetDir aw)) (wfs w) payload N) w'"
    by (cases v) (auto dest: hoareD_ok [OF h start] hoareD_err [OF h start])
  then show ?thesis using r by (cases v) (auto simp: on_fs_def outcome_def succeeded_def framed_def)
qed

theorem Write_atomic_witness:
  "published [''d''] versionFS [(''a'', fileOf ''B'')] {}
     (wfs (snd (Write sampleAW [(''a'', fileOf ''B'')] [] (sampleWorld versionFS))))"
proof -
  have "fst (Write sampleAW [(''a'', fileOf ''B'')] [] (sampleWorld versionFS)) = Inr ()" by code_simp
  moreover have "safe_key ''a''" by (simp add: safe_key_def pcomps_def unreserved_def hasPrefix_def)
  ultimately show ?thesis
    using Write_atomic [of sampleAW "sampleWorld versionFS" "[(''a'', fileOf ''B'')]" "[]" "{}"] aw_inv_versionFS
    by simp
qed

end
