(* ===== verification/Atomic_Writer_Limits.thy ===== *)
theory Atomic_Writer_Limits
  imports Atomic_Writer_Facts
begin

text \<open>
  Which paths the atomic writer accepts, and states of the target directory in which it cannot make progress.
\<close>

section \<open>Paths\<close>

lemma validateItems_ok: "validateItems items = Inr () \<longleftrightarrow> (\<forall>i \<in> set items. i \<noteq> ''..'' \<and> length i \<le> maxFileNameLength)"
  by (induction items) auto

text \<open>
  C27. The paths that \<open>validatePath\<close> accepts, exactly: not empty, relative, at most 4096 bytes long, no component
  \<^verbatim>\<open>..\<close> or longer than 255 bytes, and a first component that does not start with two dots.
\<close>

theorem validatePath_accepts:
  "validatePath p = Inr () \<longleftrightarrow> p \<noteq> [] \<and> \<not> isAbs p \<and> length p \<le> 4096 \<and>
     (\<forall>i \<in> set (splitc sep p). i \<noteq> ''..'' \<and> length i \<le> 255) \<and> \<not> hasPrefix (hd (splitc sep p)) ''..''"
proof -
  have "i = ''..''" if "hasPrefix i ''..''" "length i \<le> 2" for i using that by (auto simp: hasPrefix_def)
  moreover have "hd (splitc sep p) \<in> set (splitc sep p)" if "p \<noteq> []" for p using that by (cases "splitc sep p") auto
  ultimately have "\<not> (hasPrefix (hd (splitc sep p)) ''..'' \<and> length (hd (splitc sep p)) > 2) \<longleftrightarrow> \<not> hasPrefix (hd (splitc sep p)) ''..''"
    if "p \<noteq> []" "validateItems (splitc sep p) = Inr ()"
    using that unfolding validateItems_ok by (meson not_le)
  then show ?thesis
    using validateItems_ok [of "splitc sep p"]
    by (cases "validateItems (splitc sep p)")
      (auto simp: validatePath_def Let_def maxPathLength_def maxFileNameLength_def split: sum.splits)
qed

theorem validatePath_accepts_witness:
  "validatePath ''a/b'' = Inr () \<and> validatePath ''a/../b'' \<noteq> Inr () \<and> validatePath ''..data/b'' \<noteq> Inr ()"
proof -
  have "splitc sep ''a/b'' = [''a'', ''b'']" "splitc sep ''a/../b'' = [''a'', ''..'', ''b'']" "splitc sep ''..data/b'' = [''..data'', ''b'']"
    by code_simp+
  then show ?thesis
    using validatePath_accepts [of "''a/b''"] validatePath_accepts [of "''a/../b''"] validatePath_accepts [of "''..data/b''"]
    by (simp add: isAbs_def hasPrefix_def)
qed

text \<open>
  The check looks at the path before it is cleaned. A path that begins with \<^verbatim>\<open>./\<close> passes although the path
  that is used then names the data link itself.
\<close>

theorem validatePath_misses_data_link:
  "validatePath ''./..data'' = Inr () \<and> clean ''./..data'' = dataDirName \<and> validatePath dataDirName \<noteq> Inr ()"
  by code_simp

section \<open>A stale temporary link\<close>

definition stuck :: "fpath \<Rightarrow> fs \<Rightarrow> fs \<Rightarrow> bool" where
  "stuck T f0 f \<longleftrightarrow> framed f0 {q. q \<noteq> T \<and> q \<noteq> T @ [dataDirName] \<and> q \<noteq> T @ [newDataDirName]} f"

lemma stuck_step:
  assumes "stuck T f0 f" "framed f S g" "T \<notin> S" "T @ [dataDirName] \<notin> S" "T @ [newDataDirName] \<notin> S"
  shows "stuck T f0 g"
proof -
  have "S \<subseteq> {q. q \<noteq> T \<and> q \<noteq> T @ [dataDirName] \<and> q \<noteq> T @ [newDataDirName]}" using assms(3-5) by auto
  then show ?thesis using assms(1) framed_mono [OF assms(2)] framed_trans unfolding stuck_def by blast
qed

lemma tsname_not_stuck: "tsname ts \<Longrightarrow> T \<notin> under (T @ [ts]) \<and> T @ [dataDirName] \<notin> under (T @ [ts]) \<and> T @ [newDataDirName] \<notin> under (T @ [ts])"
  by (auto simp: prefix_def newDataDirName_def dataDirName_def tsname_def is_digit_def)

lemma hoare_switch_stuck:
  assumes td: "nodots td" "targetDir aw = td" "pcomps td = T" "td \<noteq> []"
    and d: "pcomps d = T @ [ts]" "fbase d = ts" "tsname ts"
    and f1: "wf_fs f1" "isdir f1 T" "map_of f1 (T @ [newDataDirName]) \<noteq> None"
  shows "hoare (on_fs w0 (\<lambda>f. f = f1)) (switchDataDir aw d) (\<lambda>_ _. False) (\<lambda>_. on_fs w0 (framed f1 (under (T @ [ts]))))"
proof -
  let ?I = "on_fs w0 (framed f1 (under (T @ [ts])))" and ?tmp = "fjoin td newDataDirName"
  have tmp: "resolve f1 False ?tmp = Inr (T @ [newDataDirName])"
    using f1 td by (auto intro!: resolve_child simp: nodots_name pcomps_name)
  have link: "hoare (on_fs w0 (\<lambda>f. f = f1)) (osSymlink ts ?tmp) (\<lambda>_ _. False) (\<lambda>_. ?I)"
  proof -
    have "hoare (on_fs w0 (\<lambda>f. f = f1)) (osSymlink ts ?tmp) (\<lambda>_. on_fs w0 (\<lambda>_. False)) (\<lambda>_. ?I)"
      unfolding osSymlink_def
      by (rule hoare_pathcall) (use f1 tmp in \<open>auto simp: k_create_def framed_refl split: option.splits\<close>)
    then show ?thesis by (rule hoare_weaken) (auto simp: on_fs_def)
  qed
  have at: "resolve f False d = Inr (T @ [ts])" if "framed f1 (under (T @ [ts])) f" for f
    using framed_isdir [OF that f1(2)] tsname_not_stuck [OF d(3)] that d tsname_pname
    by (intro resolve_child) (auto simp: framed_def)
  have rm: "stays w0 (framed f1 (under (T @ [ts]))) (osRemoveAll d)"
    by (rule stays_osRemoveAll) (use at in auto)
  have clean: "hoare ?I (andThen (ignoring (osRemoveAll d)) (\<lambda>_. throw e)) (\<lambda>_ _. False) (\<lambda>_. ?I)" for e
    by (rule hoare_andThen [where R = "\<lambda>_. ?I"])
       (use stays_ignoring [OF rm] in \<open>auto simp: stays_def hoare_def throw_def split: prod.splits sum.splits\<close>)
  have all: "hoare (case_sum (\<lambda>_. ?I) (\<lambda>_ _. False) r) (case_sum (\<lambda>e. andThen (ignoring (osRemoveAll d)) (\<lambda>_. throw e)) k r)
      (\<lambda>_ _. False) (\<lambda>_. ?I)" for r :: "goerr + unit" and k
  proof (cases r)
    case (Inl e)
    then show ?thesis using clean [of e] by simp
  qed (simp add: hoare_def)
  show ?thesis
    unfolding switchDataDir_def Let_def td(2) d(2)
    by (rule hoare_attempt [where R = "case_sum (\<lambda>_. ?I) (\<lambda>_ _. False)"]) (use link all in auto)
qed

lemma hoare_publish_stuck:
  assumes td: "nodots td" "targetDir aw = td" "pcomps td = T" "td \<noteq> []" and w0: "world_ok w0"
    and keys: "keys_ok cp cp'" and d: "pcomps d = T @ [ts]" "fbase d = ts" "tsname ts"
    and f2: "stuck T f0 f2" "wf_fs f2" "isdir f2 T" "vis T f2" and old: "map_of f0 (T @ [newDataDirName]) \<noteq> None"
  shows "hoare (on_fs w0 (\<lambda>f. f = f2)) (andThen (createUserVisibleFiles aw cp') (\<lambda>_. andThen (switchDataDir aw d) k))
    (\<lambda>_ _. False) (\<lambda>_. on_fs w0 (stuck T f0))"
proof -
  let ?J = "\<lambda>f. stuck T f0 f \<and> wf_fs f \<and> isdir f T"
  have un: "T \<notin> unreserved_in T" "T @ [dataDirName] \<notin> unreserved_in T" "T @ [newDataDirName] \<notin> unreserved_in T"
    by (auto simp: dataDirName_def newDataDirName_def unreserved_def hasPrefix_def)
  have rel: "?J f" if "relinked T f2 f" for f
    using that stuck_step [OF f2(1) _ un, of f] framed_isdir [OF _ f2(3)] un(1) by (auto simp: relinked_def framed_def)
  have vis: "hoare (on_fs w0 (\<lambda>f. f = f2)) (createUserVisibleFiles aw cp') (\<lambda>_. on_fs w0 ?J) (\<lambda>_. on_fs w0 (stuck T f0))"
    by (rule hoare_weaken [OF stays_createUserVisibleFiles [OF td f2(3) w0, unfolded stays_def]])
       (use keys rel f2 in \<open>auto simp: on_fs_def keys_ok_def relinked_def framed_refl\<close>)
  have sw: "hoare (on_fs w0 ?J) (switchDataDir aw d) (\<lambda>_ _. False) (\<lambda>_. on_fs w0 (stuck T f0))"
  proof (rule hoare_fix)
    fix f3 assume f3: "?J f3"
    then have "map_of f3 (T @ [newDataDirName]) \<noteq> None" using old by (auto simp: stuck_def framed_def only_changes_def)
    with f3 show "hoare (on_fs w0 (\<lambda>f. f = f3)) (switchDataDir aw d) (\<lambda>_ _. False) (\<lambda>_. on_fs w0 (stuck T f0))"
      using tsname_not_stuck [OF d(3), of T]
      by (intro hoare_weaken [OF hoare_switch_stuck [OF td d]]) (auto simp: on_fs_def intro: stuck_step)
  qed
  show ?thesis
    by (rule hoare_andThen [OF vis], rule hoare_andThen [OF sw]) (simp add: hoare_def)
qed

lemma hoare_Write_stuck:
  assumes td: "nodots td" "targetDir aw = td" "pcomps td = T" "td \<noteq> []" and w0: "world_ok w0" and inv: "aw_inv T f0"
    and safe: "\<forall>k \<in> set (mkeys payload). safe_key k" and fs: "\<forall>F \<in> set dirFuncs. dirfunc N F"
    and old: "map_of f0 (T @ [newDataDirName]) \<noteq> None"
  shows "hoare (on_fs w0 (\<lambda>f. f = f0)) (Write aw payload dirFuncs) (\<lambda>_ _. False) (\<lambda>_. on_fs w0 (stuck T f0))"
proof -
  let ?I = "on_fs w0 (\<lambda>f. f = f0)" and ?E = "\<lambda>_::goerr. on_fs w0 (stuck T f0)"
  have start: "stuck T f0 f0" using inv by (simp add: stuck_def framed_refl aw_inv_def)
  have new: "stuck T f0 f" if "new_ts td f0 d f" for d f
    using that stuck_step [OF start, of "{T @ [_]}" f] td(3) by (auto simp: new_ts_def newDataDirName_def dataDirName_def tsname_def is_digit_def)
  have val: "hoare ?I (validatePayload payload) (\<lambda>cp w. ?I w \<and> cleaned payload cp) ?E"
    by (rule hoare_weaken [OF hoare_validatePayload [OF w0, of "\<lambda>f. f = f0"]]) (use start in \<open>auto simp: on_fs_def\<close>)
  have rd: "hoare ?I (readOldTSDir aw) (\<lambda>old w. ?I w) ?E"
    by (rule hoare_weaken [OF hoare_readOldTSDir [OF td inv]]) (use start in \<open>auto simp: on_fs_def\<close>)
  have tsd: "hoare ?I (newTimestampDir aw) (\<lambda>d. on_fs w0 (new_ts td f0 d)) ?E"
    by (rule hoare_weaken [OF hoare_newTimestampDir [OF td(1,4) _ _ td(2), of f0]])
       (use start inv td(3) new in \<open>auto simp: on_fs_def aw_inv_def\<close>)
  have rest: "hoare (on_fs w0 (new_ts td f0 d)) (andThen (writePayloadToDir cp d) (\<lambda>_. andThen (runDirFuncs dirFuncs d cp) (\<lambda>cp'.
       andThen (createUserVisibleFiles aw cp') (\<lambda>_. andThen (switchDataDir aw d) (k cp'))))) (\<lambda>_ _. False) ?E"
    if keys: "keys_ok cp cp" for d cp k
    unfolding andThen_assoc [symmetric, of "writePayloadToDir cp d"]
  proof (rule hoare_fix)
    fix f1 assume f1: "new_ts td f0 d f1"
    then obtain ts where ts: "pcomps d = T @ [ts]" "fbase d = ts" "tsname ts" using td(3) by (auto simp: new_ts_def)
    have st: "stuck T f0 f" if "framed f1 (under (pcomps d)) f" for f
      using stuck_step [OF new [OF f1] that] tsname_not_stuck [OF ts(3)] ts(1) by simp
    have fill: "hoare (on_fs w0 (\<lambda>f. f = f1)) (andThen (writePayloadToDir cp d) (\<lambda>_. runDirFuncs dirFuncs d cp))
        (\<lambda>cp' w. on_fs w0 (built f1 (pcomps d) cp N) w \<and> keys_ok cp cp') ?E"
      by (rule hoare_weaken [OF hoare_fillDir [OF f1 _ w0 fs keys]]) (use st inv td(3) in \<open>auto simp: on_fs_def\<close>)
    show "hoare (on_fs w0 (\<lambda>f. f = f1)) (andThen (andThen (writePayloadToDir cp d) (\<lambda>_. runDirFuncs dirFuncs d cp)) (\<lambda>cp'.
       andThen (createUserVisibleFiles aw cp') (\<lambda>_. andThen (switchDataDir aw d) (k cp')))) (\<lambda>_ _. False) ?E"
    proof (rule hoare_andThen [OF fill], rule hoare_assume, rule hoare_fix)
      fix cp' f2 assume keys': "keys_ok cp cp'" and f2: "built f1 (pcomps d) cp N f2"
      have s: "stuck T f0 f2" "safeA T f0 f2"
        using f2 st safeA_under [OF new_ts_safeA [OF f1], of ts f2] f1 td(3) inv ts by (auto simp: built_def new_ts_def)
      then have "wf_fs f2" "isdir f2 T" "vis T f2" using safeA_inv [OF inv] by (auto simp: aw_inv_def)
      then show "hoare (on_fs w0 (\<lambda>f. f = f2)) (andThen (createUserVisibleFiles aw cp') (\<lambda>_. andThen (switchDataDir aw d) (k cp'))) (\<lambda>_ _. False) ?E"
        by (intro hoare_publish_stuck [OF td w0 keys' ts s(1) _ _ _ old])
    qed
  qed
  show ?thesis
    unfolding Write_def
    by (rule hoare_andThen [OF val], rule hoare_assume, rule hoare_andThen [OF rd],
        rule hoare_andThen [OF tsd], rule rest [OF cleaned_keys_ok]) (use safe in auto)
qed

text \<open>
  C26. The writer does not recover from a temporary data link that an interrupted write left behind: while an entry
  \<^verbatim>\<open>..data_tmp\<close> is in the target directory, every write fails, whatever its payload, and leaves both that
  entry and the data link as they are. So all later writes fail as well.
\<close>

theorem Write_stuck_on_stale_link:
  assumes "aw_inv (pcomps (targetDir aw)) (wfs w)" "nodots (targetDir aw)" "targetDir aw \<noteq> []" "world_ok w"
    and "\<forall>k \<in> set (mkeys payload). safe_key k" "\<forall>F \<in> set dirFuncs. dirfunc N F"
    and "map_of (wfs w) (pcomps (targetDir aw) @ [newDataDirName]) = Some x"
  shows "\<exists>err w'. Write aw payload dirFuncs w = (Inl err, w') \<and>
    map_of (wfs w') (pcomps (targetDir aw) @ [newDataDirName]) = Some x \<and>
    map_of (wfs w') (pcomps (targetDir aw) @ [dataDirName]) = map_of (wfs w) (pcomps (targetDir aw) @ [dataDirName])"
proof -
  note h = hoare_Write_stuck [OF assms(2) refl refl assms(3,4,1,5,6)]
  have start: "on_fs w (\<lambda>f. f = wfs w) w" by (simp add: on_fs_start)
  obtain r w' where r: "Write aw payload dirFuncs w = (r, w')" by fastforce
  then have "\<exists>err. r = Inl err" "on_fs w (stuck (pcomps (targetDir aw)) (wfs w)) w'"
    using hoareD_ok [OF h, of w] hoareD_err [OF h, of w] start assms(7) by (cases r; auto)+
  with r assms(7) show ?thesis by (auto simp: on_fs_def stuck_def framed_def only_changes_def)
qed

definition staleFS :: fs where
  "staleFS = ([''d'', ''..data_tmp''], Link oldTS) # versionFS"

lemma aw_inv_staleFS: "aw_inv [''d''] staleFS"
  using tsname_oldTS tsname_pname [OF tsname_oldTS]
  by (auto simp: aw_inv_def staleFS_def versionFS_def wf_fs_def isdir_def vis_def version_def pname_def unreserved_def
      hasPrefix_def dataDirName_def oldTS_def split: if_splits)

theorem Write_stuck_on_stale_link_witness:
  "\<exists>err w'. Write sampleAW [(''a'', fileOf ''B'')] [] (sampleWorld staleFS) = (Inl err, w') \<and>
     map_of (wfs w') [''d'', ''..data''] = Some (Link oldTS)"
proof -
  have "safe_key ''a''" by (simp add: safe_key_def pcomps_def unreserved_def hasPrefix_def)
  then show ?thesis
    using Write_stuck_on_stale_link [of sampleAW "sampleWorld staleFS" "[(''a'', fileOf ''B'')]" "[]" "{}" "Link oldTS"] aw_inv_staleFS
    by (auto simp: staleFS_def versionFS_def newDataDirName_def dataDirName_def oldTS_def)
qed

end
