(* ===== verification/Linux_TLS.thy ===== *)
theory Linux_TLS
  imports Atomic_Writer_Publish Samples
begin

text \<open>
  Model of \<^verbatim>\<open>pkg/linuxtls\<close>: the functions that run in the new timestamped directory before it is
  published. \<open>CreateCABundle\<close> concatenates the certificates into \<^verbatim>\<open>ca-certificates.crt\<close>;
  \<open>OpenSSLRehash\<close> runs the external command \<^verbatim>\<open>openssl rehash\<close>, a parameter, and reports the new
  names. Both satisfy the contract \<open>dirfunc\<close> of the atomic writer.
\<close>

section \<open>fs.WalkDir over os.DirFS("/")\<close>

datatype walkAct = Continue | SkipDir

text \<open>A \<^verbatim>\<open>fs.WalkDirFunc\<close>: path, entry (\<^verbatim>\<open>nil\<close> when the root cannot be read), error handed in.\<close>

type_synonym walkFn = "string \<Rightarrow> node option \<Rightarrow> goerr option \<Rightarrow> walkAct os"

definition k_readdirents :: "fs \<Rightarrow> fpath \<Rightarrow> errno + (string \<times> node) list \<times> fs" where
  "k_readdirents f r =
     (case k_readdir f r of
        Inl e \<Rightarrow> Inl e
      | Inr (names, f') \<Rightarrow>
          Inr (List.map_filter (\<lambda>c. map_option (Pair c) (map_of f (r @ [c]))) names, f'))"

definition dirfsReadDirents :: "string \<Rightarrow> (string \<times> node) list os" where
  "dirfsReadDirents p =
     (if validFSPath p then pathcall True (sep # p) k_readdirents else throw (Sys EINVAL))"

fun is_Dir :: "node \<Rightarrow> bool" where
  "is_Dir (Dir _) = True"
| "is_Dir _ = False"

text \<open>The first argument bounds the depth of the recursion (see \<open>fsWalkDir\<close>).\<close>

fun walkDir :: "nat \<Rightarrow> walkFn \<Rightarrow> string \<Rightarrow> node \<Rightarrow> walkAct os"
  and walkEntries :: "nat \<Rightarrow> walkFn \<Rightarrow> string \<Rightarrow> (string \<times> node) list \<Rightarrow> walkAct os" where
  "walkDir 0 fn name d = ret Continue"
| "walkDir (Suc n) fn name d =
     andThen (fn name (Some d) None) (\<lambda>act.
       if \<not> is_Dir d then ret act
       else if act = SkipDir then ret Continue
       else attempt (dirfsReadDirents name) (\<lambda>r. case r of
           Inl e \<Rightarrow> andThen (fn name (Some d) (Some e)) (\<lambda>_. ret Continue)
         | Inr ents \<Rightarrow> walkEntries n fn name ents))"
| "walkEntries n fn name [] = ret Continue"
| "walkEntries n fn name ((c, d) # ents) =
     andThen (walkDir n fn (fjoin name c) d) (\<lambda>act.
       if act = SkipDir then ret Continue else walkEntries n fn name ents)"

definition fsWalkDir :: "string \<Rightarrow> walkFn \<Rightarrow> unit os" where
  "fsWalkDir root fn =
     attempt (dirfsOpen root) (\<lambda>r. case r of
         Inl e \<Rightarrow> andThen (fn root None (Some e)) (\<lambda>_. ret ())
       | Inr info \<Rightarrow> (\<lambda>w. andThen (walkDir (Suc (fsdepth (wfs w))) fn root info) (\<lambda>_. ret ()) w))"

section \<open>CreateCABundle\<close>

definition bundleName :: string where
  "bundleName = ''ca-certificates.crt''"

definition blankLine :: string where
  "blankLine = [CHR 0x0A, CHR 0x0A]"

text \<open>
  The visitor of the walk. The errors of opening, reading and copying a certificate are stored in
  \<^verbatim>\<open>innerErr\<close> while the code tests the outer \<^verbatim>\<open>err\<close>, which is \<^verbatim>\<open>nil\<close> there: they are dropped.
\<close>

definition bundleVisitor :: "string \<Rightarrow> string \<Rightarrow> walkFn" where
  "bundleVisitor bundleFilepath dir path d err =
     (case err of
        Some e \<Rightarrow> throw e
      | None \<Rightarrow>
          if case d of Some n \<Rightarrow> is_Dir n | None \<Rightarrow> False
          then ret (if path = dir then Continue else SkipDir)
          else if fbase path = bundleName then ret Continue
          else attempt (osReadFile path) (\<lambda>r.
            andThen (case r of
                Inr content \<Rightarrow> ignoring (osAppend bundleFilepath content)
              | Inl _ \<Rightarrow> ret ()) (\<lambda>_.
            andThen (ignoring (osAppend bundleFilepath blankLine)) (\<lambda>_. ret Continue))))"

definition CreateCABundle :: dirFunc where
  "CreateCABundle dir =
     (let bundleFilepath = fjoin dir bundleName
      in andThen (wrapping ''failed to create bundle file'' (osOpenTrunc bundleFilepath 0x1B6)) (\<lambda>_.
         andThen (wrapping ''failed to walk certificate files to create bundle''
                   (fsWalkDir dir (bundleVisitor bundleFilepath dir))) (\<lambda>_.
           ret [bundleName])))"

section \<open>OpenSSLRehash\<close>

definition listFilesInDir :: "string \<Rightarrow> string list os" where
  "listFilesInDir dir = osReadDir dir"

text \<open>The argument \<open>rehash\<close> is the effect of running \<^verbatim>\<open>openssl rehash\<close> on a directory.\<close>

definition OpenSSLRehash :: "(string \<Rightarrow> unit os) \<Rightarrow> dirFunc" where
  "OpenSSLRehash rehash dir =
     andThen (wrapping ''failed to list files'' (listFilesInDir dir)) (\<lambda>filesBefore.
     andThen (wrapping ''failed to run openssl rehash'' (rehash dir)) (\<lambda>_.
     andThen (wrapping ''failed to list files'' (listFilesInDir dir)) (\<lambda>filesAfter.
       ret (filter (\<lambda>f. f \<notin> set filesBefore) filesAfter))))"

definition DirFuncsForVolume :: "(string \<Rightarrow> unit os) \<Rightarrow> dirFunc list" where
  "DirFuncsForVolume rehash = [CreateCABundle, OpenSSLRehash rehash]"

section \<open>Both satisfy the contract of post-write functions\<close>

lemma stays_dirfsReads [simp]:
  "stays w0 \<Phi> (dirfsReadDirents p)" "stays w0 \<Phi> (dirfsOpen p)"
proof -
  have "readonly k_readdirents"
    using readonly_readdir by (auto simp: readonly_def k_readdirents_def split: sum.splits prod.splits)
  then show "stays w0 \<Phi> (dirfsReadDirents p)"
    by (simp add: dirfsReadDirents_def stays_readonly)
qed (simp add: dirfsOpen_def)

lemma stays_walkDir:
  assumes "\<And>p d e. stays w0 \<Phi> (fn p d e)"
  shows "stays w0 \<Phi> (walkDir n fn name d)" "stays w0 \<Phi> (walkEntries m fn name' ents)"
  using assms
  by (induction n fn name d and m fn name' ents rule: walkDir_walkEntries.induct)
     (auto intro!: stays_andThen stays_attempt split: sum.splits)

lemma stays_fsWalkDir:
  assumes "\<And>p d e. stays w0 \<Phi> (fn p d e)"
  shows "stays w0 \<Phi> (fsWalkDir root fn)"
proof -
  have "stays w0 \<Phi> (\<lambda>w. andThen (walkDir (Suc (fsdepth (wfs w))) fn root info) (\<lambda>_. ret ()) w)" for info
  proof (rule stays_fs)
    fix w assume "on_fs w0 \<Phi> w"
    moreover have "stays w0 \<Phi> (andThen (walkDir (Suc (fsdepth (wfs w))) fn root info) (\<lambda>_. ret ()))"
      by (intro stays_andThen stays_walkDir(1) assms stays_ret)
    ultimately show "on_fs w0 \<Phi> (snd (andThen (walkDir (Suc (fsdepth (wfs w))) fn root info) (\<lambda>_. ret ()) w))"
      by (rule stays_snd [rotated])
  qed
  then show ?thesis
    unfolding fsWalkDir_def using assms by (auto intro!: stays_attempt stays_andThen split: sum.splits)
qed

text \<open>The state while the bundle is written.\<close>

definition bundling :: "fs \<Rightarrow> fpath \<Rightarrow> fs \<Rightarrow> bool" where
  "bundling f1 D f \<longleftrightarrow> framed f1 {D @ [bundleName]} f \<and> isdir f D \<and>
     (\<exists>a c. map_of f (D @ [bundleName]) = Some (File a c))"

lemma pname_bundle [simp]: "pname bundleName"
  by (simp add: pname_def bundleName_def)

lemma unreserved_bundle [simp]: "unreserved bundleName"
  by (simp add: unreserved_def hasPrefix_def bundleName_def)

lemma bundle_path:
  assumes "nodots dir" "dir \<noteq> []"
  shows "pcomps (fjoin dir bundleName) = pcomps dir @ [bundleName]"
  using assms by (simp add: nodots_name pcomps_name)

lemma bundling_resolve:
  assumes "bundling f1 (pcomps dir) f" "nodots dir" "dir \<noteq> []"
  shows "resolve f True (fjoin dir bundleName) = Inr (pcomps dir @ [bundleName])"
  by (rule resolve_child)
     (use assms in \<open>auto simp: bundling_def framed_def bundle_path islink_def\<close>)

lemma bundling_update:
  assumes "bundling f1 D f" "map_of f (D @ [bundleName]) = Some (File a c)"
  shows "bundling f1 D (AList.update (D @ [bundleName]) (File a' c') f)"
proof -
  have "wf_fs (AList.update (D @ [bundleName]) (File a' c') f)"
    using assms by (intro wf_fs_update_same) (auto simp: bundling_def framed_def)
  then show ?thesis using assms by (auto simp: bundling_def isdir_def intro: framed_update)
qed

lemma stays_bundle_append:
  assumes "nodots dir" "dir \<noteq> []"
  shows "stays w0 (bundling f1 (pcomps dir)) (osAppend (fjoin dir bundleName) x)"
  unfolding stays_def osAppend_def
proof (rule hoare_pathcall)
  fix f r y f'
  assume f: "bundling f1 (pcomps dir) f" and r: "resolve f True (fjoin dir bundleName) = Inr r"
    and k: "k_write x f r = Inr (y, f')"
  have "r = pcomps dir @ [bundleName]" using bundling_resolve [OF f assms] r by simp
  with k f show "bundling f1 (pcomps dir) f'"
    by (auto simp: k_write_def split: option.splits node.splits intro: bundling_update)
qed auto

lemma stays_bundleVisitor:
  assumes "nodots dir" "dir \<noteq> []"
  shows "stays w0 (bundling f1 (pcomps dir)) (bundleVisitor (fjoin dir bundleName) root p d e)"
proof -
  have ap: "stays w0 (bundling f1 (pcomps dir)) (ignoring (osAppend (fjoin dir bundleName) x))" for x
    by (intro stays_ignoring stays_bundle_append assms)
  have "stays w0 (bundling f1 (pcomps dir))
     (attempt (osReadFile p) (\<lambda>r.
        andThen (case r of Inr content \<Rightarrow> ignoring (osAppend (fjoin dir bundleName) content) | Inl _ \<Rightarrow> ret ())
          (\<lambda>_. andThen (ignoring (osAppend (fjoin dir bundleName) blankLine)) (\<lambda>_. ret Continue))))"
    using ap by (intro stays_attempt stays_andThen) (auto split: sum.splits)
  then show ?thesis
    unfolding bundleVisitor_def by (auto split: option.splits)
qed

lemma hoare_bundle_create:
  assumes dir: "nodots dir" "dir \<noteq> []" and f1: "wf_fs f1" "isdir f1 (pcomps dir)" "\<not> islink f1 (pcomps dir @ [bundleName])"
  shows "hoare (on_fs w0 (\<lambda>f. f = f1)) (osOpenTrunc (fjoin dir bundleName) m)
     (\<lambda>_. on_fs w0 (bundling f1 (pcomps dir))) (\<lambda>_. on_fs w0 (\<lambda>f. f = f1))"
proof (rule hoare_osOpenTrunc)
  fix f r a
  assume f: "f = f1" and r: "resolve f True (fjoin dir bundleName) = Inr r" "\<not> isdir f r" "\<not> islink f r"
  have at: "r = pcomps dir @ [bundleName]"
    using resolve_child [OF f1(1,2) bundle_path [OF dir] pname_bundle, of True] f1(3) r(1) f by simp
  have "wf_fs (AList.update r (File a []) f)"
    using f r f1 resolve_good by (intro wf_fs_put_file) auto
  then show "bundling f1 (pcomps dir) (AList.update r (File a []) f)"
    using f f1 at by (auto simp: bundling_def isdir_def framed_def only_changes_def)
qed auto

theorem dirfunc_CreateCABundle: "dirfunc {bundleName} CreateCABundle"
  unfolding dirfunc_def
proof (intro allI impI)
  fix w0 dir f1
  assume dir: "nodots dir" "dir \<noteq> []" and f1: "wf_fs f1" "isdir f1 (pcomps dir)" "tidy f1 (pcomps dir)"
    and ul: "unlinked {bundleName} f1 (pcomps dir)"
  let ?D = "pcomps dir"
  let ?B = "bundling f1 ?D"
  have start: "hoare (on_fs w0 (\<lambda>f. f = f1)) (osOpenTrunc (fjoin dir bundleName) 0x1B6)
     (\<lambda>_. on_fs w0 ?B) (\<lambda>_. on_fs w0 (framed f1 (under ?D)))"
    by (rule hoare_weaken [OF hoare_bundle_create [OF dir f1(1,2)]])
       (use ul f1 in \<open>auto simp: unlinked_def on_fs_def framed_refl\<close>)
  have out: "framed f1 (under ?D) f" if "?B f" for f
    using that framed_mono [of f1 "{?D @ [bundleName]}" f "under ?D"] by (auto simp: bundling_def)
  have walk: "hoare (on_fs w0 ?B) (fsWalkDir dir (bundleVisitor (fjoin dir bundleName) dir))
      (\<lambda>_. on_fs w0 ?B) (\<lambda>_. on_fs w0 (framed f1 (under ?D)))"
    by (rule hoare_weaken [OF stays_fsWalkDir [OF stays_bundleVisitor [OF dir], unfolded stays_def]])
       (use out in \<open>auto simp: on_fs_def\<close>)
  have run: "hoare (on_fs w0 (\<lambda>f. f = f1)) (CreateCABundle dir)
      (\<lambda>new w. on_fs w0 ?B w \<and> new = [bundleName]) (\<lambda>_. on_fs w0 (framed f1 (under ?D)))"
    unfolding CreateCABundle_def Let_def
    by (rule hoare_andThen, rule hoare_wrapping [OF start], rule hoare_andThen, rule hoare_wrapping [OF walk])
       (simp add: hoare_def ret_def)
  have fin: "framed f1 (writable_in {bundleName} f1 ?D) f \<and> tidy f ?D \<and> unlinked {bundleName} f ?D \<and>
       (\<forall>n. map_of f (?D @ [n]) \<noteq> None \<longrightarrow> map_of f1 (?D @ [n]) \<noteq> None \<or> unreserved n)" if "?B f" for f
  proof -
    have fr: "framed f1 {?D @ [bundleName]} f" using that by (simp add: bundling_def)
    have "tidy f ?D"
      using f1(3) that framed_at [OF fr] unfolding tidy_def bundling_def
      by (metis node.distinct(5) option.inject singletonD)
    moreover have "framed f1 (writable_in {bundleName} f1 ?D) f"
      using fr by (rule framed_mono) (auto simp: writable_in_def)
    moreover have "map_of f1 (?D @ [n]) \<noteq> None \<or> unreserved n" if "map_of f (?D @ [n]) \<noteq> None" for n
      using that framed_at [OF fr, of "?D @ [n]"] by (cases "n = bundleName") auto
    ultimately show ?thesis using that by (auto simp: unlinked_def bundling_def islink_def)
  qed
  show "hoare (on_fs w0 (\<lambda>f. f = f1)) (CreateCABundle dir)
     (\<lambda>new. on_fs w0 (\<lambda>f. framed f1 (writable_in {bundleName} f1 ?D) f \<and> tidy f ?D \<and>
        unlinked {bundleName} f ?D \<and>
        (\<forall>n. map_of f (?D @ [n]) \<noteq> None \<longrightarrow> map_of f1 (?D @ [n]) \<noteq> None \<or> unreserved n) \<and>
        (\<forall>n \<in> set new. pname n \<and> unreserved n)))
     (\<lambda>_. on_fs w0 (framed f1 (under ?D)))"
    by (rule hoare_weaken [OF run]) (use fin in \<open>auto simp: on_fs_def\<close>)
qed

text \<open>
  What \<^verbatim>\<open>openssl rehash\<close> documents: it replaces and adds symbolic links in the directory, named by
  an eight-digit hash and a number, that point to files of the same directory.
\<close>

definition hashName :: "string \<Rightarrow> bool" where
  "hashName n \<longleftrightarrow> length n > 9 \<and> (\<forall>c \<in> set (take 8 n). c \<in> set ''0123456789abcdef'') \<and> n ! 8 = CHR ''.'' \<and>
     sep \<notin> set n"

definition rehash_ok :: "(string \<Rightarrow> unit os) \<Rightarrow> bool" where
  "rehash_ok rehash \<longleftrightarrow> (\<forall>w0 dir f1. nodots dir \<longrightarrow> dir \<noteq> [] \<longrightarrow> wf_fs f1 \<longrightarrow> isdir f1 (pcomps dir) \<longrightarrow>
     tidy f1 (pcomps dir) \<longrightarrow>
     hoare (on_fs w0 (\<lambda>f. f = f1)) (rehash dir)
       (\<lambda>_. on_fs w0 (\<lambda>f. framed f1 {pcomps dir @ [n] | n. hashName n \<and>
             (map_of f1 (pcomps dir @ [n]) = None \<or> islink f1 (pcomps dir @ [n]))} f \<and> tidy f (pcomps dir)))
       (\<lambda>_. on_fs w0 (framed f1 (under (pcomps dir)))))"

lemma hashName_ok:
  assumes "hashName n"
  shows "pname n \<and> unreserved n \<and> n \<noteq> bundleName"
proof -
  obtain a r where ar: "n = a # r" using assms by (cases n) (auto simp: hashName_def)
  then have "a \<in> set ''0123456789abcdef''" using assms by (simp add: hashName_def)
  then have dot: "a \<noteq> CHR ''.''" by auto
  have len: "length n > 9" "sep \<notin> set n" using assms by (auto simp: hashName_def)
  have "n ! 8 \<noteq> bundleName ! 8" using assms by (simp add: hashName_def bundleName_def)
  then have "n \<noteq> bundleName" by metis
  moreover have "pname n" using ar dot len by (auto simp: pname_def)
  moreover have "unreserved n" using ar dot by (simp add: unreserved_def hasPrefix_def)
  ultimately show ?thesis by blast
qed

lemma not_hashName_bundle [simp]: "\<not> hashName bundleName"
  using hashName_ok by blast

lemma hoare_listFiles:
  assumes "wf_fs f" "isdir f (pcomps dir)" "dir \<noteq> []"
  shows "hoare (on_fs w0 (\<lambda>g. g = f)) (listFilesInDir dir)
    (\<lambda>names w. on_fs w0 (\<lambda>g. g = f) w \<and> set names = {n. map_of f (pcomps dir @ [n]) \<noteq> None})
    (\<lambda>_. on_fs w0 (\<lambda>g. g = f))"
proof -
  have r: "resolve f True dir = Inr (pcomps dir)"
    using assms resolve_existing [of f "pcomps dir" _ dir True] isdir_not_islink by (auto simp: isdir_def)
  have "hoare (on_fs w0 (\<lambda>g. g = f)) (pathcall True dir k_readdir)
    (\<lambda>names. on_fs w0 (\<lambda>g. g = f \<and> set names = {n. map_of f (pcomps dir @ [n]) \<noteq> None}))
    (\<lambda>_. on_fs w0 (\<lambda>g. g = f))"
    by (rule hoare_pathcall)
       (use r in \<open>auto simp: k_readdir_def set_children split: option.splits node.splits\<close>)
  then show ?thesis
    unfolding listFilesInDir_def osReadDir_def by (rule hoare_weaken) (auto simp: on_fs_def)
qed

text \<open>What a run that changes links with hash names only leaves in the directory.\<close>

lemma rehash_frame:
  assumes fr: "framed f1 {D @ [n] | n. hashName n \<and> (map_of f1 (D @ [n]) = None \<or> islink f1 (D @ [n]))} f"
    and ul: "unlinked {bundleName} f1 D"
  shows "framed f1 (writable_in {bundleName} f1 D) f" "unlinked {bundleName} f D"
    "\<And>n. map_of f (D @ [n]) \<noteq> None \<Longrightarrow> map_of f1 (D @ [n]) = None \<Longrightarrow> pname n \<and> unreserved n"
proof -
  show "framed f1 (writable_in {bundleName} f1 D) f"
    using fr by (rule framed_mono) (auto simp: writable_in_def)
  show "unlinked {bundleName} f D"
    using ul framed_at [OF fr, of "D @ [bundleName]"] by (simp add: unlinked_def islink_def)
  show "pname n \<and> unreserved n" if "map_of f (D @ [n]) \<noteq> None" "map_of f1 (D @ [n]) = None" for n
    using that framed_at [OF fr, of "D @ [n]"] hashName_ok [of n] by (cases "hashName n") auto
qed

theorem dirfunc_OpenSSLRehash:
  assumes "rehash_ok rehash"
  shows "dirfunc {bundleName} (OpenSSLRehash rehash)"
  unfolding dirfunc_def
proof (intro allI impI)
  fix w0 dir f1
  assume dir: "nodots dir" "dir \<noteq> []" and f1: "wf_fs f1" "isdir f1 (pcomps dir)" "tidy f1 (pcomps dir)"
    and ul: "unlinked {bundleName} f1 (pcomps dir)"
  let ?D = "pcomps dir" and ?E = "\<lambda>_::goerr. on_fs w0 (framed f1 (under (pcomps dir)))"
  let ?S = "{?D @ [n] | n. hashName n \<and> (map_of f1 (?D @ [n]) = None \<or> islink f1 (?D @ [n]))}"
  let ?R = "\<lambda>f. framed f1 ?S f \<and> tidy f ?D"
  have l1: "hoare (on_fs w0 (\<lambda>f. f = f1)) (listFilesInDir dir)
      (\<lambda>names w. on_fs w0 (\<lambda>g. g = f1) w \<and> set names = {n. map_of f1 (?D @ [n]) \<noteq> None}) ?E"
    by (rule hoare_weaken [OF hoare_listFiles [OF f1(1,2) dir(2)]]) (use f1 in \<open>auto simp: on_fs_def framed_refl\<close>)
  have rh: "hoare (on_fs w0 (\<lambda>f. f = f1)) (rehash dir) (\<lambda>_. on_fs w0 ?R) ?E"
    using assms dir f1 unfolding rehash_ok_def by blast
  have under: "framed f1 (under ?D) f" if "framed f1 ?S f" for f
    using that by (rule framed_mono) auto
  have l2: "hoare (on_fs w0 ?R) (listFilesInDir dir)
      (\<lambda>names w. on_fs w0 (\<lambda>g. ?R g \<and> set names = {n. map_of g (?D @ [n]) \<noteq> None}) w) ?E"
  proof (rule hoare_fix)
    fix f assume f: "?R f"
    then have "wf_fs f" "isdir f ?D" using framed_isdir [of f1 ?S f ?D] f1 by (auto simp: framed_def)
    then show "hoare (on_fs w0 (\<lambda>g. g = f)) (listFilesInDir dir)
      (\<lambda>names w. on_fs w0 (\<lambda>g. ?R g \<and> set names = {n. map_of g (?D @ [n]) \<noteq> None}) w) ?E"
      using hoare_listFiles [OF _ _ dir(2)] f under
      by (elim hoare_weaken [OF hoare_listFiles [OF _ _ dir(2)]]) (auto simp: on_fs_def)
  qed
  show "hoare (on_fs w0 (\<lambda>f. f = f1)) (OpenSSLRehash rehash dir)
     (\<lambda>new. on_fs w0 (\<lambda>f. framed f1 (writable_in {bundleName} f1 ?D) f \<and> tidy f ?D \<and>
        unlinked {bundleName} f ?D \<and>
        (\<forall>n. map_of f (?D @ [n]) \<noteq> None \<longrightarrow> map_of f1 (?D @ [n]) \<noteq> None \<or> unreserved n) \<and>
        (\<forall>n \<in> set new. pname n \<and> unreserved n))) ?E"
    unfolding OpenSSLRehash_def
    apply (rule hoare_andThen, rule hoare_wrapping [OF l1])
    apply (rule hoare_assume)
    apply (rule hoare_andThen, rule hoare_wrapping [OF rh])
    apply (rule hoare_andThen, rule hoare_wrapping [OF l2])
    apply (rule hoare_pre [OF hoare_ret])
    using rehash_frame [OF _ ul] by (auto simp: on_fs_def)
qed

section \<open>The contents of the bundle\<close>

text \<open>
  What the bundle is meant to contain: every file of the directory in the order of the names,
  each followed by a blank line; subdirectories and the bundle itself are left out.
\<close>

definition certText :: "fs \<Rightarrow> fpath \<Rightarrow> string \<Rightarrow> string" where
  "certText f D n =
     (case map_of f (D @ [n]) of
        Some (File _ d) \<Rightarrow> if n = bundleName then [] else d @ blankLine
      | _ \<Rightarrow> [])"

definition bundleOf :: "fs \<Rightarrow> fpath \<Rightarrow> string" where
  "bundleOf f D = concat (map (certText f D) (children f D))"

lemma canon_rel_valid:
  assumes "canon p" "\<not> isAbs p"
  shows "validFSPath p"
proof -
  have p: "p = joinc sep (pcomps p)" "pcomps p \<noteq> []" "\<forall>c \<in> set (pcomps p). pname c"
    using assms pcomps_pname by (auto simp: canon_def)
  then have "splitc sep p = pcomps p"
    using splitc_joinc [of "pcomps p" sep] by (auto simp: pname_def)
  with p(3) show ?thesis by (auto simp: validFSPath_def pname_def)
qed

text \<open>The bundle holds the text \<open>x\<close>.\<close>

definition holding :: "fs \<Rightarrow> fpath \<Rightarrow> string \<Rightarrow> fs \<Rightarrow> bool" where
  "holding f1 D x f \<longleftrightarrow> bundling f1 D f \<and> (\<exists>a. map_of f (D @ [bundleName]) = Some (File a x))"

lemma hoare_bundle_append:
  assumes "nodots dir" "dir \<noteq> []" "faultfree w0"
  shows "hoare (on_fs w0 (holding f1 (pcomps dir) x)) (osAppend (fjoin dir bundleName) y)
    (\<lambda>_. on_fs w0 (holding f1 (pcomps dir) (x @ y))) (\<lambda>_ _. False)"
  unfolding osAppend_def
proof (rule hoare_pathcall_ok [OF assms(3)])
  fix f assume f: "holding f1 (pcomps dir) x f"
  then obtain a where a: "map_of f (pcomps dir @ [bundleName]) = Some (File a x)" by (auto simp: holding_def)
  with f have "holding f1 (pcomps dir) (x @ y) (AList.update (pcomps dir @ [bundleName]) (File a (x @ y)) f)"
    using bundling_update [OF _ a] by (simp add: holding_def)
  then show "\<exists>r u f'. resolve f True (fjoin dir bundleName) = Inr r \<and> k_write y f r = Inr (u, f') \<and>
      holding f1 (pcomps dir) (x @ y) f'"
    using bundling_resolve [OF _ assms(1,2)] f a by (auto simp: holding_def k_write_def)
qed

lemma hoare_readCert:
  assumes "faultfree w0" "pname n" "n \<noteq> bundleName" "canon dir" "map_of f1 (pcomps dir @ [n]) = Some (File b d)"
  shows "hoare (on_fs w0 (holding f1 (pcomps dir) x)) (osReadFile (fjoin dir n))
    (\<lambda>c w. on_fs w0 (holding f1 (pcomps dir) x) w \<and> c = d) (\<lambda>_ _. False)"
proof -
  have pc: "pcomps (fjoin dir n) = pcomps dir @ [n]"
    using assms by (simp add: canon_nodots canon_not_Nil nodots_name pcomps_name)
  have "hoare (on_fs w0 (holding f1 (pcomps dir) x)) (pathcall True (fjoin dir n) k_read)
    (\<lambda>c. on_fs w0 (\<lambda>f. holding f1 (pcomps dir) x f \<and> c = d)) (\<lambda>_ _. False)"
  proof (rule hoare_pathcall_ok [OF assms(1)])
    fix f assume f: "holding f1 (pcomps dir) x f"
    then have b: "framed f1 {pcomps dir @ [bundleName]} f" "isdir f (pcomps dir)"
      by (auto simp: holding_def bundling_def)
    then have at: "map_of f (pcomps dir @ [n]) = Some (File b d)"
      using framed_at assms(3,5) by fastforce
    then have "resolve f True (fjoin dir n) = Inr (pcomps dir @ [n])"
      using b assms(2) pc by (intro resolve_child) (auto simp: framed_def islink_def)
    with at f show "\<exists>r c f'. resolve f True (fjoin dir n) = Inr r \<and> k_read f r = Inr (c, f') \<and>
        (holding f1 (pcomps dir) x f' \<and> c = d)"
      by (simp add: k_read_def)
  qed
  then show ?thesis unfolding osReadFile_def by (rule hoare_weaken) (auto simp: on_fs_def)
qed

lemma hoare_ignoring_ok: "hoare P m Q (\<lambda>_ _. False) \<Longrightarrow> hoare P (ignoring m) (\<lambda>_ w. \<exists>x. Q x w) (\<lambda>_ _. False)"
  by (rule hoare_ignoring) (auto elim: hoare_weaken)

lemma hoare_visitCert:
  assumes "faultfree w0" "pname n" "n \<noteq> bundleName" "canon dir" "map_of f1 (pcomps dir @ [n]) = Some (File b d)"
  shows "hoare (on_fs w0 (holding f1 (pcomps dir) x))
    (bundleVisitor (fjoin dir bundleName) dir (fjoin dir n) (Some (File b d)) None)
    (\<lambda>act w. on_fs w0 (holding f1 (pcomps dir) (x @ d @ blankLine)) w \<and> act = Continue) (\<lambda>_ _. False)"
proof -
  have dir: "nodots dir" "dir \<noteq> []" using assms(4) by (auto simp: canon_nodots canon_not_Nil)
  have base: "fbase (fjoin dir n) = n"
    using assms fjoin_canon_name(1) [OF assms(4,2)] by (simp add: fbase_name)
  have ap: "hoare (on_fs w0 (holding f1 (pcomps dir) x)) (ignoring (osAppend (fjoin dir bundleName) y))
      (\<lambda>_. on_fs w0 (holding f1 (pcomps dir) (x @ y))) (\<lambda>_ _. False)" for x y
    using hoare_ignoring_ok [OF hoare_bundle_append [OF dir assms(1)]] by simp
  have "hoare (on_fs w0 (holding f1 (pcomps dir) x))
     (attempt (osReadFile (fjoin dir n)) (\<lambda>r.
        andThen (case r of Inr content \<Rightarrow> ignoring (osAppend (fjoin dir bundleName) content) | Inl _ \<Rightarrow> ret ())
          (\<lambda>_. andThen (ignoring (osAppend (fjoin dir bundleName) blankLine)) (\<lambda>_. ret Continue))))
     (\<lambda>act w. on_fs w0 (holding f1 (pcomps dir) (x @ d @ blankLine)) w \<and> act = Continue) (\<lambda>_ _. False)"
    apply (rule hoare_attempt [where R = "\<lambda>r w. on_fs w0 (holding f1 (pcomps dir) x) w \<and> r = Inr d"])
     apply (rule hoare_weaken [OF hoare_readCert [OF assms, of x]]; simp)
    apply (rule hoare_assume, simp, rule hoare_andThen [OF ap], rule hoare_andThen [OF ap])
    apply (simp add: hoare_def ret_def)
    done
  then show ?thesis
    using assms(3) base by (simp add: bundleVisitor_def)
qed

text \<open>An entry as the walk meets it: the bundle itself, or one that was there before, not a link.\<close>

definition entry_ok :: "fs \<Rightarrow> fpath \<Rightarrow> string \<times> node \<Rightarrow> bool" where
  "entry_ok f1 D = (\<lambda>(n, d). pname n \<and> (\<forall>t. d \<noteq> Link t) \<and>
     (if n = bundleName then \<not> is_Dir d else map_of f1 (D @ [n]) = Some d))"

fun entryText :: "string \<times> node \<Rightarrow> string" where
  "entryText (n, File _ d) = (if n = bundleName then [] else d @ blankLine)"
| "entryText _ = []"

lemma hoare_walkEntry:
  assumes "faultfree w0" "canon dir" "entry_ok f1 (pcomps dir) (n, d)"
  shows "hoare (on_fs w0 (holding f1 (pcomps dir) x))
    (walkDir (Suc m) (bundleVisitor (fjoin dir bundleName) dir) (fjoin dir n) d)
    (\<lambda>act w. on_fs w0 (holding f1 (pcomps dir) (x @ entryText (n, d))) w \<and> act = Continue) (\<lambda>_ _. False)"
proof (cases d)
  case (Dir a)
  have "fjoin dir n \<noteq> dir"
    using assms fjoin_canon_name(1) [OF assms(2), of n] by (auto simp: entry_ok_def)
  then show ?thesis
    using Dir by (simp add: hoare_def bundleVisitor_def andThen_def ret_def)
next
  case (File b c)
  have n: "pname n" using assms(3) by (simp add: entry_ok_def)
  have "fbase (fjoin dir n) = n"
    using fjoin_canon_name(1) [OF assms(2) n] n by (simp add: fbase_name)
  show ?thesis
  proof (cases "n = bundleName")
    case True
    with File \<open>fbase _ = n\<close> show ?thesis by (simp add: hoare_def bundleVisitor_def andThen_def ret_def)
  next
    case False
    then have "map_of f1 (pcomps dir @ [n]) = Some (File b c)" using assms(3) File by (simp add: entry_ok_def)
    note v = hoare_visitCert [OF assms(1) n False assms(2) this]
    have "hoare (on_fs w0 (holding f1 (pcomps dir) x))
       (andThen (bundleVisitor (fjoin dir bundleName) dir (fjoin dir n) (Some (File b c)) None) ret)
       (\<lambda>act w. on_fs w0 (holding f1 (pcomps dir) (x @ c @ blankLine)) w \<and> act = Continue) (\<lambda>_ _. False)"
      by (rule hoare_andThen [OF v]) (simp add: hoare_def ret_def)
    then show ?thesis using File False by simp
  qed
qed (use assms in \<open>simp add: entry_ok_def\<close>)

lemma hoare_walkBundle:
  assumes "faultfree w0" "canon dir" "\<forall>e \<in> set ents. entry_ok f1 (pcomps dir) e"
  shows "hoare (on_fs w0 (holding f1 (pcomps dir) x))
    (walkEntries (Suc m) (bundleVisitor (fjoin dir bundleName) dir) dir ents)
    (\<lambda>_. on_fs w0 (holding f1 (pcomps dir) (x @ concat (map entryText ents)))) (\<lambda>_ _. False)"
  using assms(3)
proof (induction ents arbitrary: x)
  case Nil
  then show ?case by (simp add: hoare_def ret_def)
next
  case (Cons e ents)
  obtain n d where e: "e = (n, d)" by fastforce
  have "entry_ok f1 (pcomps dir) (n, d)" using Cons.prems e by simp
  note step = hoare_walkEntry [OF assms(1,2) this]
  have "hoare (\<lambda>w. on_fs w0 (holding f1 (pcomps dir) (x @ entryText (n, d))) w \<and> act = Continue)
      (if act = SkipDir then ret Continue
       else walkEntries (Suc m) (bundleVisitor (fjoin dir bundleName) dir) dir ents)
      (\<lambda>_. on_fs w0 (holding f1 (pcomps dir) (x @ entryText (n, d) @ concat (map entryText ents)))) (\<lambda>_ _. False)"
    for act
    using Cons.IH [of "x @ entryText (n, d)"] Cons.prems by (intro hoare_assume) simp
  then show ?case
    unfolding e walkEntries.simps by (intro hoare_andThen [OF step]) simp
qed

text \<open>The entries that the walk reads from the directory, with the text they contribute.\<close>

definition entriesOf :: "fs \<Rightarrow> fpath \<Rightarrow> (string \<times> node) list" where
  "entriesOf f D = List.map_filter (\<lambda>c. map_option (Pair c) (map_of f (D @ [c]))) (children f D)"

lemma set_entriesOf: "set (entriesOf f D) = {(c, n). map_of f (D @ [c]) = Some n}"
  by (force simp: entriesOf_def map_filter_def set_children)

lemma concat_entriesOf: "concat (map entryText (entriesOf f D)) = bundleOf f D"
proof -
  have "concat (map entryText (List.map_filter (\<lambda>c. map_option (Pair c) (map_of f (D @ [c]))) cs)) =
      concat (map (certText f D) cs)" for cs
    by (induction cs) (auto simp: map_filter_def certText_def split: option.splits node.splits)
  then show ?thesis by (simp add: entriesOf_def bundleOf_def)
qed

lemma concat_map_skip: "F n = [] \<Longrightarrow> concat (map F (filter (\<lambda>x. x \<noteq> n) xs)) = concat (map F xs)"
  by (induction xs) auto

lemma bundleOf_holding:
  assumes "holding f1 D x f"
  shows "bundleOf f D = bundleOf f1 D"
proof -
  have fr: "framed f1 {D @ [bundleName]} f" using assms by (simp add: holding_def bundling_def)
  have same: "map_of f (D @ [c]) = map_of f1 (D @ [c])" if "c \<noteq> bundleName" for c
    using framed_at [OF fr] that by simp
  have zero: "certText h D bundleName = []" for h
    by (simp add: certText_def split: option.splits node.splits)
  have names: "filter (\<lambda>c. c \<noteq> bundleName) (children f D) = filter (\<lambda>c. c \<noteq> bundleName) (children f1 D)"
  proof (rule sorted_distinct_set_unique)
    show "set (filter (\<lambda>c. c \<noteq> bundleName) (children f D)) = set (filter (\<lambda>c. c \<noteq> bundleName) (children f1 D))"
      using same by (auto simp: set_children)
  qed (auto simp: sorted_wrt_filter children_def)
  have "bundleOf h D = concat (map (certText h D) (filter (\<lambda>c. c \<noteq> bundleName) (children h D)))" for h
    unfolding bundleOf_def by (simp add: concat_map_skip zero)
  moreover have "map (certText f D) (filter (\<lambda>c. c \<noteq> bundleName) (children f1 D)) =
      map (certText f1 D) (filter (\<lambda>c. c \<noteq> bundleName) (children f1 D))"
    using same by (auto simp: certText_def)
  ultimately show ?thesis using names by metis
qed

lemma entriesOf_ok:
  assumes f: "holding f1 D x f" and nl: "nolinks f1 D" and e: "(n, d) \<in> set (entriesOf f D)"
  shows "entry_ok f1 D (n, d)"
proof -
  have fr: "framed f1 {D @ [bundleName]} f" using f by (auto simp: holding_def bundling_def)
  have at: "map_of f (D @ [n]) = Some d" using e by (simp add: set_entriesOf)
  then have "pname n" using fr wf_fs_parent by (auto simp: framed_def)
  moreover have old: "map_of f1 (D @ [n]) = Some d" if "n \<noteq> bundleName"
    using framed_at [OF fr, of "D @ [n]"] at that by simp
  moreover have "d \<noteq> Link t" for t
    using old nl at f by (cases "n = bundleName") (auto simp: nolinks_def islink_def holding_def)
  moreover have "n = bundleName \<Longrightarrow> \<not> is_Dir d"
    using at f by (auto simp: holding_def)
  ultimately show ?thesis by (auto simp: entry_ok_def)
qed

lemma hoare_bundleDir:
  assumes ff: "faultfree w0" and dir: "canon dir" "\<not> isAbs dir" and nl: "nolinks f1 (pcomps dir)"
    and f: "holding f1 (pcomps dir) [] f" and a: "map_of f (pcomps dir) = Some (Dir a)"
    and res: "resolve f True (sep # dir) = Inr (pcomps dir)"
  shows "hoare (on_fs w0 (\<lambda>g. g = f)) (walkDir (Suc (Suc m)) (bundleVisitor (fjoin dir bundleName) dir) dir (Dir a))
    (\<lambda>_. on_fs w0 (holding f1 (pcomps dir) (bundleOf f1 (pcomps dir)))) (\<lambda>_ _. False)"
    (is "hoare ?I (walkDir _ ?V _ _) ?Q _")
proof -
  let ?es = "entriesOf f (pcomps dir)"
  have rdd: "hoare ?I (dirfsReadDirents dir) (\<lambda>x. on_fs w0 (\<lambda>g. g = f \<and> x = ?es)) (\<lambda>_ _. False)"
    using hoare_pathcall_ok [OF ff, of "\<lambda>g. g = f" True "sep # dir" k_readdirents "\<lambda>x g. g = f \<and> x = ?es"]
      canon_rel_valid [OF dir] res a
    by (simp add: dirfsReadDirents_def k_readdirents_def k_readdir_def entriesOf_def)
  have ents: "hoare ?I (walkEntries (Suc m) ?V dir ?es) ?Q (\<lambda>_ _. False)"
    by (rule hoare_weaken [OF hoare_walkBundle [OF ff dir(1), of ?es f1 "[]" m]])
       (use entriesOf_ok [OF f nl] bundleOf_holding [OF f] concat_entriesOf [of f "pcomps dir"] f in
         \<open>auto simp: on_fs_def\<close>)
  have "hoare ?I (attempt (dirfsReadDirents dir) (\<lambda>r. case r of
         Inl e \<Rightarrow> andThen (?V dir (Some (Dir a)) (Some e)) (\<lambda>_. ret Continue)
       | Inr es \<Rightarrow> walkEntries (Suc m) ?V dir es)) ?Q (\<lambda>_ _. False)"
    apply (rule hoare_attempt [where R = "\<lambda>r w. ?I w \<and> r = Inr ?es"])
     apply (rule hoare_weaken [OF rdd]; simp add: on_fs_def)
    apply (rule hoare_assume, simp add: ents)
    done
  moreover have "?V dir (Some (Dir a)) None = ret Continue" by (simp add: bundleVisitor_def)
  ultimately show ?thesis by simp
qed

lemma hoare_bundleWalk:
  assumes ff: "faultfree w0" and dir: "canon dir" "\<not> isAbs dir" and nl: "nolinks f1 (pcomps dir)"
  shows "hoare (on_fs w0 (holding f1 (pcomps dir) [])) (fsWalkDir dir (bundleVisitor (fjoin dir bundleName) dir))
    (\<lambda>_. on_fs w0 (holding f1 (pcomps dir) (bundleOf f1 (pcomps dir)))) (\<lambda>_ _. False)"
proof (rule hoare_fix)
  fix f assume f: "holding f1 (pcomps dir) [] f"
  let ?I = "on_fs w0 (\<lambda>g. g = f)" and ?V = "bundleVisitor (fjoin dir bundleName) dir"
  let ?Q = "\<lambda>_. on_fs w0 (holding f1 (pcomps dir) (bundleOf f1 (pcomps dir)))"
  have fr: "framed f1 {pcomps dir @ [bundleName]} f" and D: "isdir f (pcomps dir)"
    using f by (auto simp: holding_def bundling_def)
  obtain a where a: "map_of f (pcomps dir) = Some (Dir a)" using D by (auto simp: isdir_def)
  have res: "resolve f True (sep # dir) = Inr (pcomps dir)"
    by (rule resolve_existing) (use fr a in \<open>auto simp: framed_def pcomps_sep_Cons islink_def\<close>)
  have opn: "hoare ?I (dirfsOpen dir) (\<lambda>x. on_fs w0 (\<lambda>g. g = f \<and> x = Dir a)) (\<lambda>_ _. False)"
    using hoare_pathcall_ok [OF ff, of "\<lambda>g. g = f" True "sep # dir" k_lstat "\<lambda>x g. g = f \<and> x = Dir a"]
      canon_rel_valid [OF dir] res a
    by (simp add: dirfsOpen_def osStat_def k_lstat_def)
  have "hoare ?I (andThen (walkDir (Suc (fsdepth f)) ?V dir (Dir a)) (\<lambda>_. ret ())) ?Q (\<lambda>_ _. False)"
    unfolding fsdepth_def
    by (rule hoare_andThen [OF hoare_bundleDir [OF ff dir nl f a res]]) (simp add: hoare_def ret_def)
  then have top: "hoare ?I (\<lambda>w. andThen (walkDir (Suc (fsdepth (wfs w))) ?V dir (Dir a)) (\<lambda>_. ret ()) w) ?Q (\<lambda>_ _. False)"
    by (rule hoare_wfs)
  show "hoare ?I (fsWalkDir dir ?V) ?Q (\<lambda>_ _. False)"
    unfolding fsWalkDir_def
    apply (rule hoare_attempt [where R = "\<lambda>r w. ?I w \<and> r = Inr (Dir a)"])
     apply (rule hoare_weaken [OF opn]; simp add: on_fs_def)
    apply (rule hoare_assume, simp only: sum.case, rule top)
    done
qed

lemma hoare_createBundle_ok:
  assumes "faultfree w0" "canon dir" "wf_fs f1" "isdir f1 (pcomps dir)"
    and "\<not> islink f1 (pcomps dir @ [bundleName])" "\<not> isdir f1 (pcomps dir @ [bundleName])"
  shows "hoare (on_fs w0 (\<lambda>f. f = f1)) (osOpenTrunc (fjoin dir bundleName) m)
     (\<lambda>_. on_fs w0 (holding f1 (pcomps dir) [])) (\<lambda>_ _. False)"
proof -
  have dir: "nodots dir" "dir \<noteq> []" using assms(2) by (auto simp: canon_nodots canon_not_Nil)
  have res: "resolve f1 True (fjoin dir bundleName) = Inr (pcomps dir @ [bundleName])"
    using resolve_child [OF assms(3,4) bundle_path [OF dir] pname_bundle, of True] assms(5) by simp
  have "hoare (on_fs w0 (\<lambda>f. f = f1)) (osOpenTrunc (fjoin dir bundleName) m)
     (\<lambda>_. on_fs w0 (holding f1 (pcomps dir) [])) (\<lambda>e. on_fs w0 (\<lambda>_. False))"
  proof (rule hoare_osOpenTrunc)
    fix f r a assume f: "f = f1" "resolve f True (fjoin dir bundleName) = Inr r" "\<not> isdir f r" "\<not> islink f r"
    have "wf_fs (AList.update r (File a []) f)"
      using f assms(3) resolve_good by (intro wf_fs_put_file) auto
    then show "holding f1 (pcomps dir) [] (AList.update r (File a []) f)"
      using f res assms(4) by (auto simp: holding_def bundling_def isdir_def framed_def only_changes_def)
  next
    fix f e assume "f = f1" "call_fails w0 True (fjoin dir bundleName) (k_open_trunc undefined) f e"
    then show False
      using res assms(1,5,6) by (auto simp: call_fails_def k_open_trunc_def isdir_def islink_def
          split: option.splits node.splits)
  qed
  then show ?thesis by (rule hoare_weaken) (auto simp: on_fs_def)
qed

section \<open>Properties\<close>

text \<open>
  C25. In a directory without links, named by a clean relative path, and without I/O errors,
  \<open>CreateCABundle\<close> succeeds, reports the bundle, and leaves in it exactly the certificates of the
  directory in the order of their names, each followed by a blank line; nothing else changes.
\<close>

theorem CreateCABundle_content:
  assumes "faultfree w" "canon dir" "\<not> isAbs dir" "wf_fs (wfs w)" "isdir (wfs w) (pcomps dir)"
    and "nolinks (wfs w) (pcomps dir)" "\<not> isdir (wfs w) (pcomps dir @ [bundleName])"
  shows "\<exists>w' a. CreateCABundle dir w = (Inr [bundleName], w') \<and>
    map_of (wfs w') (pcomps dir @ [bundleName]) = Some (File a (bundleOf (wfs w) (pcomps dir))) \<and>
    only_changes {pcomps dir @ [bundleName]} (wfs w) (wfs w')"
proof -
  have nl: "\<not> islink (wfs w) (pcomps dir @ [bundleName])" using assms(6) by (simp add: nolinks_def)
  have "hoare (on_fs w (\<lambda>f. f = wfs w)) (CreateCABundle dir)
     (\<lambda>new v. on_fs w (holding (wfs w) (pcomps dir) (bundleOf (wfs w) (pcomps dir))) v \<and> new = [bundleName])
     (\<lambda>_ _. False)"
    unfolding CreateCABundle_def Let_def
    apply (rule hoare_andThen, rule hoare_wrapping [OF hoare_createBundle_ok [OF assms(1,2,4,5) nl assms(7)]])
    apply (rule hoare_andThen, rule hoare_wrapping [OF hoare_bundleWalk [OF assms(1,2,3,6)]])
    apply (simp add: hoare_def ret_def)
    done
  moreover have "on_fs w (\<lambda>f. f = wfs w) w" by (simp add: on_fs_def)
  ultimately obtain new w' where "CreateCABundle dir w = (Inr new, w')"
    "on_fs w (holding (wfs w) (pcomps dir) (bundleOf (wfs w) (pcomps dir))) w' \<and> new = [bundleName]"
    by (rule hoare_succeeds)
  then show ?thesis
    by (auto simp: on_fs_def holding_def bundling_def framed_def)
qed

text \<open>A directory \<^verbatim>\<open>d\<close> with the certificates \<^verbatim>\<open>a\<close> and \<^verbatim>\<open>b\<close>.\<close>

definition certFS :: fs where
  "certFS = [([], Dir rootAttr), ([''d''], Dir rootAttr), ([''d'', ''b''], File rootAttr ''B''),
     ([''d'', ''a''], File rootAttr ''A'')]"

lemma certFS_facts:
  "wf_fs certFS" "isdir certFS [''d'']" "nolinks certFS [''d'']" "\<not> isdir certFS [''d'', bundleName]"
  by (auto simp: certFS_def wf_fs_def isdir_def nolinks_def islink_def pname_def bundleName_def split: if_splits)

lemma canon_d: "canon ''d''" "\<not> isAbs ''d''" "pcomps ''d'' = [''d'']"
  by (auto simp: canon_def nodots_def pcomps_def isAbs_def)

theorem CreateCABundle_content_witness:
  "\<exists>w' a. CreateCABundle ''d'' (sampleWorld certFS) = (Inr [bundleName], w') \<and>
     map_of (wfs w') [''d'', bundleName] = Some (File a (''A'' @ blankLine @ ''B'' @ blankLine))"
proof -
  have "bundleOf certFS [''d''] = ''A'' @ blankLine @ ''B'' @ blankLine" by code_simp
  then show ?thesis
    using CreateCABundle_content [of "sampleWorld certFS" "''d''"] canon_d certFS_facts by auto
qed

text \<open>
  C40. \<open>CreateCABundle\<close> fails for every absolute directory name: \<^verbatim>\<open>os.DirFS("/")\<close> accepts no rooted
  path. Since the timestamped directory lies below the data root, a driver started with the default
  \<^verbatim>\<open>--data-root /csi-data-dir\<close> cannot write any volume.
\<close>

theorem CreateCABundle_absolute:
  assumes "isAbs dir"
  shows "\<exists>e. fst (CreateCABundle dir w) = Inl e"
proof -
  have "\<not> validFSPath dir"
    using assms by (cases dir) (auto simp: isAbs_def validFSPath_def splitc_sep_Cons)
  then have "fsWalkDir dir (bundleVisitor (fjoin dir bundleName) dir) w' = (Inl (Sys EINVAL), w')" for w'
    by (simp add: fsWalkDir_def dirfsOpen_def attempt_def throw_def bundleVisitor_def andThen_def)
  then show ?thesis
    by (auto simp: CreateCABundle_def Let_def andThen_def wrapping_def attempt_def ret_def throw_def
        split: prod.splits sum.splits)
qed

theorem CreateCABundle_absolute_witness:
  "\<exists>e. fst (CreateCABundle ''/csi-data-dir'' (sampleWorld certFS)) = Inl e"
  using CreateCABundle_absolute [of "''/csi-data-dir''"] by (simp add: isAbs_def)

text \<open>
  C39. A certificate that cannot be read is left out of the bundle without an error: here reading
  \<^verbatim>\<open>a\<close> fails with an I/O error, \<open>CreateCABundle\<close> reports success, and the bundle holds \<^verbatim>\<open>b\<close> only.
\<close>

definition failingRead :: world where
  "failingRead = (sampleWorld certFS)\<lparr>faulty := (\<lambda>n. n = 3)\<rparr>"


end
