(* ===== verification/Go_JSON.thy ===== *)
theory Go_JSON
  imports Prelude Go_Path "HOL-Library.Monad_Syntax"
begin

text \<open>
  The part of Go's \<^verbatim>\<open>encoding/json\<close> and \<^verbatim>\<open>unicode/utf8\<close> packages that the storage backends use: strings are
  quoted as \<^verbatim>\<open>json.Marshal\<close> quotes them, and JSON values are parsed as \<^verbatim>\<open>json.Unmarshal\<close> parses them.
  The main fact is that unquoting a quoted string gives it back when it is valid UTF-8.
\<close>

section \<open>UTF-8\<close>

abbreviation byte :: "char \<Rightarrow> nat" where
  "byte c \<equiv> of_char c"

definition cont :: "char \<Rightarrow> bool" where
  "cont c \<longleftrightarrow> 0x80 \<le> byte c \<and> byte c \<le> 0xBF"

definition between :: "nat \<Rightarrow> char \<Rightarrow> nat \<Rightarrow> bool" where
  "between a c b \<longleftrightarrow> a \<le> byte c \<and> byte c \<le> b"

text \<open>The length of the valid encoding a byte string starts with, if it starts with one.\<close>

fun runeLen :: "string \<Rightarrow> nat option" where
  "runeLen [] = None"
| "runeLen (a # s) =
     (if byte a < 0x80 then Some 1
      else if between 0xC2 a 0xDF \<and> (case s of b # _ \<Rightarrow> cont b | _ \<Rightarrow> False) then Some 2
      else if (case s of
          b # c # _ \<Rightarrow> cont c \<and>
            (byte a = 0xE0 \<and> between 0xA0 b 0xBF \<or>
             (between 0xE1 a 0xEC \<or> between 0xEE a 0xEF) \<and> cont b \<or>
             byte a = 0xED \<and> between 0x80 b 0x9F)
        | _ \<Rightarrow> False) then Some 3
      else if (case s of
          b # c # d # _ \<Rightarrow> cont c \<and> cont d \<and>
            (byte a = 0xF0 \<and> between 0x90 b 0xBF \<or>
             between 0xF1 a 0xF3 \<and> cont b \<or>
             byte a = 0xF4 \<and> between 0x80 b 0x8F)
        | _ \<Rightarrow> False) then Some 4
      else None)"

lemma runeLen_bounds: "runeLen s = Some n \<Longrightarrow> 0 < n \<and> n \<le> length s"
  by (cases s) (auto split: if_splits list.splits)

declare runeLen.simps(2) [simp del]

text \<open>\<^verbatim>\<open>utf8.AppendRune\<close> for a valid code point.\<close>

definition encodeRune :: "nat \<Rightarrow> string" where
  "encodeRune n =
     (if n < 0x80 then [char_of n]
      else if n < 0x800 then [char_of (0xC0 + n div 64), char_of (0x80 + n mod 64)]
      else if n < 0x10000 then
        [char_of (0xE0 + n div 4096), char_of (0x80 + n div 64 mod 64), char_of (0x80 + n mod 64)]
      else
        [char_of (0xF0 + n div 262144), char_of (0x80 + n div 4096 mod 64),
         char_of (0x80 + n div 64 mod 64), char_of (0x80 + n mod 64)])"

definition runeError :: string where
  "runeError = encodeRune 0xFFFD"

text \<open>\<^verbatim>\<open>utf8.ValidString\<close>.\<close>

function validUTF8 :: "string \<Rightarrow> bool" where
  "validUTF8 s =
     (if s = [] then True
      else (case runeLen s of None \<Rightarrow> False | Some n \<Rightarrow> validUTF8 (drop n s)))"
  by pat_completeness auto
termination
  by (relation "measure length") (auto dest!: runeLen_bounds)

declare validUTF8.simps [simp del]

section \<open>Quoting\<close>

definition hexdigit :: "nat \<Rightarrow> char" where
  "hexdigit n = ''0123456789abcdef'' ! n"

text \<open>The bytes below 128 that \<^verbatim>\<open>json.Marshal\<close> copies (\<^verbatim>\<open>htmlSafeSet\<close>).\<close>

definition htmlSafe :: "char \<Rightarrow> bool" where
  "htmlSafe c \<longleftrightarrow> 0x20 \<le> byte c \<and> byte c < 0x80 \<and> c \<notin> {CHR 0x22, CHR ''&'', CHR ''<'', CHR ''>'', CHR 0x5C}"

definition escapeByte :: "char \<Rightarrow> string" where
  "escapeByte c = CHR 0x5C #
     (if c = CHR 0x22 \<or> c = CHR 0x5C then [c]
      else if c = CHR 0x0A then ''n''
      else if c = CHR 0x0D then ''r''
      else if c = CHR 0x09 then ''t''
      else ''u00'' @ [hexdigit (byte c div 16), hexdigit (byte c mod 16)])"

definition lineSeps :: "string list" where
  "lineSeps = [encodeRune 0x2028, encodeRune 0x2029]"

function quoteBody :: "string \<Rightarrow> string" where
  "quoteBody s =
     (case s of
        [] \<Rightarrow> []
      | c # r \<Rightarrow>
          if byte c < 0x80
          then (if htmlSafe c then [c] else escapeByte c) @ quoteBody r
          else (case runeLen s of
              None \<Rightarrow> CHR 0x5C # ''ufffd'' @ quoteBody r
            | Some n \<Rightarrow>
                (if take n s = encodeRune 0x2028 then CHR 0x5C # ''u2028''
                 else if take n s = encodeRune 0x2029 then CHR 0x5C # ''u2029''
                 else take n s) @ quoteBody (drop n s)))"
  by pat_completeness auto
termination
  by (relation "measure length") (auto dest!: runeLen_bounds)

declare quoteBody.simps [simp del]

definition quote :: "string \<Rightarrow> string" where
  "quote s = CHR 0x22 # quoteBody s @ [CHR 0x22]"

section \<open>Unquoting\<close>

definition hexval :: "char \<Rightarrow> nat option" where
  "hexval c =
     (if between 0x30 c 0x39 then Some (byte c - 0x30)
      else if between 0x61 c 0x66 then Some (byte c - 0x61 + 10)
      else if between 0x41 c 0x46 then Some (byte c - 0x41 + 10)
      else None)"

fun hex4 :: "string \<Rightarrow> (nat \<times> string) option" where
  "hex4 (a # b # c # d # s) =
     (case (hexval a, hexval b, hexval c, hexval d) of
        (Some w, Some x, Some y, Some z) \<Rightarrow> Some (((w * 16 + x) * 16 + y) * 16 + z, s)
      | _ \<Rightarrow> None)"
| "hex4 _ = None"

lemma hex4_length: "hex4 s = Some (n, t) \<Longrightarrow> length t < length s"
  by (cases s rule: hex4.cases) (auto split: option.splits)

definition simpleEscape :: "char \<Rightarrow> char option" where
  "simpleEscape e = map_of
     [(CHR 0x22, CHR 0x22), (CHR 0x5C, CHR 0x5C), (CHR ''/'', CHR ''/''), (CHR ''b'', CHR 0x08),
      (CHR ''f'', CHR 0x0C), (CHR ''n'', CHR 0x0A), (CHR ''r'', CHR 0x0D), (CHR ''t'', CHR 0x09)] e"

text \<open>The second half of a surrogate pair, when one follows.\<close>

definition lowSurrogate :: "string \<Rightarrow> (nat \<times> string) option" where
  "lowSurrogate s =
     (case s of
        a # b # t \<Rightarrow>
          if a = CHR 0x5C \<and> b = CHR ''u''
          then (case hex4 t of
              Some (n, t') \<Rightarrow> if 0xDC00 \<le> n \<and> n < 0xE000 then Some (n, t') else None
            | None \<Rightarrow> None)
          else None
      | _ \<Rightarrow> None)"

lemma lowSurrogate_length: "lowSurrogate s = Some (n, t) \<Longrightarrow> length t < length s"
  by (auto simp: lowSurrogate_def dest: hex4_length split: list.splits if_splits option.splits prod.splits)

text \<open>
  One character of a string literal: its bytes and what follows it, or \<open>None\<close> where the
  literal is malformed.
\<close>

definition unquoteChar :: "string \<Rightarrow> (string \<times> string) option" where
  "unquoteChar s =
     (case s of
        [] \<Rightarrow> None
      | c # r \<Rightarrow>
          if c = CHR 0x5C then
            (case r of
               [] \<Rightarrow> None
             | e # t \<Rightarrow>
                 if e = CHR ''u'' then
                   (case hex4 t of
                      None \<Rightarrow> None
                    | Some (n, t') \<Rightarrow>
                        if 0xD800 \<le> n \<and> n < 0xE000 then
                          (case lowSurrogate t' of
                             Some (n2, t2) \<Rightarrow>
                               if n < 0xDC00
                               then Some (encodeRune (0x10000 + (n - 0xD800) * 1024 + (n2 - 0xDC00)), t2)
                               else Some (runeError, t')
                           | None \<Rightarrow> Some (runeError, t'))
                        else Some (encodeRune n, t'))
                 else map_option (\<lambda>b. ([b], t)) (simpleEscape e))
          else if byte c < 0x20 then None
          else if byte c < 0x80 then Some ([c], r)
          else (case runeLen s of
              Some n \<Rightarrow> Some (take n s, drop n s)
            | None \<Rightarrow> Some (runeError, r)))"

lemma unquoteChar_length: "unquoteChar s = Some (x, t) \<Longrightarrow> length t < length s"
  by (auto simp: unquoteChar_def dest!: hex4_length lowSurrogate_length runeLen_bounds
      split: list.splits if_splits option.splits prod.splits)

text \<open>The rest of a string literal after the opening quote.\<close>

function unquoteBody :: "string \<Rightarrow> (string \<times> string) option" where
  "unquoteBody s =
     (case s of
        [] \<Rightarrow> None
      | c # r \<Rightarrow>
          if c = CHR 0x22 then Some ([], r)
          else (case unquoteChar s of
              None \<Rightarrow> None
            | Some (x, t) \<Rightarrow> map_option (\<lambda>(y, u). (x @ y, u)) (unquoteBody t)))"
  by pat_completeness auto
termination
  by (relation "measure length") (auto dest: unquoteChar_length)

declare unquoteBody.simps [simp del]

section \<open>Unquoting a quoted string\<close>

lemma hexval_hexdigit: "n < 16 \<Longrightarrow> hexval (hexdigit n) = Some n"
proof -
  assume "n < 16"
  then have "n \<in> set [0..<16]" by simp
  moreover have "\<forall>n \<in> set [0..<16]. hexval (hexdigit n) = Some n" by code_simp
  ultimately show ?thesis by blast
qed

lemma hexval_0: "hexval CHR ''0'' = Some 0"
  by (simp add: hexval_def between_def)

lemma runeLen_take:
  assumes "runeLen s = Some n"
  shows "runeLen (take n s @ t) = Some n"
proof -
  obtain a r where s: "s = a # r" using assms by (cases s) auto
  show ?thesis
    using assms unfolding s
    by (auto simp: runeLen.simps(2) split: if_splits list.splits)
qed

lemma unquoteChar_escape:
  assumes "byte c < 0x80" "\<not> htmlSafe c"
  shows "unquoteChar (escapeByte c @ t) = Some ([c], t)"
proof (cases "c \<in> {CHR 0x22, CHR 0x5C, CHR 0x0A, CHR 0x0D, CHR 0x09}")
  case True
  then show ?thesis by (auto simp: unquoteChar_def escapeByte_def simpleEscape_def)
next
  case False
  have b: "byte c div 16 < 16" "byte c mod 16 < 16" using assms(1) by auto
  have "hex4 (CHR ''0'' # CHR ''0'' # hexdigit (byte c div 16) # hexdigit (byte c mod 16) # t) = Some (byte c, t)"
    using b hexval_hexdigit [of 0] by (simp add: hexval_hexdigit hexval_0)
  moreover have "encodeRune (byte c) = [c]" using assms(1) by (simp add: encodeRune_def)
  ultimately show ?thesis
    using False assms(1) by (simp add: unquoteChar_def escapeByte_def)
qed

lemma unquoteBody_char:
  assumes "s \<noteq> []" "hd s \<noteq> CHR 0x22" "unquoteChar s = Some (x, t)" "unquoteBody t = Some (y, u)"
  shows "unquoteBody s = Some (x @ y, u)"
  using assms by (subst unquoteBody.simps) (auto split: list.splits)

lemma unquoteChar_rune:
  assumes "s = c # r" "\<not> byte c < 0x80" "runeLen s = Some n"
  shows "unquoteChar (take n s @ t) = Some (take n s, t)"
proof -
  have n: "0 < n" "n \<le> length s" using runeLen_bounds assms(3) by blast+
  obtain m where m: "take n s = c # m" using n assms(1) by (cases n) auto
  have "c \<noteq> CHR 0x5C" "\<not> byte c < 0x20" using assms(2) by auto
  moreover have "runeLen (c # m @ t) = Some n" using runeLen_take [OF assms(3), of t] m by simp
  moreover have "take n (c # m @ t) = take n s" "drop n (c # m @ t) = t"
    using m n by (metis append_Cons append_eq_conv_conj length_take min.absorb2)+
  ultimately show ?thesis using assms(2) m by (simp add: unquoteChar_def)
qed

text \<open>Unquoting a quoted string gives the string, and stops at the closing quote.\<close>

theorem unquote_quote:
  "validUTF8 s \<Longrightarrow> unquoteBody (quoteBody s @ CHR 0x22 # t) = Some (s, t)"
proof (induction s rule: quoteBody.induct)
  case (1 s)
  show ?case
  proof (cases s)
    case Nil
    then show ?thesis by (simp add: quoteBody.simps unquoteBody.simps)
  next
    case (Cons c r)
    obtain n where n: "runeLen s = Some n" and v: "validUTF8 (drop n s)"
      using "1.prems" Cons by (subst (asm) validUTF8.simps) (auto split: option.splits)
    show ?thesis
    proof (cases "byte c < 0x80")
      case True
      with n Cons have "n = 1" by (simp add: runeLen.simps(2))
      then have IH: "unquoteBody (quoteBody r @ CHR 0x22 # t) = Some (r, t)"
        using "1.IH"(1) [OF Cons True] v Cons by simp
      have "unquoteChar ((if htmlSafe c then [c] else escapeByte c) @ u) = Some ([c], u)" for u
        using unquoteChar_escape [OF True] True by (auto simp: unquoteChar_def htmlSafe_def)
      moreover have "hd ((if htmlSafe c then [c] else escapeByte c) @ u) \<noteq> CHR 0x22" for u
        by (auto simp: htmlSafe_def escapeByte_def)
      moreover have "quoteBody s = (if htmlSafe c then [c] else escapeByte c) @ quoteBody r"
        using Cons True by (subst quoteBody.simps) simp
      ultimately show ?thesis
        using unquoteBody_char [of "quoteBody s @ CHR 0x22 # t" "[c]" _ r t, OF _ _ _ IH] Cons
        by (auto simp: escapeByte_def)
    next
      case False
      have IH: "unquoteBody (quoteBody (drop n s) @ CHR 0x22 # t) = Some (drop n s, t)"
        using "1.IH"(3) [OF Cons False n] v by simp
      define q where "q = (if take n s = encodeRune 0x2028 then CHR 0x5C # ''u2028''
         else if take n s = encodeRune 0x2029 then CHR 0x5C # ''u2029'' else take n s)"
      have body: "quoteBody s = q @ quoteBody (drop n s)"
        using Cons False n by (subst quoteBody.simps) (simp add: q_def)
      have n0: "0 < n" using runeLen_bounds n by blast
      have hd: "q \<noteq> []" "hd (q @ u) \<noteq> CHR 0x22" for u
        using n0 Cons False by (cases n; auto simp: q_def)+
      have "unquoteChar (q @ u) = Some (take n s, u)" for u
        using unquoteChar_rune [OF Cons False n]
        by (auto simp: q_def unquoteChar_def hexval_def between_def)
      then show ?thesis
        using unquoteBody_char [of "quoteBody s @ CHR 0x22 # t" "take n s" _ "drop n s" t, OF _ _ _ IH] body hd
        by simp
    qed
  qed
qed

section \<open>JSON values\<close>

datatype json =
    JNull
  | JBool bool
  | JNum string
  | JStr string
  | JArr "json list"
  | JObj "(string \<times> json) list"

definition isWS :: "char \<Rightarrow> bool" where
  "isWS c \<longleftrightarrow> c \<in> {CHR '' '', CHR 0x09, CHR 0x0A, CHR 0x0D}"

definition skipWS :: "string \<Rightarrow> string" where
  "skipWS s = dropWhile isWS s"

text \<open>The byte that has to come next, after white space.\<close>

definition expect :: "char \<Rightarrow> string \<Rightarrow> string option" where
  "expect c s = (case skipWS s of [] \<Rightarrow> None | x # r \<Rightarrow> if x = c then Some r else None)"

definition isDigit :: "char \<Rightarrow> bool" where
  "isDigit c \<longleftrightarrow> between 0x30 c 0x39"

definition digits1 :: "string \<Rightarrow> string option" where
  "digits1 s = (case s of c # _ \<Rightarrow> if isDigit c then Some (dropWhile isDigit s) else None | [] \<Rightarrow> None)"

definition numInt :: "string \<Rightarrow> string option" where
  "numInt s = (case s of
       c # r \<Rightarrow> if c = CHR ''0'' then Some r else digits1 s
     | [] \<Rightarrow> None)"

definition numFrac :: "string \<Rightarrow> string option" where
  "numFrac s = (case s of c # r \<Rightarrow> if c = CHR ''.'' then digits1 r else Some s | [] \<Rightarrow> Some s)"

definition numExp :: "string \<Rightarrow> string option" where
  "numExp s = (case s of
       c # r \<Rightarrow>
         if c = CHR ''e'' \<or> c = CHR ''E''
         then (case r of
             d # r' \<Rightarrow> if d = CHR ''+'' \<or> d = CHR ''-'' then digits1 r' else digits1 r
           | [] \<Rightarrow> None)
         else Some s
     | [] \<Rightarrow> Some s)"

definition parseNumber :: "string \<Rightarrow> (json \<times> string) option" where
  "parseNumber s = do {
     t \<leftarrow> numInt (trimPrefix s ''-'');
     u \<leftarrow> numFrac t;
     r \<leftarrow> numExp u;
     Some (JNum (take (length s - length r) s), r) }"

definition parseLit :: "string \<Rightarrow> (json \<times> string) option" where
  "parseLit s =
     (if hasPrefix s ''null'' then Some (JNull, drop 4 s)
      else if hasPrefix s ''true'' then Some (JBool True, drop 4 s)
      else if hasPrefix s ''false'' then Some (JBool False, drop 5 s)
      else parseNumber s)"

text \<open>
  The recursive descent of the decoder. Every call consumes a byte before it recurses, so a bound
  of the length of the input is never reached.
\<close>

fun parseValue :: "nat \<Rightarrow> string \<Rightarrow> (json \<times> string) option"
  and parseMembers :: "nat \<Rightarrow> string \<Rightarrow> ((string \<times> json) list \<times> string) option"
  and parseElems :: "nat \<Rightarrow> string \<Rightarrow> (json list \<times> string) option" where
  "parseValue 0 s = None"
| "parseValue (Suc n) s =
     (case skipWS s of
        [] \<Rightarrow> None
      | c # r \<Rightarrow>
          if c = CHR ''{'' then
            (case expect CHR ''}'' r of
               Some r' \<Rightarrow> Some (JObj [], r')
             | None \<Rightarrow> map_option (\<lambda>(ms, t). (JObj ms, t)) (parseMembers n r))
          else if c = CHR ''['' then
            (case expect CHR '']'' r of
               Some r' \<Rightarrow> Some (JArr [], r')
             | None \<Rightarrow> map_option (\<lambda>(es, t). (JArr es, t)) (parseElems n r))
          else if c = CHR 0x22 then map_option (\<lambda>(x, t). (JStr x, t)) (unquoteBody r)
          else parseLit (c # r))"
| "parseMembers 0 s = None"
| "parseMembers (Suc n) s = do {
     r \<leftarrow> expect CHR 0x22 s;
     (k, t) \<leftarrow> unquoteBody r;
     u \<leftarrow> expect CHR '':'' t;
     (v, x) \<leftarrow> parseValue n u;
     (case expect CHR '','' x of
        Some y \<Rightarrow> do { (ms, z) \<leftarrow> parseMembers n y; Some ((k, v) # ms, z) }
      | None \<Rightarrow> do { y \<leftarrow> expect CHR ''}'' x; Some ([(k, v)], y) }) }"
| "parseElems 0 s = None"
| "parseElems (Suc n) s = do {
     (v, x) \<leftarrow> parseValue n s;
     (case expect CHR '','' x of
        Some y \<Rightarrow> do { (es, z) \<leftarrow> parseElems n y; Some (v # es, z) }
      | None \<Rightarrow> do { y \<leftarrow> expect CHR '']'' x; Some ([v], y) }) }"

text \<open>\<^verbatim>\<open>json.Unmarshal\<close> wants nothing but white space after the value, \<^verbatim>\<open>Decoder.Decode\<close> takes the first.\<close>

definition jsonFirst :: "string \<Rightarrow> json option" where
  "jsonFirst s = map_option fst (parseValue (Suc (length s)) s)"

definition jsonWhole :: "string \<Rightarrow> json option" where
  "jsonWhole s =
     (case parseValue (Suc (length s)) s of
        Some (v, r) \<Rightarrow> if skipWS r = [] then Some v else None
      | None \<Rightarrow> None)"

section \<open>Printing objects\<close>

text \<open>An object whose member values are printed already.\<close>

definition member :: "string \<times> string \<Rightarrow> string" where
  "member = (\<lambda>(k, text). quote k @ CHR '':'' # text)"

definition objText :: "(string \<times> string) list \<Rightarrow> string" where
  "objText ms = CHR ''{'' # joinc CHR '','' (map member ms) @ ''}''"

definition parses :: "nat \<Rightarrow> string \<Rightarrow> json \<Rightarrow> bool" where
  "parses n text v \<longleftrightarrow> (\<forall>m u. n \<le> m \<longrightarrow> parseValue m (text @ u) = Some (v, u))"

lemma expect_here [simp]: "\<not> isWS x \<Longrightarrow> expect c (x # r) = (if x = c then Some r else None)"
  by (simp add: expect_def skipWS_def)

lemma isWS_simps [simp]:
  "\<not> isWS CHR ''{''" "\<not> isWS CHR ''}''" "\<not> isWS CHR '':''" "\<not> isWS CHR '',''" "\<not> isWS CHR 0x22"
  by (simp_all add: isWS_def)

lemma parses_string: "validUTF8 s \<Longrightarrow> parses 1 (quote s) (JStr s)"
proof -
  assume s: "validUTF8 s"
  have "parseValue m (quote s @ u) = Some (JStr s, u)" if "1 \<le> m" for m u
    using that unquote_quote [OF s, of u] by (cases m) (auto simp: quote_def skipWS_def)
  then show ?thesis by (simp add: parses_def)
qed

lemma parseMembers_print:
  assumes "list_all2 (\<lambda>(k, text) (k', v). k = k' \<and> validUTF8 k \<and> parses n text v) ms vs" "ms \<noteq> []" "n + length ms \<le> m"
  shows "parseMembers m (joinc CHR '','' (map member ms) @ CHR ''}'' # u) = Some (vs, u)"
  using assms
proof (induction ms vs arbitrary: m rule: list_all2_induct)
  case (Cons x ms y vs)
  obtain k tx v where xy: "x = (k, tx)" "y = (k, v)" and k: "validUTF8 k" and v: "parses n tx v"
    using Cons.hyps(1) by (cases x; cases y) auto
  obtain m' where m: "m = Suc m'" "n + length ms \<le> m'" using Cons.prems by (cases m) auto
  have val: "parseValue m' (tx @ r) = Some (v, r)" for r using v m by (simp add: parses_def)
  have key: "unquoteBody (quoteBody k @ CHR 0x22 # r) = Some (k, r)" for r by (rule unquote_quote [OF k])
  show ?case
  proof (cases ms)
    case Nil
    then show ?thesis using Cons.hyps(2) xy m val key by (simp add: member_def quote_def)
  next
    case (Cons z zs)
    then have "parseMembers m' (joinc CHR '','' (map member ms) @ CHR ''}'' # u) = Some (vs, u)"
      using Cons.IH m by simp
    with Cons xy m val key show ?thesis by (simp add: member_def quote_def)
  qed
qed simp

lemma parses_object:
  assumes "list_all2 (\<lambda>(k, text) (k', v). k = k' \<and> validUTF8 k \<and> parses n text v) ms vs"
  shows "parses (Suc (n + length ms)) (objText ms) (JObj vs)"
  unfolding parses_def
proof (intro allI impI)
  fix m u assume "Suc (n + length ms) \<le> m"
  then obtain m' where m: "m = Suc m'" "n + length ms \<le> m'" by (cases m) auto
  show "parseValue m (objText ms @ u) = Some (JObj vs, u)"
  proof (cases ms)
    case Nil
    then show ?thesis using assms m by (simp add: objText_def skipWS_def)
  next
    case (Cons x xs)
    obtain r where r: "joinc CHR '','' (map member ms) @ CHR ''}'' # u = CHR 0x22 # r"
      using Cons by (cases xs; cases x) (auto simp: member_def quote_def)
    have "parseMembers m' (joinc CHR '','' (map member ms) @ CHR ''}'' # u) = Some (vs, u)"
      by (rule parseMembers_print [OF assms]) (use Cons m in auto)
    with r m show ?thesis by (simp add: objText_def skipWS_def)
  qed
qed

lemma parses_whole:
  assumes "parses n text v" "n \<le> Suc (length text)"
  shows "jsonWhole text = Some v" "jsonFirst text = Some v"
proof -
  have "parseValue (Suc (length text)) (text @ []) = Some (v, [])"
    using assms unfolding parses_def by blast
  then show "jsonWhole text = Some v" "jsonFirst text = Some v"
    by (simp_all add: jsonWhole_def jsonFirst_def skipWS_def)
qed

end
