(* ===== verification/Metadata.thy ===== *)
theory Metadata
  imports Go_JSON
begin

text \<open>
  Model of \<^verbatim>\<open>pkg/metadata/metadata.go\<close> and of how \<^verbatim>\<open>encoding/json\<close> writes and reads a \<^verbatim>\<open>Metadata\<close>
  value: the record, the constructor from a publish request, and the round trip through JSON.
\<close>

record Metadata =
  VolumeID :: string
  TargetPath :: string
  VolumeContext :: "string gomap"

text \<open>The fields of a \<^verbatim>\<open>csi.NodePublishVolumeRequest\<close> that the driver reads.\<close>

record NodePublishVolumeRequest =
  VolumeId :: string
  Target :: string
  Context :: "string gomap"
  Readonly :: bool

definition FromNodePublishVolumeRequest :: "NodePublishVolumeRequest \<Rightarrow> Metadata" where
  "FromNodePublishVolumeRequest request =
     \<lparr>VolumeID = VolumeId request, TargetPath = Target request, VolumeContext = Context request\<rparr>"

definition zeroMetadata :: Metadata where
  "zeroMetadata = \<lparr>VolumeID = [], TargetPath = [], VolumeContext = []\<rparr>"

section \<open>Marshalling\<close>

text \<open>\<^verbatim>\<open>json.Marshal(meta)\<close>: map keys are sorted, an empty volume context is omitted.\<close>

definition sortKeys :: "string gomap \<Rightarrow> string gomap" where
  "sortKeys m = sort_key fst m"

definition marshalMeta :: "Metadata \<Rightarrow> string" where
  "marshalMeta meta = objText
     ([(''volumeID'', quote (VolumeID meta)), (''targetPath'', quote (TargetPath meta))] @
      (if VolumeContext meta = [] then []
       else [(''volumeContext'', objText (map (\<lambda>(k, v). (k, quote v)) (sortKeys (VolumeContext meta))))]))"

section \<open>Unmarshalling\<close>

text \<open>Field names match exactly or up to the case of letters.\<close>

definition upper :: "char \<Rightarrow> char" where
  "upper c = (if between 0x61 c 0x7A then char_of (byte c - 0x20) else c)"

definition foldEq :: "string \<Rightarrow> string \<Rightarrow> bool" where
  "foldEq name key \<longleftrightarrow> map upper name = map upper key"

text \<open>A string field takes a string; \<^verbatim>\<open>null\<close> leaves it unchanged; anything else is a type error.\<close>

fun strValue :: "json \<Rightarrow> string \<Rightarrow> string option" where
  "strValue (JStr s) old = Some s"
| "strValue JNull old = Some old"
| "strValue _ old = None"

fun ctxMembers :: "(string \<times> json) list \<Rightarrow> string gomap \<Rightarrow> string gomap option" where
  "ctxMembers [] m = Some m"
| "ctxMembers ((k, v) # ms) m =
     (case strValue v [] of None \<Rightarrow> None | Some s \<Rightarrow> ctxMembers ms (mput k s m))"

fun ctxValue :: "json \<Rightarrow> string gomap \<Rightarrow> string gomap option" where
  "ctxValue (JObj ms) old = ctxMembers ms old"
| "ctxValue JNull old = Some []"
| "ctxValue _ old = None"

definition setField :: "string \<Rightarrow> json \<Rightarrow> Metadata \<Rightarrow> Metadata option" where
  "setField key v meta =
     (if foldEq ''volumeID'' key
      then map_option (\<lambda>s. meta\<lparr>VolumeID := s\<rparr>) (strValue v (VolumeID meta))
      else if foldEq ''targetPath'' key
      then map_option (\<lambda>s. meta\<lparr>TargetPath := s\<rparr>) (strValue v (TargetPath meta))
      else if foldEq ''volumeContext'' key
      then map_option (\<lambda>m. meta\<lparr>VolumeContext := m\<rparr>) (ctxValue v (VolumeContext meta))
      else Some meta)"

fun setFields :: "(string \<times> json) list \<Rightarrow> Metadata \<Rightarrow> Metadata option" where
  "setFields [] meta = Some meta"
| "setFields ((k, v) # ms) meta =
     (case setField k v meta of None \<Rightarrow> None | Some meta' \<Rightarrow> setFields ms meta')"

fun metaOfJSON :: "json \<Rightarrow> Metadata option" where
  "metaOfJSON (JObj ms) = setFields ms zeroMetadata"
| "metaOfJSON JNull = Some zeroMetadata"
| "metaOfJSON _ = None"

text \<open>\<^verbatim>\<open>json.Unmarshal(data, &meta)\<close> and \<^verbatim>\<open>json.NewDecoder(file).Decode(&meta)\<close>, \<open>None\<close> on an error.\<close>

definition unmarshalMeta :: "string \<Rightarrow> Metadata option" where
  "unmarshalMeta s = Option.bind (jsonWhole s) metaOfJSON"

definition decodeMeta :: "string \<Rightarrow> Metadata option" where
  "decodeMeta s = Option.bind (jsonFirst s) metaOfJSON"

section \<open>Round trip\<close>

text \<open>Metadata that JSON can carry: valid UTF-8, and the map has each key once.\<close>

definition meta_ok :: "Metadata \<Rightarrow> bool" where
  "meta_ok meta \<longleftrightarrow> validUTF8 (VolumeID meta) \<and> validUTF8 (TargetPath meta) \<and>
     (\<forall>(k, v) \<in> set (VolumeContext meta). validUTF8 k \<and> validUTF8 v) \<and> distinct (mkeys (VolumeContext meta))"

definition sortedMeta :: "Metadata \<Rightarrow> Metadata" where
  "sortedMeta meta = meta\<lparr>VolumeContext := sortKeys (VolumeContext meta)\<rparr>"

lemma sortKeys_facts:
  "set (sortKeys m) = set m" "distinct (mkeys m) \<Longrightarrow> distinct (mkeys (sortKeys m))" "length (sortKeys m) = length m"
proof -
  show "distinct (mkeys m) \<Longrightarrow> distinct (mkeys (sortKeys m))"
    unfolding sortKeys_def by (metis distinct_map distinct_sort set_sort)
qed (simp_all add: sortKeys_def)

lemma sortKeys_Nil [simp]: "sortKeys m = [] \<longleftrightarrow> m = []"
  using sortKeys_facts(3) [of m] by (metis length_0_conv)

lemma map_of_sortKeys: "distinct (mkeys m) \<Longrightarrow> map_of (sortKeys m) = map_of m"
  by (rule map_of_inject_set [THEN iffD2]) (auto simp: sortKeys_facts)

lemma update_fresh: "k \<notin> set (mkeys m) \<Longrightarrow> mput k v m = m @ [(k, v)]"
  by (induction m) auto

lemma ctxMembers_strings:
  "distinct (mkeys (acc @ m)) \<Longrightarrow> ctxMembers (map (\<lambda>(k, v). (k, JStr v)) m) acc = Some (acc @ m)"
proof (induction m arbitrary: acc)
  case (Cons kv m)
  obtain k v where kv: "kv = (k, v)" by fastforce
  then have "mput k v acc = acc @ [(k, v)]" using Cons.prems by (intro update_fresh) auto
  then show ?case using Cons.IH [of "acc @ [(k, v)]"] Cons.prems kv by simp
qed simp

lemma validUTF8_ascii: "(\<forall>c \<in> set s. byte c < 0x80) \<Longrightarrow> validUTF8 s"
proof (induction s)
  case (Cons c s)
  then have "runeLen (c # s) = Some 1" by (simp add: runeLen.simps(2))
  with Cons show ?case by (subst validUTF8.simps) simp
qed (simp add: validUTF8.simps)

lemma validUTF8_names:
  "validUTF8 ''volumeID''" "validUTF8 ''targetPath''" "validUTF8 ''volumeContext''"
  by (rule validUTF8_ascii; simp)+

lemma length_joinc: "length ms \<le> Suc (length (joinc c (map member ms)))"
  by (induction ms rule: induct_list012) (auto simp: member_def quote_def split: prod.splits)

lemma length_objText: "length ms \<le> length (objText ms)"
  using length_joinc [of ms "CHR '',''"] by (simp add: objText_def)

lemma parses_mono: "parses n s v \<Longrightarrow> n \<le> n' \<Longrightarrow> parses n' s v"
  unfolding parses_def using order_trans by blast

text \<open>The values that the members of a marshalled metadata parse to.\<close>

definition metaJSON :: "Metadata \<Rightarrow> json" where
  "metaJSON meta = JObj
     ([(''volumeID'', JStr (VolumeID meta)), (''targetPath'', JStr (TargetPath meta))] @
      (if VolumeContext meta = [] then []
       else [(''volumeContext'', JObj (map (\<lambda>(k, v). (k, JStr v)) (sortKeys (VolumeContext meta))))]))"

lemma parses_context:
  assumes "\<forall>(k, v) \<in> set m. validUTF8 k \<and> validUTF8 v"
  shows "parses (2 + length m) (objText (map (\<lambda>(k, v). (k, quote v)) m)) (JObj (map (\<lambda>(k, v). (k, JStr v)) m))"
proof -
  have "list_all2 (\<lambda>(k, text) (k', v). k = k' \<and> validUTF8 k \<and> parses 1 text v)
      (map (\<lambda>(k, v). (k, quote v)) m) (map (\<lambda>(k, v). (k, JStr v)) m)"
    using assms by (induction m) (auto simp: parses_string [simplified])
  from parses_object [OF this] show ?thesis by simp
qed

lemma parses_meta:
  assumes "meta_ok meta"
  shows "parses (6 + length (VolumeContext meta)) (marshalMeta meta) (metaJSON meta)"
proof -
  let ?n = "2 + length (VolumeContext meta)"
  have str: "parses ?n (quote s) (JStr s)" if "validUTF8 s" for s
    using parses_mono [OF parses_string [OF that]] by simp
  have ctx: "parses ?n (objText (map (\<lambda>(k, v). (k, quote v)) (sortKeys (VolumeContext meta))))
      (JObj (map (\<lambda>(k, v). (k, JStr v)) (sortKeys (VolumeContext meta))))"
    using parses_context [of "sortKeys (VolumeContext meta)"] assms by (simp add: sortKeys_facts meta_ok_def)
  let ?ms = "[(''volumeID'', quote (VolumeID meta)), (''targetPath'', quote (TargetPath meta))] @
      (if VolumeContext meta = [] then []
       else [(''volumeContext'', objText (map (\<lambda>(k, v). (k, quote v)) (sortKeys (VolumeContext meta))))])"
  have "parses (Suc (?n + length ?ms)) (marshalMeta meta) (metaJSON meta)"
    unfolding marshalMeta_def metaJSON_def
    by (rule parses_object) (use str ctx validUTF8_names assms in \<open>auto simp: meta_ok_def\<close>)
  then show ?thesis by (rule parses_mono) simp
qed

lemma length_marshalMeta: "6 + length (VolumeContext meta) \<le> Suc (length (marshalMeta meta))"
proof -
  have "length (VolumeContext meta) \<le> length (objText (map (\<lambda>(k, v). (k, quote v)) (sortKeys (VolumeContext meta))))"
    using length_objText [of "map (\<lambda>(k, v). (k, quote v)) (sortKeys (VolumeContext meta))"] sortKeys_facts(3) by simp
  then show ?thesis
    by (cases "VolumeContext meta = []") (auto simp: marshalMeta_def objText_def member_def quote_def)
qed

lemma metaOfJSON_metaJSON: "meta_ok meta \<Longrightarrow> metaOfJSON (metaJSON meta) = Some (sortedMeta meta)"
  using ctxMembers_strings [of "[]" "sortKeys (VolumeContext meta)"] sortKeys_facts(2) [of "VolumeContext meta"]
  by (auto simp: metaJSON_def setField_def foldEq_def upper_def between_def zeroMetadata_def sortedMeta_def
      meta_ok_def sortKeys_def)

lemma marshal_round_trip:
  assumes "meta_ok meta"
  shows "unmarshalMeta (marshalMeta meta) = Some (sortedMeta meta)"
    and "decodeMeta (marshalMeta meta) = Some (sortedMeta meta)"
  using parses_whole [OF parses_meta [OF assms] length_marshalMeta] metaOfJSON_metaJSON [OF assms]
  by (simp_all add: unmarshalMeta_def decodeMeta_def)

text \<open>
  C24. Metadata written to disk is read back as it was written, by both readers: marshalling valid
  UTF-8 metadata and decoding it gives the same volume, target path and volume context.
\<close>

theorem metadata_json_round_trip:
  assumes "meta_ok meta"
  shows "\<exists>meta'. unmarshalMeta (marshalMeta meta) = Some meta' \<and> decodeMeta (marshalMeta meta) = Some meta' \<and>
    VolumeID meta' = VolumeID meta \<and> TargetPath meta' = TargetPath meta \<and>
    map_of (VolumeContext meta') = map_of (VolumeContext meta)"
  using marshal_round_trip [OF assms] map_of_sortKeys [of "VolumeContext meta"] assms
  by (simp add: sortedMeta_def meta_ok_def)

definition sampleMeta :: Metadata where
  "sampleMeta = \<lparr>VolumeID = ''vol-1'', TargetPath = ''/t'',
     VolumeContext = [(''x'', [CHR 0x22, CHR 0x0A, CHR 0xC3, CHR 0xA9]), (''a'', ''<&>'')]\<rparr>"

theorem metadata_json_round_trip_witness:
  "meta_ok sampleMeta \<and> (\<exists>meta'. decodeMeta (marshalMeta sampleMeta) = Some meta' \<and>
     map_of (VolumeContext meta') ''a'' = Some ''<&>'')"
proof -
  have "meta_ok sampleMeta" by code_simp
  moreover have "map_of (VolumeContext sampleMeta) ''a'' = Some ''<&>''" by (simp add: sampleMeta_def)
  ultimately show ?thesis using metadata_json_round_trip [of sampleMeta] by auto
qed

end
