(* ===== verification/Storage_Interface.thy ===== *)
theory Storage_Interface
  imports Metadata
begin

text \<open>
  The contract of \<^verbatim>\<open>storage.Interface\<close> (\<^verbatim>\<open>pkg/storage/interfaces.go\<close>) as a locale: a store abstracts to a
  map from volume IDs to metadata, and each operation acts on that map. The clients of the interface,
  the manager and the node server, rest on the lemmas of the locale. Both backends are interpreted in
  their own theories.
\<close>

text \<open>
  \<open>ok\<close> is the invariant of the backend, \<open>metas\<close> its abstraction, \<open>valid_id\<close> the volume IDs it can
  keep apart.
\<close>

locale metadata_store =
  fixes ok :: "'s \<Rightarrow> bool"
    and metas :: "'s \<Rightarrow> string \<Rightarrow> Metadata option"
    and valid_id :: "string \<Rightarrow> bool"
    and readMetadata :: "string \<Rightarrow> ('s, Metadata) io"
    and listVolumes :: "('s, string list) io"
    and registerMetadata :: "Metadata \<Rightarrow> ('s, bool) io"
    and removeVolume :: "string \<Rightarrow> ('s, unit) io"
  assumes metas_valid: "ok s \<Longrightarrow> metas s v = Some m \<Longrightarrow> valid_id v"
    and read_found: "ok s \<Longrightarrow> metas s v = Some m \<Longrightarrow>
      \<exists>s'. readMetadata v s = (Inr m, s') \<and> ok s' \<and> metas s' = metas s"
    and read_missing: "ok s \<Longrightarrow> valid_id v \<Longrightarrow> metas s v = None \<Longrightarrow>
      \<exists>e s'. readMetadata v s = (Inl e, s') \<and> errors_Is e ErrNotFound \<and> ok s' \<and> metas s' = metas s"
    and list_all: "ok s \<Longrightarrow>
      \<exists>vs s'. listVolumes s = (Inr vs, s') \<and> set vs = dom (metas s) \<and> ok s' \<and> metas s' = metas s"
    and register_meta: "ok s \<Longrightarrow> valid_id (VolumeID meta) \<Longrightarrow> meta_ok meta \<Longrightarrow>
      \<exists>m s'. registerMetadata meta s =
          (Inr (\<not> (\<exists>m0. metas s (VolumeID meta) = Some m0 \<and>
                   map_of (VolumeContext m0) = map_of (VolumeContext meta))), s') \<and>
        ok s' \<and> metas s' = (metas s)(VolumeID meta \<mapsto> m) \<and>
        map_of (VolumeContext m) = map_of (VolumeContext meta)"
    and remove_volume: "ok s \<Longrightarrow> valid_id v \<Longrightarrow>
      \<exists>s'. removeVolume v s = (Inr (), s') \<and> ok s' \<and> metas s' = (metas s)(v := None)"
begin

text \<open>Metadata that was registered is found, with the volume context of the request.\<close>

lemma register_then_read:
  assumes "ok s" "valid_id (VolumeID meta)" "meta_ok meta"
  obtains b s' m s'' where "registerMetadata meta s = (Inr b, s')" "readMetadata (VolumeID meta) s' = (Inr m, s'')"
    "map_of (VolumeContext m) = map_of (VolumeContext meta)"
proof -
  obtain m b s' where "registerMetadata meta s = (Inr b, s')" "ok s'" "metas s' = (metas s)(VolumeID meta \<mapsto> m)"
    "map_of (VolumeContext m) = map_of (VolumeContext meta)"
    using register_meta [OF assms] by blast
  with that read_found [of s' "VolumeID meta" m] show thesis by fastforce
qed

text \<open>Registering the same metadata again writes nothing.\<close>

lemma register_again:
  assumes "ok s" "valid_id (VolumeID meta)" "meta_ok meta" "registerMetadata meta s = (Inr b, s')"
  shows "fst (registerMetadata meta s') = Inr False"
proof -
  obtain m where "ok s'" "metas s' = (metas s)(VolumeID meta \<mapsto> m)"
    "map_of (VolumeContext m) = map_of (VolumeContext meta)"
    using register_meta [OF assms(1-3)] assms(4) by auto
  then show ?thesis using register_meta [of s' meta] assms(2,3) by auto
qed

text \<open>A removed volume is not found, and the other volumes stay.\<close>

lemma remove_then_read:
  assumes "ok s" "valid_id v"
  obtains s' e s'' where "removeVolume v s = (Inr (), s')" "readMetadata v s' = (Inl e, s'')"
    "errors_Is e ErrNotFound" "\<And>v'. v' \<noteq> v \<Longrightarrow> metas s' v' = metas s v'"
proof -
  obtain s' where s': "removeVolume v s = (Inr (), s')" "ok s'" "metas s' = (metas s)(v := None)"
    using remove_volume [OF assms] by blast
  with that read_missing [OF s'(2) assms(2)] show thesis by fastforce
qed

end

end
