(* ===== verification/Storage_Filesystem.thy ===== *)
theory Storage_Filesystem
  imports Atomic_Writer Linux_TLS Storage_Interface
begin

text \<open>
  Model of \<^verbatim>\<open>pkg/storage/filesystem.go\<close>: the backend that keeps every volume below
  \<^verbatim>\<open><baseDir>/inmemfs\<close>, its metadata in \<^verbatim>\<open>metadata.json\<close> and its files, through the atomic writer, in
  \<^verbatim>\<open>data\<close>. Parameters stand for code outside the repository: \<open>deepEqual\<close> for
  \<^verbatim>\<open>apiequality.Semantic.DeepEqual\<close>, \<open>rehash\<close> for the command \<^verbatim>\<open>openssl rehash\<close>, and a record for the mounter.
\<close>

section \<open>Data\<close>

definition readWriteUserFileMode :: mode where
  "readWriteUserFileMode = 0x180"

definition readOnlyUserAndGroupFileMode :: mode where
  "readOnlyUserAndGroupFileMode = 0x120"

record Filesystem =
  baseDir :: string
  FixedFSGroup :: "int option"
  FSGroupVolumeAttributeKey :: string

text \<open>
  The methods of \<^verbatim>\<open>mount.Interface\<close> that the driver calls. \<^verbatim>\<open>IsMountPoint\<close> returns its flag together
  with the error.
\<close>

record 'e mounter =
  IsMountPoint :: "string \<Rightarrow> 'e \<Rightarrow> (bool \<times> goerr option) \<times> 'e"
  Mount :: "string \<Rightarrow> string \<Rightarrow> string \<Rightarrow> string list \<Rightarrow> ('e, unit) io"
  Unmount :: "string \<Rightarrow> ('e, unit) io"

section \<open>Paths\<close>

definition tempfsPath :: "Filesystem \<Rightarrow> string" where
  "tempfsPath f = fjoin (baseDir f) ''inmemfs''"

definition volumePath :: "Filesystem \<Rightarrow> string \<Rightarrow> string" where
  "volumePath f vid = fjoin (tempfsPath f) vid"

definition dataPathForVolumeID :: "Filesystem \<Rightarrow> string \<Rightarrow> string" where
  "dataPathForVolumeID f vid = fjoin (volumePath f vid) ''data''"

definition metadataPathForVolumeID :: "Filesystem \<Rightarrow> string \<Rightarrow> string" where
  "metadataPathForVolumeID f vid = fjoin (volumePath f vid) ''metadata.json''"

definition PathForVolume :: "Filesystem \<Rightarrow> string \<Rightarrow> string" where
  "PathForVolume f volumeID = dataPathForVolumeID f volumeID"

section \<open>Construction\<close>

definition NewFilesystem :: "world mounter \<Rightarrow> string \<Rightarrow> Filesystem os" where
  "NewFilesystem mounter base =
     (let f = \<lparr>baseDir = base, FixedFSGroup = None, FSGroupVolumeAttributeKey = []\<rparr>
      in (\<lambda>w. case IsMountPoint mounter (tempfsPath f) w of ((isMnt, err), w') \<Rightarrow>
           andThen
             (case err of
                None \<Rightarrow> ret ()
              | Some e \<Rightarrow>
                  if \<not> isNotExist e then throw e else osMkdirAll (tempfsPath f) 0x1C0)
             (\<lambda>_. andThen
               (if \<not> isMnt
                then wrapping ''mounting tmpfs'' (Mount mounter ''tmpfs'' (tempfsPath f) ''tmpfs'' [])
                else ret ())
               (\<lambda>_. ret f)) w'))"

section \<open>Volumes and metadata\<close>

definition RemoveVolume :: "Filesystem \<Rightarrow> string \<Rightarrow> unit os" where
  "RemoveVolume f volumeID = osRemoveAll (fjoin (tempfsPath f) volumeID)"

definition ListVolumes :: "Filesystem \<Rightarrow> string list os" where
  "ListVolumes f =
     andThen (wrapping ''listing volumes'' (dirfsReadDir (tempfsPath f))) (\<lambda>dirs.
       for_acc (\<lambda>dir vols.
         andThen (dirfsOpen (metadataPathForVolumeID f dir)) (\<lambda>_. ret (vols @ [dir]))) dirs [])"

text \<open>
  The open file is read by its path. The comparison of the error of \<^verbatim>\<open>Stat\<close> with \<^verbatim>\<open>os.ErrNotExist\<close>
  never holds, since \<^verbatim>\<open>Stat\<close> returns a \<^verbatim>\<open>*PathError\<close>; every error of \<^verbatim>\<open>Stat\<close> takes the second branch.
\<close>

definition ReadMetadata :: "Filesystem \<Rightarrow> string \<Rightarrow> Metadata os" where
  "ReadMetadata f volumeID =
     (let p = metadataPathForVolumeID f volumeID
      in attempt (dirfsOpen p) (\<lambda>r. case r of
           Inl _ \<Rightarrow> throw (Wrap ''reading metadata file'' ErrNotFound)
         | Inr _ \<Rightarrow> attempt (osStat (sep # p)) (\<lambda>r. case r of
             Inl _ \<Rightarrow> throw (Msg ''reading metadata file'')
           | Inr _ \<Rightarrow> attempt (osReadFile (sep # p)) (\<lambda>r. case r of
               Inl _ \<Rightarrow> throw (Wrap ''reading metadata file'' ErrInvalidJSON)
             | Inr content \<Rightarrow>
                 (case decodeMeta content of
                    None \<Rightarrow> throw (Wrap ''reading metadata file'' ErrInvalidJSON)
                  | Some meta \<Rightarrow> ret meta)))))"

definition WriteMetadata :: "Filesystem \<Rightarrow> string \<Rightarrow> Metadata \<Rightarrow> unit os" where
  "WriteMetadata f volumeID meta =
     osWriteFile (metadataPathForVolumeID f volumeID) (marshalMeta meta) readWriteUserFileMode"

definition ensureVolumeDirectory :: "Filesystem \<Rightarrow> string \<Rightarrow> unit os" where
  "ensureVolumeDirectory f volumeID =
     andThen (osMkdirAll (volumePath f volumeID) 0x1A4) (\<lambda>_.
       osMkdirAll (dataPathForVolumeID f volumeID) 0x168)"

definition RegisterMetadata ::
  "(string gomap \<Rightarrow> string gomap \<Rightarrow> bool) \<Rightarrow> Filesystem \<Rightarrow> Metadata \<Rightarrow> bool os" where
  "RegisterMetadata deepEqual f meta =
     attempt (ReadMetadata f (VolumeID meta)) (\<lambda>r.
       if (case r of Inl err \<Rightarrow> errors_Is err ErrNotFound | Inr _ \<Rightarrow> False)
       then andThen (ensureVolumeDirectory f (VolumeID meta)) (\<lambda>_.
            andThen (WriteMetadata f (VolumeID meta) meta) (\<lambda>_. ret True))
       else
         let existingMeta = (case r of Inl _ \<Rightarrow> zeroMetadata | Inr m \<Rightarrow> m)
         in if \<not> deepEqual (VolumeContext existingMeta) (VolumeContext meta)
            then andThen (ensureVolumeDirectory f (VolumeID meta)) (\<lambda>_.
                 let existingMeta' = existingMeta\<lparr>VolumeContext := VolumeContext meta\<rparr>
                 in andThen (WriteMetadata f (VolumeID existingMeta') existingMeta') (\<lambda>_. ret True))
            else ret False)"

section \<open>Files\<close>

text \<open>\<^verbatim>\<open>strconv.ParseInt(s, 10, 64)\<close>.\<close>

fun digitsValue :: "string \<Rightarrow> nat \<Rightarrow> nat option" where
  "digitsValue [] acc = Some acc"
| "digitsValue (c # s) acc = (if isDigit c then digitsValue s (acc * 10 + (byte c - 0x30)) else None)"

definition parseInt64 :: "string \<Rightarrow> goerr + int" where
  "parseInt64 s =
     (let neg = hasPrefix s ''-'';
          body = (if hasPrefix s ''-'' \<or> hasPrefix s ''+'' then tl s else s)
      in if body = [] then Inl (Msg ''invalid syntax'')
         else case digitsValue body 0 of
             None \<Rightarrow> Inl (Msg ''invalid syntax'')
           | Some n \<Rightarrow>
               let i = (if neg then - int n else int n)
               in if i < - (2 ^ 63) \<or> i \<ge> 2 ^ 63 then Inl (Msg ''value out of range'') else Inr i)"

definition fsGroupForMetadata :: "Filesystem \<Rightarrow> Metadata \<Rightarrow> goerr + int option" where
  "fsGroupForMetadata f meta =
     (case FixedFSGroup f of
        Some g \<Rightarrow> Inr (Some g)
      | None \<Rightarrow>
          if FSGroupVolumeAttributeKey f = [] then Inr None
          else (case mget (VolumeContext meta) (FSGroupVolumeAttributeKey f) of
              None \<Rightarrow> Inr None
            | Some fsGroupStr \<Rightarrow>
                (case parseInt64 fsGroupStr of
                   Inl e \<Rightarrow> Inl (Wrap ''failed to parse, value must be a valid integer'' e)
                 | Inr fsGroup \<Rightarrow>
                     if fsGroup \<le> 0 \<or> fsGroup > 4294967295
                     then Inl (Msg ''gid value must be greater than 0 and less than 4294967295'')
                     else Inr (Some fsGroup))))"

definition makePayload :: "string gomap \<Rightarrow> payload" where
  "makePayload inp =
     map (\<lambda>(name, content). (name, \<lparr>Data = content, Mode = readOnlyUserAndGroupFileMode, FsUser = None\<rparr>)) inp"

definition WriteFiles :: "(string \<Rightarrow> unit os) \<Rightarrow> Filesystem \<Rightarrow> Metadata \<Rightarrow> string gomap \<Rightarrow> unit os" where
  "WriteFiles rehash f meta files =
     andThen (ensureVolumeDirectory f (VolumeID meta)) (\<lambda>_.
     andThen (lift_res (fsGroupForMetadata f meta)) (\<lambda>fsGroup.
     andThen (case fsGroup of
         None \<Rightarrow> ret ()
       | Some g \<Rightarrow> wrapping ''failed to chown data dir''
                     (osChown (dataPathForVolumeID f (VolumeID meta)) (-1) g)) (\<lambda>_.
     andThen (NewAtomicWriter (dataPathForVolumeID f (VolumeID meta)) (''volumeID '' @ VolumeID meta)) (\<lambda>writer.
     andThen (Write writer (makePayload files) (DirFuncsForVolume rehash)) (\<lambda>_.
       let dirName = fjoin (dataPathForVolumeID f (VolumeID meta)) ''..data''
       in case fsGroup of
            None \<Rightarrow> ret ()
          | Some g \<Rightarrow> andThen (map_range (mkeys files)) (\<lambda>names.
              for_each (\<lambda>filename. osChown (fjoin dirName filename) (-1) g) names))))))"

definition ReadFile :: "Filesystem \<Rightarrow> string \<Rightarrow> string \<Rightarrow> string os" where
  "ReadFile f volumeID name =
     (let p = fjoin (dataPathForVolumeID f volumeID) name
      in attempt (dirfsOpen p) (\<lambda>r. case r of
           Inl _ \<Rightarrow> throw ErrNotFound
         | Inr _ \<Rightarrow> osReadFile (sep # p)))"

end
