(* ===== verification/Storage_Memory.thy ===== *)
theory Storage_Memory
  imports Storage_Interface
begin

text \<open>
  Model of \<^verbatim>\<open>pkg/storage/memory.go\<close>: the in-memory backend. Every method holds the lock for its whole
  body, so each is one step on the state. The argument \<open>deepEqual\<close> stands for
  \<^verbatim>\<open>apiequality.Semantic.DeepEqual\<close> of the Kubernetes API machinery.
\<close>

record MemoryFS =
  files :: "string gomap gomap"

definition NewMemoryFS :: MemoryFS where
  "NewMemoryFS = \<lparr>files = []\<rparr>"

type_synonym 'a mem = "(MemoryFS, 'a) io"

definition metadataFile :: string where
  "metadataFile = ''metadata.json''"

definition memPathForVolume :: "string \<Rightarrow> MemoryFS \<Rightarrow> string" where
  "memPathForVolume volumeID m = volumeID"

definition memRemoveVolume :: "string \<Rightarrow> unit mem" where
  "memRemoveVolume volumeID m = (Inr (), m\<lparr>files := mdel volumeID (files m)\<rparr>)"

definition memReadMetadata :: "string \<Rightarrow> Metadata mem" where
  "memReadMetadata volumeID m =
     (case mget (files m) volumeID of
        None \<Rightarrow> (Inl ErrNotFound, m)
      | Some volMap \<Rightarrow>
          (case mget volMap metadataFile of
             None \<Rightarrow> (Inl ErrNotFound, m)
           | Some metaFile \<Rightarrow>
               (case unmarshalMeta metaFile of
                  None \<Rightarrow> (Inl ErrInvalidJSON, m)
                | Some meta \<Rightarrow> (Inr meta, m))))"

text \<open>The order in which Go iterates over the map is unspecified; so is the order of this list.\<close>

definition memListVolumes :: "string list mem" where
  "memListVolumes m = (Inr (remdups (mkeys (files m))), m)"

definition memWriteMetadata :: "string \<Rightarrow> Metadata \<Rightarrow> unit mem" where
  "memWriteMetadata volumeID meta m =
     (case mget (files m) volumeID of
        None \<Rightarrow> (Inl ErrNotFound, m)
      | Some vol \<Rightarrow> (Inr (), m\<lparr>files := mput volumeID (mput metadataFile (marshalMeta meta) vol) (files m)\<rparr>))"

definition memRegisterMetadata :: "(string gomap \<Rightarrow> string gomap \<Rightarrow> bool) \<Rightarrow> Metadata \<Rightarrow> bool mem" where
  "memRegisterMetadata deepEqual meta m =
     (let vol = (case mget (files m) (VolumeID meta) of None \<Rightarrow> [] | Some vol \<Rightarrow> vol);
          m1 = m\<lparr>files := mput (VolumeID meta) vol (files m)\<rparr>;
          m2 = m1\<lparr>files := mput (VolumeID meta) (mput metadataFile (marshalMeta meta) vol) (files m1)\<rparr>
      in case mget vol metadataFile of
           None \<Rightarrow> (Inr True, m2)
         | Some existingMetaJSON \<Rightarrow>
             (case unmarshalMeta existingMetaJSON of
                None \<Rightarrow> (Inl (Msg ''json''), m1)
              | Some existingMeta \<Rightarrow>
                  if deepEqual (VolumeContext existingMeta) (VolumeContext meta) then (Inr False, m1)
                  else (Inr True, m2)))"

fun mput_all :: "'v gomap \<Rightarrow> 'v gomap \<Rightarrow> 'v gomap" where
  "mput_all [] vol = vol"
| "mput_all ((k, v) # fs) vol = mput_all fs (mput k v vol)"

definition memWriteFiles :: "Metadata \<Rightarrow> string gomap \<Rightarrow> unit mem" where
  "memWriteFiles meta fs m =
     (case mget (files m) (VolumeID meta) of
        None \<Rightarrow> (Inl ErrNotFound, m)
      | Some vol \<Rightarrow> (Inr (), m\<lparr>files := mput (VolumeID meta) (mput_all fs vol) (files m)\<rparr>))"

definition memReadFiles :: "string \<Rightarrow> string gomap mem" where
  "memReadFiles volumeID m =
     (case mget (files m) volumeID of
        None \<Rightarrow> (Inl ErrNotFound, m)
      | Some vol \<Rightarrow> (Inr (mput_all vol []), m))"

section \<open>The contract\<close>

text \<open>What the code relies on of \<^verbatim>\<open>DeepEqual\<close>: it compares maps by their entries; nil and empty are equal.\<close>

definition deepEqual_ok :: "(string gomap \<Rightarrow> string gomap \<Rightarrow> bool) \<Rightarrow> bool" where
  "deepEqual_ok deepEqual \<longleftrightarrow> (\<forall>a b. deepEqual a b \<longleftrightarrow> map_of a = map_of b)"

definition memMetas :: "MemoryFS \<Rightarrow> string \<Rightarrow> Metadata option" where
  "memMetas m v =
     Option.bind (mget (files m) v) (\<lambda>vol. Option.bind (mget vol metadataFile) unmarshalMeta)"

text \<open>Every volume of the map has readable metadata.\<close>

definition mem_ok :: "MemoryFS \<Rightarrow> bool" where
  "mem_ok m \<longleftrightarrow> (\<forall>v vol. mget (files m) v = Some vol \<longrightarrow>
     (\<exists>b meta. mget vol metadataFile = Some b \<and> unmarshalMeta b = Some meta))"

lemma mem_ok_new: "mem_ok NewMemoryFS"
  by (simp add: mem_ok_def NewMemoryFS_def)

lemma memMetas_None: "mem_ok m \<Longrightarrow> memMetas m v = None \<longleftrightarrow> mget (files m) v = None"
  by (cases "mget (files m) v") (force simp: mem_ok_def memMetas_def)+

lemma memRegister_known:
  assumes "mem_ok m" "mget (files m) (VolumeID meta) = Some vol" "deepEqual_ok deepEqual" "meta_ok meta"
  shows "\<exists>m0 m1 m'. memMetas m (VolumeID meta) = Some m0 \<and>
    memRegisterMetadata deepEqual meta m =
      (Inr (map_of (VolumeContext m0) \<noteq> map_of (VolumeContext meta)), m') \<and>
    mem_ok m' \<and> memMetas m' = (memMetas m)(VolumeID meta \<mapsto> m1) \<and>
    map_of (VolumeContext m1) = map_of (VolumeContext meta)"
proof -
  obtain b m0 where b: "mget vol metadataFile = Some b" "unmarshalMeta b = Some m0"
    using assms(1,2) unfolding mem_ok_def by blast
  have rt: "unmarshalMeta (marshalMeta meta) = Some (sortedMeta meta)"
    "map_of (VolumeContext (sortedMeta meta)) = map_of (VolumeContext meta)"
    using marshal_round_trip(1) [OF assms(4)] map_of_sortKeys assms(4) by (simp_all add: sortedMeta_def meta_ok_def)
  show ?thesis
  proof (cases "map_of (VolumeContext m0) = map_of (VolumeContext meta)")
    case True
    let ?m' = "m\<lparr>files := mput (VolumeID meta) vol (files m)\<rparr>"
    have "mem_ok ?m'" "memMetas ?m' = memMetas m"
      using assms(1,2) by (auto simp: mem_ok_def memMetas_def fun_eq_iff)
    moreover have "(memMetas m)(VolumeID meta \<mapsto> m0) = memMetas m"
      using assms(2) b by (auto simp: memMetas_def)
    moreover have "memRegisterMetadata deepEqual meta m = (Inr False, ?m')" "memMetas m (VolumeID meta) = Some m0"
      using True assms(2,3) b by (auto simp: memRegisterMetadata_def deepEqual_ok_def memMetas_def)
    ultimately show ?thesis
      using True by (intro exI [of _ m0] exI [of _ ?m']) auto
  next
    case False
    then show ?thesis
      using assms b rt
      by (auto simp: memRegisterMetadata_def deepEqual_ok_def memMetas_def mem_ok_def fun_eq_iff)
  qed
qed

lemma memRegister_new:
  assumes "mem_ok m" "mget (files m) (VolumeID meta) = None" "meta_ok meta"
  shows "\<exists>m'. memRegisterMetadata deepEqual meta m = (Inr True, m') \<and>
    mem_ok m' \<and> memMetas m' = (memMetas m)(VolumeID meta \<mapsto> sortedMeta meta)"
  using assms marshal_round_trip(1) [OF assms(3)]
  by (auto simp: memRegisterMetadata_def memMetas_def mem_ok_def fun_eq_iff)

lemma mem_store:
  assumes "deepEqual_ok deepEqual"
  shows "metadata_store mem_ok memMetas (\<lambda>_. True) memReadMetadata memListVolumes
    (memRegisterMetadata deepEqual) memRemoveVolume"
proof
  fix s v m assume "mem_ok s" "memMetas s v = Some m"
  then show "\<exists>s'. memReadMetadata v s = (Inr m, s') \<and> mem_ok s' \<and> memMetas s' = memMetas s"
    by (auto simp: memReadMetadata_def memMetas_def bind_eq_Some_conv)
next
  fix s v assume "mem_ok s" "memMetas s v = None"
  then show "\<exists>e s'. memReadMetadata v s = (Inl e, s') \<and> errors_Is e ErrNotFound \<and> mem_ok s' \<and> memMetas s' = memMetas s"
    by (simp add: memMetas_None memReadMetadata_def)
next
  fix s assume s: "mem_ok s"
  have "set (remdups (mkeys (files s))) = dom (memMetas s)"
    using memMetas_None [OF s] by (auto simp: dom_def map_of_eq_None_iff)
  with s show "\<exists>vs s'. memListVolumes s = (Inr vs, s') \<and> set vs = dom (memMetas s) \<and> mem_ok s' \<and> memMetas s' = memMetas s"
    by (simp add: memListVolumes_def)
next
  fix s meta assume s: "mem_ok s" "meta_ok meta"
  show "\<exists>m s'. memRegisterMetadata deepEqual meta s =
      (Inr (\<not> (\<exists>m0. memMetas s (VolumeID meta) = Some m0 \<and>
         map_of (VolumeContext m0) = map_of (VolumeContext meta))), s') \<and>
      mem_ok s' \<and> memMetas s' = (memMetas s)(VolumeID meta \<mapsto> m) \<and>
      map_of (VolumeContext m) = map_of (VolumeContext meta)"
  proof (cases "mget (files s) (VolumeID meta)")
    case None
    then have "memMetas s (VolumeID meta) = None" using memMetas_None [OF s(1)] by blast
    moreover have "map_of (VolumeContext (sortedMeta meta)) = map_of (VolumeContext meta)"
      using map_of_sortKeys s(2) by (simp add: sortedMeta_def meta_ok_def)
    ultimately show ?thesis using memRegister_new [OF s(1) None s(2), of deepEqual] by auto
  next
    case (Some vol)
    then show ?thesis using memRegister_known [OF s(1) Some assms s(2)] by auto
  qed
next
  fix s v assume "mem_ok s"
  then show "\<exists>s'. memRemoveVolume v s = (Inr (), s') \<and> mem_ok s' \<and> memMetas s' = (memMetas s)(v := None)"
    by (auto simp: memRemoveVolume_def mem_ok_def memMetas_def fun_eq_iff)
qed simp

text \<open>A comparison of maps by their entries, as the code relies on it.\<close>

definition sameEntries :: "string gomap \<Rightarrow> string gomap \<Rightarrow> bool" where
  "sameEntries a b \<longleftrightarrow> (\<forall>k \<in> set (mkeys a) \<union> set (mkeys b). map_of a k = map_of b k)"

lemma deepEqual_ok_sameEntries: "deepEqual_ok sameEntries"
proof -
  have "map_of a = map_of b" if "sameEntries a b" for a b
  proof
    fix k show "map_of a k = map_of b k"
      using that by (cases "k \<in> set (mkeys a) \<union> set (mkeys b)")
        (auto simp: sameEntries_def map_of_eq_None_iff [THEN iffD2])
  qed
  then show ?thesis by (auto simp: deepEqual_ok_def sameEntries_def)
qed

interpretation mem: metadata_store mem_ok memMetas "\<lambda>_. True" memReadMetadata memListVolumes
  "memRegisterMetadata sameEntries" memRemoveVolume
  by (rule mem_store [OF deepEqual_ok_sameEntries])

section \<open>Files\<close>

lemma mput_all_get: "mget (mput_all fs vol) k = (case map_of (rev fs) k of None \<Rightarrow> mget vol k | Some v \<Rightarrow> Some v)"
  by (induction fs vol rule: mput_all.induct) (auto simp: map_of_append map_add_def split: option.splits)

lemma mput_all_distinct:
  "distinct (mkeys fs) \<Longrightarrow> mget (mput_all fs vol) k = (case mget fs k of None \<Rightarrow> mget vol k | Some v \<Rightarrow> Some v)"
  using map_of_inject_set [of "rev fs" fs] by (simp add: mput_all_get rev_map [symmetric])

end
