(* ===== verification/OS_Success.thy ===== *)
theory OS_Success
  imports OS_Hoare
begin

text \<open>
  What the functions of package \<^verbatim>\<open>os\<close> do when the environment has no faults: reads return what is
  there, directories are made, files written, and \<^verbatim>\<open>os.RemoveAll\<close> removes a whole tree and nothing else.
\<close>

abbreviation exactly :: "world \<Rightarrow> fs \<Rightarrow> world \<Rightarrow> bool" where
  "exactly w0 f \<equiv> on_fs w0 (\<lambda>g. g = f)"

lemma hoare_run:
  assumes "hoare P m Q (\<lambda>_ _. False)" "P e"
  shows "\<exists>x e'. m e = (Inr x, e') \<and> Q x e'"
  using hoare_succeeds [OF assms] by metis

lemma hoare_run_err:
  assumes "hoare P m (\<lambda>_ _. False) E" "P e"
  shows "\<exists>err e'. m e = (Inl err, e') \<and> E err e'"
  using assms by (cases "m e"; cases "fst (m e)") (auto simp: hoare_def)

lemma faultfree_same: "same_env w0 w \<Longrightarrow> faultfree w0 \<Longrightarrow> faultfree w"
  by (simp add: same_env_def faultfree_def)

lemma exactly_self [simp]: "exactly w (wfs w) w"
  by (simp add: on_fs_def)

section \<open>Single calls\<close>

lemma hoare_call_ok:
  assumes "faultfree w0" "resolve f fl p = Inr r" "k f r = Inr (x, f')"
  shows "hoare (exactly w0 f) (pathcall fl p k) (\<lambda>y w. exactly w0 f' w \<and> y = x) (\<lambda>_ _. False)"
proof -
  have "hoare (exactly w0 f) (pathcall fl p k) (\<lambda>y. on_fs w0 (\<lambda>g. g = f' \<and> y = x)) (\<lambda>_ _. False)"
    by (rule hoare_pathcall_ok [OF assms(1)]) (use assms in auto)
  then show ?thesis by (rule hoare_weaken) (auto simp: on_fs_def)
qed

lemma hoare_call_err:
  assumes "faultfree w0" "resolve f fl p = Inl e \<or> (\<exists>r. resolve f fl p = Inr r \<and> k f r = Inl e)"
  shows "hoare (exactly w0 f) (pathcall fl p k) (\<lambda>_ _. False) (\<lambda>err w. exactly w0 f w \<and> err = Sys e)"
proof -
  have "hoare (exactly w0 f) (pathcall fl p k) (\<lambda>y. on_fs w0 (\<lambda>g. False)) (\<lambda>err. on_fs w0 (\<lambda>g. g = f \<and> err = Sys e))"
    by (rule hoare_pathcall) (use assms in \<open>auto simp: call_fails_def\<close>)
  then show ?thesis by (rule hoare_weaken) (auto simp: on_fs_def)
qed

text \<open>The code after a call that is known to succeed, or to fail.\<close>

lemma hoare_attempt_ok:
  assumes "hoare P m (\<lambda>y w. P' w \<and> y = x) (\<lambda>_ _. False)" "hoare P' (g (Inr x)) Q E"
  shows "hoare P (attempt m g) Q E"
proof (rule hoare_attempt [where R = "\<lambda>r w. P' w \<and> r = Inr x"])
  show "hoare P m (\<lambda>y w. P' w \<and> Inr y = Inr x) (\<lambda>err w. P' w \<and> Inl err = Inr x)"
    using assms(1) by (rule hoare_weaken) auto
  show "hoare (\<lambda>w. P' w \<and> r = Inr x) (g r) Q E" for r
    by (rule hoare_assume) (use assms(2) in simp)
qed

lemma hoare_attempt_err:
  assumes "hoare P m (\<lambda>_ _. False) (\<lambda>err w. P' w \<and> err = e)" "hoare P' (g (Inl e)) Q E"
  shows "hoare P (attempt m g) Q E"
proof (rule hoare_attempt [where R = "\<lambda>r w. P' w \<and> r = Inl e"])
  show "hoare P m (\<lambda>y w. P' w \<and> Inr y = Inl e) (\<lambda>err w. P' w \<and> Inl err = Inl e)"
    using assms(1) by (rule hoare_weaken) auto
  show "hoare (\<lambda>w. P' w \<and> r = Inl e) (g r) Q E" for r
    by (rule hoare_assume) (use assms(2) in simp)
qed

lemma hoare_andThen_ok:
  assumes "hoare P m (\<lambda>y w. P' w \<and> y = x) (\<lambda>_ _. False)" "hoare P' (g x) Q E"
  shows "hoare P (andThen m g) Q E"
proof (rule hoare_andThen [where R = "\<lambda>y w. P' w \<and> y = x"])
  show "hoare P m (\<lambda>y w. P' w \<and> y = x) E" using assms(1) by (rule hoare_weaken) auto
  show "hoare (\<lambda>w. P' w \<and> y = x) (g y) Q E" for y
    by (rule hoare_assume) (use assms(2) in simp)
qed

lemma hoare_ret_eq: "hoare P (ret x) (\<lambda>y w. P w \<and> y = x) E"
  by (simp add: hoare_def ret_def)

lemma hoare_throw_eq: "hoare P (throw e) Q (\<lambda>err w. P w \<and> err = e)"
  by (simp add: hoare_def throw_def)

lemma hoare_skip: "hoare P (ret ()) (\<lambda>_. P) E"
  by (simp add: hoare_def ret_def)

section \<open>Directories\<close>

lemma hoare_stat_ok:
  assumes "faultfree w0" "wf_fs f" "map_of f d = Some n" "pcomps p = d" "p \<noteq> []" "\<not> islink f d"
  shows "hoare (exactly w0 f) (osStat p) (\<lambda>y w. exactly w0 f w \<and> y = n) (\<lambda>_ _. False)"
proof -
  have "resolve f True p = Inr d" using assms by (intro resolve_existing) auto
  then show ?thesis
    unfolding osStat_def by (rule hoare_call_ok [OF assms(1)]) (simp add: k_lstat_def assms)
qed

text \<open>A directory that exists already.\<close>

lemma hoare_mkdirAllC_dir:
  assumes "faultfree w0" "wf_fs f" "isdir f d"
  shows "hoare (exactly w0 f) (mkdirAllC ab d m) (\<lambda>_. exactly w0 f) (\<lambda>_ _. False)"
proof (cases "d = []")
  case True
  then show ?thesis by (subst mkdirAllC.simps) (simp add: Let_def hoare_skip)
next
  case False
  have names: "\<forall>c \<in> set d. pname c" using wf_fs_isdir_names assms(2,3) by blast
  obtain a where a: "map_of f d = Some (Dir a)" using assms(3) by (auto simp: isdir_def)
  have "pathof ab d \<noteq> []" "pcomps (pathof ab d) = d"
    using False names pcomps_pathof [OF names, of ab] by (auto simp: pcomps_joinc)
  then have "hoare (exactly w0 f) (osStat (pathof ab d)) (\<lambda>y w. exactly w0 f w \<and> y = Dir a) (\<lambda>_ _. False)"
    using assms a isdir_not_islink by (intro hoare_stat_ok) auto
  note stat = this
  show ?thesis
    apply (subst mkdirAllC.simps)
    apply (simp only: Let_def False if_False)
    apply (rule hoare_attempt_ok [OF stat])
    apply (simp only: sum.case node.case hoare_skip)
    done
qed

text \<open>A directory that is missing in a directory that exists.\<close>

lemma hoare_osMkdir_ok:
  assumes "faultfree w0" "resolve f False p = Inr r" "map_of f r = None"
  shows "hoare (exactly w0 f) (osMkdir p m) (\<lambda>_. on_fs w0 (\<lambda>g. \<exists>a. g = AList.update r (Dir a) f)) (\<lambda>_ _. False)"
proof -
  have "hoare (exactly w0 f) (osMkdir p m) (\<lambda>_. on_fs w0 (\<lambda>g. \<exists>a. g = AList.update r (Dir a) f))
      (\<lambda>e. on_fs w0 (\<lambda>g. False))"
    by (rule hoare_osMkdir) (use assms in \<open>auto simp: call_fails_def k_create_def\<close>)
  then show ?thesis by (rule hoare_weaken) (auto simp: on_fs_def)
qed

lemma hoare_mkdirAllC_new:
  assumes "faultfree w0" "wf_fs f" "isdir f d" "pname c" "map_of f (d @ [c]) = None"
  shows "hoare (exactly w0 f) (mkdirAllC ab (d @ [c]) m)
    (\<lambda>_. on_fs w0 (\<lambda>g. \<exists>a. g = AList.update (d @ [c]) (Dir a) f)) (\<lambda>_ _. False)"
proof -
  have names: "\<forall>x \<in> set (d @ [c]). pname x" using wf_fs_isdir_names [OF assms(2,3)] assms(4) by simp
  let ?p = "pathof ab (d @ [c])"
  have res: "resolve f fl ?p = Inr (d @ [c])" for fl
    by (rule resolve_child [OF assms(2,3) pcomps_pathof [OF names] assms(4)])
       (use assms(5) in \<open>auto simp: islink_def\<close>)
  have stat: "hoare (exactly w0 f) (osStat ?p) (\<lambda>_ _. False) (\<lambda>err w. exactly w0 f w \<and> err = Sys ENOENT)"
    unfolding osStat_def by (rule hoare_call_err [OF assms(1)]) (simp add: res k_lstat_def assms(5))
  let ?Q = "\<lambda>_. on_fs w0 (\<lambda>g. \<exists>a. g = AList.update (d @ [c]) (Dir a) f)"
  have mk: "hoare (exactly w0 f) (attempt (osMkdir ?p m) (\<lambda>r'. case r' of
        Inr _ \<Rightarrow> ret ()
      | Inl e \<Rightarrow> attempt (osLstat ?p) (\<lambda>r''. case r'' of Inr (Dir _) \<Rightarrow> ret () | _ \<Rightarrow> throw e))) ?Q (\<lambda>_ _. False)"
    apply (rule hoare_attempt_ok [where x = "()" and P' = "?Q ()"])
     apply (rule hoare_weaken [OF hoare_osMkdir_ok [OF assms(1) res assms(5)]]; simp)
    apply (simp add: hoare_skip)
    done
  show ?thesis
    apply (subst mkdirAllC.simps)
    apply (simp only: Let_def append_is_Nil_conv list.distinct simp_thms if_False butlast_snoc)
    apply (rule hoare_attempt_err [OF stat])
    apply (simp only: sum.case)
    apply (rule hoare_andThen [OF hoare_mkdirAllC_dir [OF assms(1-3)] mk])
    done
qed

lemma hoare_osMkdirAll:
  assumes "faultfree w0" "wf_fs f" "isdir f d" "pname c" "pcomps p = d @ [c]"
    and "map_of f (d @ [c]) = None \<or> isdir f (d @ [c])"
  shows "hoare (exactly w0 f) (osMkdirAll p m)
    (\<lambda>_. on_fs w0 (\<lambda>g. if isdir f (d @ [c]) then g = f else \<exists>a. g = AList.update (d @ [c]) (Dir a) f)) (\<lambda>_ _. False)"
proof -
  have p: "p \<noteq> []" using assms(5) by auto
  show ?thesis
  proof (cases "isdir f (d @ [c])")
    case True
    with p assms(5) hoare_mkdirAllC_dir [OF assms(1,2) True] show ?thesis by (simp add: osMkdirAll_def)
  next
    case False
    with p assms(5,6) hoare_mkdirAllC_new [OF assms(1-4)] show ?thesis by (simp add: osMkdirAll_def)
  qed
qed

section \<open>Files\<close>

lemma hoare_osWriteFile:
  assumes "faultfree w0" "wf_fs f" "isdir f d" "pname c" "pcomps p = d @ [c]"
    and "\<not> isdir f (d @ [c])" "\<not> islink f (d @ [c])"
  shows "hoare (exactly w0 f) (osWriteFile p x m)
    (\<lambda>_. on_fs w0 (\<lambda>g. wf_fs g \<and> (\<exists>a. map_of g (d @ [c]) = Some (File a x)) \<and> only_changes {d @ [c]} f g)) (\<lambda>_ _. False)"
proof -
  have res: "resolve f True p = Inr (d @ [c])"
    by (rule resolve_child [OF assms(2,3,5,4)]) (use assms(7) in simp)
  let ?R = "\<lambda>g. wf_fs g \<and> isdir g d \<and> (\<exists>a. map_of g (d @ [c]) = Some (File a [])) \<and> only_changes {d @ [c]} f g"
  have "hoare (exactly w0 f) (osOpenTrunc p m) (\<lambda>_. on_fs w0 ?R) (\<lambda>_. on_fs w0 (\<lambda>_. False))"
  proof (rule hoare_osOpenTrunc)
    fix g r a assume g: "g = f" "resolve g True p = Inr r" "\<not> isdir g r" "\<not> islink g r"
    then have r: "r = d @ [c]" using res by simp
    have "wf_fs (AList.update r (File a []) g)"
    proof (cases "map_of g r")
      case None
      then show ?thesis using g assms(2) resolve_good by (intro wf_fs_update_new) auto
    next
      case (Some n)
      then show ?thesis using g assms(2) by (intro wf_fs_update_same) (auto simp: isdir_def)
    qed
    then show "?R (AList.update r (File a []) g)"
      using g r assms(3) by (auto simp: isdir_def only_changes_def)
  next
    fix g e assume "g = f" "call_fails w0 True p (k_open_trunc undefined) g e"
    then show False
      using res assms(1,6,7)
      by (auto simp: call_fails_def k_open_trunc_def isdir_def islink_def split: option.splits node.splits)
  qed
  then have opn: "hoare (exactly w0 f) (osOpenTrunc p m) (\<lambda>_. on_fs w0 ?R) (\<lambda>_ _. False)"
    by (rule hoare_weaken) (auto simp: on_fs_def)
  have app: "hoare (on_fs w0 ?R) (osAppend p x)
    (\<lambda>_. on_fs w0 (\<lambda>g. wf_fs g \<and> (\<exists>a. map_of g (d @ [c]) = Some (File a x)) \<and> only_changes {d @ [c]} f g)) (\<lambda>_ _. False)"
    unfolding osAppend_def
  proof (rule hoare_pathcall_ok [OF assms(1)])
    fix g assume g: "?R g"
    then obtain a where a: "map_of g (d @ [c]) = Some (File a [])" by blast
    have "resolve g True p = Inr (d @ [c])"
      by (rule resolve_child [OF _ _ assms(5,4)]) (use g a in \<open>auto simp: islink_def\<close>)
    moreover have "wf_fs (AList.update (d @ [c]) (File a x) g)"
      using g a by (intro wf_fs_update_same) auto
    ultimately show "\<exists>r y g'. resolve g True p = Inr r \<and> k_write x g r = Inr (y, g') \<and>
        wf_fs g' \<and> (\<exists>a. map_of g' (d @ [c]) = Some (File a x)) \<and> only_changes {d @ [c]} f g'"
      using g a by (auto simp: k_write_def only_changes_def)
  qed
  show ?thesis
    unfolding osWriteFile_def by (rule hoare_andThen [OF opn app])
qed

section \<open>Removing a tree\<close>

text \<open>The nodes of \<open>S\<close> are gone, the others are as they were.\<close>

definition pruned :: "fs \<Rightarrow> fpath set \<Rightarrow> fs \<Rightarrow> bool" where
  "pruned f S g \<longleftrightarrow> wf_fs g \<and> (\<forall>q. map_of g q = (if q \<in> S then None else map_of f q))"

lemma pruned_remove:
  assumes g: "pruned f S g" and p: "p \<noteq> []" "map_of f p \<noteq> None" "p \<notin> S"
    and kids: "\<And>c. map_of f (p @ [c]) \<noteq> None \<Longrightarrow> p @ [c] \<in> S"
  shows "\<exists>g'. k_remove g p = Inr ((), g') \<and> pruned f (insert p S) g'"
proof -
  have wf: "wf_fs g" and at: "map_of g p = map_of f p" using g p by (auto simp: pruned_def)
  have leaf: "map_of g (p @ [c]) = None" for c
    using g kids [of c] unfolding pruned_def by metis
  have "wf_fs (AList.delete p g)" using wf p(1) leaf by (intro wf_fs_delete_leaf) auto
  then have "pruned f (insert p S) (AList.delete p g)" using g by (auto simp: pruned_def)
  moreover have "children g p = []" using leaf by (simp add: children_Nil_iff)
  ultimately show ?thesis
    using at p by (auto simp: k_remove_def k_rmdir_def k_unlink_def split: option.splits node.splits)
qed

lemma hoare_rm_tree:
  assumes ff: "faultfree w0" and r: "r \<noteq> []"
    and ps: "\<And>p. p \<in> set ps \<Longrightarrow> prefix r p \<and> map_of f p \<noteq> None" "distinct ps"
    and S: "S \<inter> set ps = {}" "\<And>p. prefix r p \<Longrightarrow> map_of f p \<noteq> None \<Longrightarrow> p \<in> S \<union> set ps"
    and order: "sorted_wrt (\<lambda>p q. length p \<ge> length q) ps" "\<And>p q. p \<in> S \<Longrightarrow> q \<in> set ps \<Longrightarrow> length p \<ge> length q"
  shows "hoare (on_fs w0 (pruned f S)) (rm_tree ps None) (\<lambda>_. on_fs w0 (pruned f (S \<union> set ps))) (\<lambda>_ _. False)"
  using ps S order
proof (induction ps arbitrary: S)
  case Nil
  then show ?case by (simp add: hoare_skip)
next
  case (Cons p ps)
  have "prefix r p \<and> map_of f p \<noteq> None" using Cons.prems(1) by simp
  then have p: "p \<noteq> []" "map_of f p \<noteq> None" "p \<notin> S" "prefix r p"
    using Cons.prems(3) r by auto
  have kids: "p @ [c] \<in> S" if "map_of f (p @ [c]) \<noteq> None" for c
  proof -
    have "p @ [c] \<in> S \<union> set (p # ps)" using Cons.prems(4) [of "p @ [c]"] that p(4) by (auto simp: prefix_def)
    moreover have "p @ [c] \<notin> set (p # ps)" using Cons.prems(5) by auto
    ultimately show ?thesis by blast
  qed
  have step: "hoare (on_fs w0 (pruned f S)) (syscall (\<lambda>w. k_remove (wfs w) p))
      (\<lambda>_. on_fs w0 (pruned f (insert p S))) (\<lambda>_ _. False)"
  proof -
    have "k_remove g p = Inr (u, g') \<Longrightarrow> pruned f S g \<Longrightarrow> pruned f (insert p S) g'"
      "pruned f S g \<Longrightarrow> \<not> k_remove g p = Inl e" for g g' u e
      using pruned_remove [of f S g p] p kids by fastforce+
    with ff show ?thesis
      by (fastforce simp: hoare_def syscall_def on_fs_def same_env_def faultfree_def Let_def split: sum.splits prod.splits)
  qed
  have "hoare (on_fs w0 (pruned f (insert p S))) (rm_tree ps None)
      (\<lambda>_. on_fs w0 (pruned f (insert p S \<union> set ps))) (\<lambda>_ _. False)"
    by (rule Cons.IH) (use Cons.prems in auto)
  then have "hoare (on_fs w0 (pruned f (insert p S))) (rm_tree ps (case Inr () of Inr _ \<Rightarrow> None
      | Inl e \<Rightarrow> if isNotExist e then None else if None = None then Some e else None))
      (\<lambda>_. on_fs w0 (pruned f (S \<union> set (p # ps)))) (\<lambda>_ _. False)" by simp
  then show ?case
    unfolding rm_tree.simps
    by (intro hoare_attempt_ok [where x = "()"]) (rule hoare_weaken [OF step], auto)
qed

lemma sorted_below: "sorted_wrt (\<lambda>p q. length p \<ge> length q) (below f r)"
proof -
  have "sorted (map length (sort_key length xs))" for xs :: "fpath list" by (rule sorted_sort_key)
  then show ?thesis unfolding below_def sorted_wrt_rev by (simp add: sorted_wrt_map)
qed

lemma hoare_rm_tree_below:
  assumes "faultfree w0" "wf_fs f" "r \<noteq> []"
  shows "hoare (exactly w0 f) (rm_tree (below f r) None) (\<lambda>_. on_fs w0 (pruned f {q. prefix r q})) (\<lambda>_ _. False)"
proof -
  have h: "hoare (on_fs w0 (pruned f {})) (rm_tree (below f r) None)
      (\<lambda>_. on_fs w0 (pruned f ({} \<union> set (below f r)))) (\<lambda>_ _. False)"
  proof (rule hoare_rm_tree [OF assms(1,3) _ _ _ _ sorted_below])
    show "distinct (below f r)" by (simp add: below_def)
  qed (auto simp: set_below)
  have fin: "pruned f {q. prefix r q} g" if "pruned f (set (below f r)) g" for g
    using that by (auto simp: pruned_def set_below)
  have start: "pruned f {} f" using assms(2) by (simp add: pruned_def)
  show ?thesis
    by (rule hoare_weaken [OF h]) (use start fin in \<open>auto simp: on_fs_def\<close>)
qed

lemma pruned_absent:
  assumes "wf_fs f" "map_of f r = None"
  shows "pruned f {q. prefix r q} f"
proof -
  have "map_of f q = None" if "prefix r q" for q
  proof -
    obtain z where "q = r @ z" using \<open>prefix r q\<close> by (auto simp: prefix_def)
    then show ?thesis
      using wf_fs_absent_below [OF assms(1), of r z] assms(2) by (cases "z = []") (auto simp: isdir_def)
  qed
  with assms(1) show ?thesis by (simp add: pruned_def)
qed

lemma pruned_leaf:
  assumes "wf_fs f" "r \<noteq> []" "\<And>c. map_of f (r @ [c]) = None"
  shows "pruned f {q. prefix r q} (AList.delete r f)"
proof -
  have "map_of f q = None" if "prefix r q" "q \<noteq> r" for q
  proof -
    obtain z where z: "q = r @ z" "z \<noteq> []" using \<open>prefix r q\<close> \<open>q \<noteq> r\<close> by (auto simp: prefix_def)
    then obtain c y where "q = (r @ [c]) @ y" by (cases z) auto
    then show ?thesis
      using wf_fs_absent_below [OF assms(1), of "r @ [c]" y] assms(3) by (cases "y = []") (auto simp: isdir_def)
  qed
  then show ?thesis using wf_fs_delete_leaf [OF assms] by (auto simp: pruned_def)
qed

lemma hoare_osRemove_ok:
  assumes "faultfree w0" "resolve f False p = Inr r"
    and "k_unlink f r = Inr ((), f') \<or> k_unlink f r = Inl e \<and> k_rmdir f r = Inr ((), f')"
  shows "hoare (exactly w0 f) (osRemove p) (\<lambda>_. exactly w0 f') (\<lambda>_ _. False)"
  using assms(3)
proof
  assume "k_unlink f r = Inr ((), f')"
  then have "hoare (exactly w0 f) (pathcall False p k_unlink) (\<lambda>y w. exactly w0 f' w \<and> y = ()) (\<lambda>_ _. False)"
    by (rule hoare_call_ok [OF assms(1,2)])
  then show ?thesis unfolding osRemove_def by (rule hoare_attempt_ok) (simp add: hoare_skip)
next
  assume k: "k_unlink f r = Inl e \<and> k_rmdir f r = Inr ((), f')"
  have u: "hoare (exactly w0 f) (pathcall False p k_unlink) (\<lambda>_ _. False) (\<lambda>err w. exactly w0 f w \<and> err = Sys e)"
    by (rule hoare_call_err [OF assms(1)]) (use assms(2) k in auto)
  have d: "hoare (exactly w0 f) (pathcall False p k_rmdir) (\<lambda>y w. exactly w0 f' w \<and> y = ()) (\<lambda>_ _. False)"
    by (rule hoare_call_ok [OF assms(1,2)]) (use k in simp)
  show ?thesis
    unfolding osRemove_def
    by (rule hoare_attempt_err [OF u], simp only: sum.case, rule hoare_attempt_ok [OF d]) (simp add: hoare_skip)
qed

lemma hoare_osRemove_err:
  assumes "faultfree w0" "resolve f False p = Inr r"
    and "k_unlink f r = Inl e" "k_rmdir f r = Inl e'" "e' \<noteq> ENOTDIR"
  shows "hoare (exactly w0 f) (osRemove p) (\<lambda>_ _. False) (\<lambda>err w. exactly w0 f w \<and> err = Sys e')"
proof -
  have u: "hoare (exactly w0 f) (pathcall False p k_unlink) (\<lambda>_ _. False) (\<lambda>err w. exactly w0 f w \<and> err = Sys e)"
    by (rule hoare_call_err [OF assms(1)]) (use assms(2,3) in auto)
  have d: "hoare (exactly w0 f) (pathcall False p k_rmdir) (\<lambda>_ _. False) (\<lambda>err w. exactly w0 f w \<and> err = Sys e')"
    by (rule hoare_call_err [OF assms(1)]) (use assms(2,4) in auto)
  show ?thesis
    unfolding osRemove_def
    by (rule hoare_attempt_err [OF u], simp only: sum.case, rule hoare_attempt_err [OF d])
       (simp add: assms(5) hoare_throw_eq)
qed

lemma hoare_osRemoveAll:
  assumes ff: "faultfree w0" and wf: "wf_fs f" and res: "resolve f False p = Inr r" "r \<noteq> []"
    and p: "p \<noteq> []" "p \<noteq> ''.''" "drop (length p - 2) p \<noteq> ''/.''"
  shows "hoare (exactly w0 f) (osRemoveAll p) (\<lambda>_. on_fs w0 (pruned f {q. prefix r q})) (\<lambda>_ _. False)"
proof -
  let ?Q = "\<lambda>_. on_fs w0 (pruned f {q. prefix r q})"
  let ?tree = "\<lambda>w. case resolve (wfs w) False p of
      Inl e' \<Rightarrow> (Inl (Sys e'), w) | Inr q \<Rightarrow> rm_tree (below (wfs w) q) None w"
  let ?rest = "\<lambda>rr. case rr of Inr _ \<Rightarrow> ret () | Inl e \<Rightarrow> if isNotExist e then ret () else ?tree"
  have done_: "hoare (exactly w0 f') (ret ()) ?Q (\<lambda>_ _. False)" if "pruned f {q. prefix r q} f'" for f'
    using that by (simp add: hoare_def ret_def on_fs_def)
  have "hoare (exactly w0 f) (attempt (osRemove p) ?rest) ?Q (\<lambda>_ _. False)"
  proof (cases "map_of f r")
    case None
    then have k: "k_unlink f r = Inl ENOENT" "k_rmdir f r = Inl ENOENT" by (auto simp: k_unlink_def k_rmdir_def)
    show ?thesis
      by (rule hoare_attempt_err [OF hoare_osRemove_err [OF ff res(1) k]])
         (simp_all add: isNotExist_def done_ [OF pruned_absent [OF wf None]])
  next
    case (Some n)
    show ?thesis
    proof (cases "isdir f r \<and> children f r \<noteq> []")
      case True
      then have k: "k_unlink f r = Inl EISDIR" "k_rmdir f r = Inl ENOTEMPTY"
        using Some res(2) by (auto simp: k_unlink_def k_rmdir_def isdir_def)
      have "hoare (exactly w0 f) ?tree ?Q (\<lambda>_ _. False)"
        by (rule hoare_wfs [where m = "\<lambda>f w. case resolve f False p of
             Inl e' \<Rightarrow> (Inl (Sys e'), w) | Inr q \<Rightarrow> rm_tree (below f q) None w"])
           (simp add: res hoare_rm_tree_below [OF ff wf res(2)])
      then show ?thesis
        by (intro hoare_attempt_err [OF hoare_osRemove_err [OF ff res(1) k]]) (simp_all add: isNotExist_def)
    next
      case False
      have leaf: "map_of f (r @ [c]) = None" for c
        using False leaf_of_nondir [OF wf, of r c] by (auto simp: children_Nil_iff)
      have k: "k_unlink f r = Inr ((), AList.delete r f) \<or>
          k_unlink f r = Inl EISDIR \<and> k_rmdir f r = Inr ((), AList.delete r f)"
        using False Some res(2) by (cases n) (auto simp: k_unlink_def k_rmdir_def isdir_def)
      have "hoare (exactly w0 f) (osRemove p) (\<lambda>y w. exactly w0 (AList.delete r f) w \<and> y = ()) (\<lambda>_ _. False)"
        using hoare_osRemove_ok [OF ff res(1) k] by simp
      then show ?thesis
        by (rule hoare_attempt_ok) (simp add: done_ [OF pruned_leaf [OF wf res(2) leaf]])
    qed
  qed
  then show ?thesis unfolding osRemoveAll_def using p by (simp only: if_False simp_thms)
qed

end
