(* ===== verification/Storage_Filesystem_Facts.thy ===== *)
theory Storage_Filesystem_Facts
  imports Storage_Filesystem Storage_Memory OS_Success
begin

text \<open>
  The filesystem backend satisfies the contract of \<^verbatim>\<open>storage.Interface\<close>: on a fault-free system its
  directory tree abstracts to a map from volume IDs to metadata, and every operation acts on that map as
  the interface says.
\<close>

section \<open>Paths of a volume\<close>

definition base_ok :: "Filesystem \<Rightarrow> bool" where
  "base_ok f \<longleftrightarrow> canon (baseDir f) \<and> \<not> isAbs (baseDir f)"

definition troot :: "Filesystem \<Rightarrow> fpath" where
  "troot f = pcomps (baseDir f) @ [''inmemfs'']"

lemma pname_consts [simp]: "pname ''inmemfs''" "pname ''data''" "pname ''metadata.json''"
  by (simp_all add: pname_def)

lemma canon_append_name:
  assumes "canon p" "\<not> isAbs p" "pname n"
  shows "canon (fjoin p n)" "\<not> isAbs (fjoin p n)" "pcomps (fjoin p n) = pcomps p @ [n]"
proof -
  have j: "fjoin p n = p @ sep # n" "canon (p @ sep # n)" using fjoin_canon_name [OF assms(1,3)] by auto
  then show "canon (fjoin p n)" by simp
  show "\<not> isAbs (fjoin p n)" using j assms(2) canon_not_Nil [OF assms(1)] by (cases p) (auto simp: isAbs_def)
  show "pcomps (fjoin p n) = pcomps p @ [n]"
    using j assms(3) by (simp add: pcomps_append_sep pcomps_name)
qed

lemma tempfsPath_facts:
  assumes "base_ok f"
  shows "canon (tempfsPath f)" "\<not> isAbs (tempfsPath f)" "pcomps (tempfsPath f) = troot f"
  using canon_append_name [of "baseDir f" "''inmemfs''"] assms by (auto simp: base_ok_def tempfsPath_def troot_def)

lemma volumePath_facts:
  assumes "base_ok f" "pname v"
  shows "canon (volumePath f v)" "\<not> isAbs (volumePath f v)" "pcomps (volumePath f v) = troot f @ [v]"
  using canon_append_name [OF tempfsPath_facts(1,2) [OF assms(1)] assms(2)] tempfsPath_facts(3) [OF assms(1)]
  by (auto simp: volumePath_def)

lemma volume_files:
  assumes "base_ok f" "pname v" "pname n"
  shows "canon (fjoin (volumePath f v) n)" "\<not> isAbs (fjoin (volumePath f v) n)"
    "pcomps (fjoin (volumePath f v) n) = troot f @ [v, n]"
  using canon_append_name [OF volumePath_facts(1,2) [OF assms(1,2)] assms(3)] volumePath_facts(3) [OF assms(1,2)]
  by auto

section \<open>Invariant and abstraction\<close>

definition volumeMeta :: "Filesystem \<Rightarrow> fs \<Rightarrow> string \<Rightarrow> Metadata option" where
  "volumeMeta f g v =
     (case map_of g (troot f @ [v, ''metadata.json'']) of
        Some (File _ c) \<Rightarrow> decodeMeta c
      | _ \<Rightarrow> None)"

abbreviation dataDir :: "Filesystem \<Rightarrow> string \<Rightarrow> fpath" where
  "dataDir f v \<equiv> troot f @ [v, ''data'']"

text \<open>The data directory of a volume may be missing; otherwise it satisfies the invariant of the atomic writer.\<close>

definition data_ok :: "Filesystem \<Rightarrow> fs \<Rightarrow> string \<Rightarrow> bool" where
  "data_ok f g v \<longleftrightarrow> map_of g (dataDir f v) = None \<or> aw_inv (dataDir f v) g"

definition volume_ok :: "Filesystem \<Rightarrow> fs \<Rightarrow> string \<Rightarrow> bool" where
  "volume_ok f g v \<longleftrightarrow> isdir g (troot f @ [v]) \<and> data_ok f g v \<and>
     (\<exists>a c m. map_of g (troot f @ [v, ''metadata.json'']) = Some (File a c) \<and> decodeMeta c = Some m \<and>
        VolumeID m = v \<and> meta_ok m)"

definition tree_ok :: "Filesystem \<Rightarrow> fs \<Rightarrow> bool" where
  "tree_ok f g \<longleftrightarrow> wf_fs g \<and> isdir g (troot f) \<and> (\<forall>v. map_of g (troot f @ [v]) \<noteq> None \<longrightarrow> volume_ok f g v)"

definition fs_ok :: "Filesystem \<Rightarrow> world \<Rightarrow> bool" where
  "fs_ok f w \<longleftrightarrow> base_ok f \<and> faultfree w \<and> world_ok w \<and> goos w \<noteq> ''windows'' \<and> tree_ok f (wfs w)"

definition fsMetas :: "Filesystem \<Rightarrow> world \<Rightarrow> string \<Rightarrow> Metadata option" where
  "fsMetas f w = volumeMeta f (wfs w)"

lemma aw_inv_cong:
  assumes "aw_inv T g" "wf_fs h" "isdir h T" "\<And>q. q \<noteq> [] \<Longrightarrow> map_of h (T @ q) = map_of g (T @ q)"
  shows "aw_inv T h"
proof -
  have "map_of h (T @ [n]) = map_of g (T @ [n])" "map_of h (T @ [n, m]) = map_of g (T @ [n, m])" for n m
    using assms(4) by simp_all
  then have "vis T h = vis T g" "version T ts h = version T ts g" for ts
    unfolding vis_def version_def isdir_def by simp_all
  with assms(1-3) assms(4) [of "[dataDirName]"] show ?thesis by (simp add: aw_inv_def)
qed

lemma data_ok_cong:
  assumes "data_ok f g v" "wf_fs h" "\<And>q. map_of h (dataDir f v @ q) = map_of g (dataDir f v @ q)"
  shows "data_ok f h v"
  using assms aw_inv_cong [of "dataDir f v" g h] assms(3) [of "[]"]
  by (auto simp: data_ok_def aw_inv_def [of _ g] isdir_def)

lemma volume_ok_cong:
  assumes "volume_ok f g v" "wf_fs h" "\<And>q. map_of h (troot f @ v # q) = map_of g (troot f @ v # q)"
  shows "volume_ok f h v"
  using assms data_ok_cong [of f g v h] by (simp add: volume_ok_def isdir_def)

text \<open>A data directory that was made or left alone.\<close>

lemma data_ok_ensured:
  assumes g: "wf_fs g" "data_ok f g v" and h: "wf_fs h" "isdir h (dataDir f v)"
    and at: "\<And>q. q \<noteq> [] \<Longrightarrow> map_of h (dataDir f v @ q) = map_of g (dataDir f v @ q)"
  shows "aw_inv (dataDir f v) h"
proof (cases "map_of g (dataDir f v)")
  case None
  then have "map_of g (dataDir f v @ [n]) = None" for n
    using leaf_of_nondir [OF g(1), of "dataDir f v" n] by (simp add: isdir_def)
  then have "map_of h (dataDir f v @ [n]) = None" for n using at [of "[n]"] by simp
  then show ?thesis using h by (simp add: aw_inv_def vis_def)
next
  case Some
  then have "aw_inv (dataDir f v) g" using g(2) by (simp add: data_ok_def)
  then show ?thesis by (rule aw_inv_cong [OF _ h at])
qed

lemma data_ok_new: "wf_fs g \<Longrightarrow> map_of g (troot f @ [v]) = None \<Longrightarrow> data_ok f g v"
  using leaf_of_nondir [of g "troot f @ [v]" "''data''"] by (simp add: data_ok_def isdir_def)

lemma volumeMeta_dom:
  assumes "tree_ok f g"
  shows "volumeMeta f g v = None \<longleftrightarrow> map_of g (troot f @ [v]) = None"
proof
  assume "volumeMeta f g v = None"
  then show "map_of g (troot f @ [v]) = None"
    using assms by (force simp: tree_ok_def volume_ok_def volumeMeta_def)
next
  assume "map_of g (troot f @ [v]) = None"
  then have "map_of g ((troot f @ [v]) @ [''metadata.json'']) = None"
    using assms by (intro leaf_of_nondir) (auto simp: tree_ok_def isdir_def)
  then show "volumeMeta f g v = None" by (simp add: volumeMeta_def)
qed

lemma volumeMeta_some:
  assumes "tree_ok f g" "volumeMeta f g v = Some m"
  shows "volume_ok f g v" "pname v" "\<exists>a c. map_of g (troot f @ [v, ''metadata.json'']) = Some (File a c) \<and> decodeMeta c = Some m"
    "VolumeID m = v" "meta_ok m"
proof -
  have ex: "map_of g (troot f @ [v]) \<noteq> None" using volumeMeta_dom [OF assms(1)] assms(2) by force
  then show vok: "volume_ok f g v" using assms(1) by (auto simp: tree_ok_def)
  show "pname v" using ex assms(1) wf_fs_parent [of g "troot f" v] by (auto simp: tree_ok_def)
  obtain a c m' where c: "map_of g (troot f @ [v, ''metadata.json'']) = Some (File a c)" "decodeMeta c = Some m'"
    "VolumeID m' = v" "meta_ok m'"
    using vok by (auto simp: volume_ok_def)
  with assms(2) have "m' = m" by (simp add: volumeMeta_def)
  with c show "\<exists>a c. map_of g (troot f @ [v, ''metadata.json'']) = Some (File a c) \<and> decodeMeta c = Some m"
    "VolumeID m = v" "meta_ok m" by auto
qed

section \<open>Reading\<close>

lemma hoare_dirfsOpen:
  assumes "faultfree w0" "wf_fs g" "canon p" "\<not> isAbs p" "map_of g (pcomps p) = Some n" "\<not> islink g (pcomps p)"
  shows "hoare (exactly w0 g) (dirfsOpen p) (\<lambda>y w. exactly w0 g w \<and> y = n) (\<lambda>_ _. False)"
proof -
  have "hoare (exactly w0 g) (osStat (sep # p)) (\<lambda>y w. exactly w0 g w \<and> y = n) (\<lambda>_ _. False)"
    by (rule hoare_stat_ok [OF assms(1,2,5)]) (use assms(6) in \<open>auto simp: pcomps_sep_Cons\<close>)
  then show ?thesis using canon_rel_valid [OF assms(3,4)] by (simp add: dirfsOpen_def)
qed

lemma hoare_ReadMetadata_found:
  assumes "faultfree w0" "base_ok f" "tree_ok f g" "volumeMeta f g v = Some m"
  shows "hoare (exactly w0 g) (ReadMetadata f v) (\<lambda>y w. exactly w0 g w \<and> y = m) (\<lambda>_ _. False)"
proof -
  obtain a c where c: "map_of g (troot f @ [v, ''metadata.json'']) = Some (File a c)" "decodeMeta c = Some m"
    using volumeMeta_some(3) [OF assms(3,4)] by blast
  have v: "pname v" by (rule volumeMeta_some(2) [OF assms(3,4)])
  let ?p = "metadataPathForVolumeID f v"
  have p: "canon ?p" "\<not> isAbs ?p" "pcomps ?p = troot f @ [v, ''metadata.json'']"
    using volume_files [OF assms(2) v, of "''metadata.json''"] by (auto simp: metadataPathForVolumeID_def)
  have wf: "wf_fs g" using assms(3) by (simp add: tree_ok_def)
  have at: "map_of g (pcomps ?p) = Some (File a c)" "\<not> islink g (pcomps ?p)" using p c by (auto simp: islink_def)
  have opn: "hoare (exactly w0 g) (dirfsOpen ?p) (\<lambda>y w. exactly w0 g w \<and> y = File a c) (\<lambda>_ _. False)"
    by (rule hoare_dirfsOpen [OF assms(1) wf p(1,2) at])
  have st: "hoare (exactly w0 g) (osStat (sep # ?p)) (\<lambda>y w. exactly w0 g w \<and> y = File a c) (\<lambda>_ _. False)"
    by (rule hoare_stat_ok [OF assms(1) wf at(1)]) (use at(2) in \<open>auto simp: pcomps_sep_Cons\<close>)
  have "resolve g True (sep # ?p) = Inr (pcomps ?p)"
    by (rule resolve_existing [OF wf at(1)]) (use at(2) in \<open>auto simp: pcomps_sep_Cons\<close>)
  then have rd: "hoare (exactly w0 g) (osReadFile (sep # ?p)) (\<lambda>y w. exactly w0 g w \<and> y = c) (\<lambda>_ _. False)"
    unfolding osReadFile_def by (rule hoare_call_ok [OF assms(1)]) (simp add: k_read_def at)
  show ?thesis
    unfolding ReadMetadata_def Let_def
    by (rule hoare_attempt_ok [OF opn], simp only: sum.case, rule hoare_attempt_ok [OF st], simp only: sum.case,
        rule hoare_attempt_ok [OF rd]) (simp add: c(2) hoare_ret_eq)
qed

lemma hoare_ReadMetadata_missing:
  assumes "faultfree w0" "base_ok f" "tree_ok f g" "volumeMeta f g v = None" "pname v"
  shows "hoare (exactly w0 g) (ReadMetadata f v) (\<lambda>_ _. False)
    (\<lambda>e w. exactly w0 g w \<and> e = Wrap ''reading metadata file'' ErrNotFound)"
proof -
  let ?p = "metadataPathForVolumeID f v"
  have p: "canon ?p" "\<not> isAbs ?p" "pcomps ?p = (troot f @ [v]) @ [''metadata.json'']"
    using volume_files [OF assms(2,5), of "''metadata.json''"] by (auto simp: metadataPathForVolumeID_def)
  have T: "isdir g (troot f)" "map_of g (troot f @ [v]) = None"
    using assms(3) volumeMeta_dom [OF assms(3)] assms(4) by (auto simp: tree_ok_def)
  have "walk maxSymlinks g True [] (pcomps (sep # ?p)) = walk maxSymlinks g True (troot f) [v, ''metadata.json'']"
    using p T(1) assms(3) by (simp add: pcomps_sep_Cons walk_isdir tree_ok_def)
  also have "\<dots> = Inl ENOENT" using T(2) assms(5) pname_not_dots by simp
  finally have res: "resolve g True (sep # ?p) = Inl ENOENT" by (simp add: resolve_def)
  have "hoare (exactly w0 g) (dirfsOpen ?p) (\<lambda>_ _. False) (\<lambda>err w. exactly w0 g w \<and> err = Sys ENOENT)"
    using hoare_call_err [OF assms(1), of g True "sep # ?p" ENOENT k_lstat] res canon_rel_valid [OF p(1,2)]
    by (simp add: dirfsOpen_def osStat_def)
  then show ?thesis
    unfolding ReadMetadata_def Let_def by (rule hoare_attempt_err) (simp add: hoare_throw_eq)
qed

section \<open>Listing\<close>

lemma hoare_ListVolumes:
  assumes ff: "faultfree w0" and b: "base_ok f" and g: "tree_ok f g"
  shows "hoare (exactly w0 g) (ListVolumes f)
    (\<lambda>vs w. exactly w0 g w \<and> vs = children g (troot f)) (\<lambda>_ _. False)"
proof -
  have wf: "wf_fs g" and T: "isdir g (troot f)" using g by (auto simp: tree_ok_def)
  obtain a where a: "map_of g (troot f) = Some (Dir a)" using T by (auto simp: isdir_def)
  have tp: "canon (tempfsPath f)" "\<not> isAbs (tempfsPath f)" "pcomps (tempfsPath f) = troot f"
    by (rule tempfsPath_facts [OF b])+
  have "resolve g True (sep # tempfsPath f) = Inr (troot f)"
    by (rule resolve_existing [OF wf a]) (use a tp in \<open>auto simp: pcomps_sep_Cons islink_def\<close>)
  then have "hoare (exactly w0 g) (pathcall True (sep # tempfsPath f) k_readdir)
      (\<lambda>y w. exactly w0 g w \<and> y = children g (troot f)) (\<lambda>_ _. False)"
    by (rule hoare_call_ok [OF ff]) (simp add: k_readdir_def a)
  then have rd: "hoare (exactly w0 g) (wrapping ''listing volumes'' (dirfsReadDir (tempfsPath f)))
      (\<lambda>y w. exactly w0 g w \<and> y = children g (troot f)) (\<lambda>_ _. False)"
    using canon_rel_valid [OF tp(1,2)] by (intro hoare_wrapping) (simp add: dirfsReadDir_def osReadDir_def)
  let ?body = "\<lambda>dir vols. andThen (dirfsOpen (metadataPathForVolumeID f dir)) (\<lambda>_. ret (vols @ [dir]))"
  have "hoare (\<lambda>w. exactly w0 g w \<and> [] = ([] :: string list)) (for_acc ?body (children g (troot f)) [])
      (\<lambda>vs w. exactly w0 g w \<and> vs = children g (troot f)) (\<lambda>_ _. False)"
  proof (rule hoare_for_acc_done [where P = "\<lambda>ys vs w. exactly w0 g w \<and> vs = ys"])
    fix ys v zs vs assume "children g (troot f) = ys @ v # zs"
    then have "v \<in> set (children g (troot f))" by simp
    then have ex: "map_of g (troot f @ [v]) \<noteq> None" by (simp add: set_children)
    then obtain m where m: "volumeMeta f g v = Some m"
      using volumeMeta_dom [OF g, of v] by (cases "volumeMeta f g v") auto
    let ?p = "metadataPathForVolumeID f v"
    have p: "canon ?p" "\<not> isAbs ?p" "pcomps ?p = troot f @ [v, ''metadata.json'']"
      using volume_files [OF b volumeMeta_some(2) [OF g m], of "''metadata.json''"]
      by (auto simp: metadataPathForVolumeID_def)
    obtain a c where "map_of g (pcomps ?p) = Some (File a c)" using volumeMeta_some(3) [OF g m] p(3) by auto
    then have "hoare (exactly w0 g) (dirfsOpen ?p) (\<lambda>y w. exactly w0 g w \<and> y = File a c) (\<lambda>_ _. False)"
      by (intro hoare_dirfsOpen [OF ff wf p(1,2)]) (auto simp: islink_def)
    then show "hoare (\<lambda>w. exactly w0 g w \<and> vs = ys) (?body v vs) (\<lambda>vs' w. exactly w0 g w \<and> vs' = ys @ [v]) (\<lambda>_ _. False)"
      by (intro hoare_assume, elim hoare_andThen_ok) (simp add: hoare_def ret_def)
  qed
  then show ?thesis
    unfolding ListVolumes_def by (intro hoare_andThen_ok [OF rd]) simp
qed

section \<open>Registering\<close>

lemma meta_ok_sorted: "meta_ok m \<Longrightarrow> meta_ok (sortedMeta m) \<and> VolumeID (sortedMeta m) = VolumeID m"
  using sortKeys_facts by (simp add: meta_ok_def sortedMeta_def)

text \<open>A tree in which only the entries of one volume changed.\<close>

lemma tree_put:
  assumes g: "tree_ok f g" and g': "wf_fs g'"
    "only_changes {troot f @ [v], troot f @ [v, ''data''], troot f @ [v, ''metadata.json'']} g g'"
    and v: "isdir g' (troot f @ [v])" "isdir g' (troot f @ [v, ''data''])"
    and m: "map_of g' (troot f @ [v, ''metadata.json'']) = Some (File a (marshalMeta m))" "meta_ok m" "VolumeID m = v"
  shows "tree_ok f g' \<and> volumeMeta f g' = (volumeMeta f g)(v \<mapsto> sortedMeta m)"
proof -
  let ?S = "{troot f @ [v], troot f @ [v, ''data''], troot f @ [v, ''metadata.json'']}"
  have same: "map_of g' (troot f @ u # q) = map_of g (troot f @ u # q)" if "u \<noteq> v" for u q
    using only_changes_at [OF g'(2)] that by simp
  have dec: "decodeMeta (marshalMeta m) = Some (sortedMeta m)" by (rule marshal_round_trip(2) [OF m(2)])
  have T: "isdir g' (troot f)"
    using g only_changes_at [OF g'(2), of "troot f"] by (simp add: tree_ok_def isdir_def)
  have "volume_ok f g' u" if "map_of g' (troot f @ [u]) \<noteq> None" for u
  proof (cases "u = v")
    case True
    have "data_ok f g v"
      using g data_ok_new [of g f v] by (cases "map_of g (troot f @ [v])") (auto simp: tree_ok_def volume_ok_def)
    then have "data_ok f g' v"
      using data_ok_ensured [of g f v g'] g g' v(2) only_changes_at [OF g'(2)] by (simp add: data_ok_def tree_ok_def)
    with True show ?thesis
      using v m dec meta_ok_sorted [OF m(2)] by (auto simp: volume_ok_def)
  next
    case False
    then have "volume_ok f g u" using that same [of u "[]"] g by (simp add: tree_ok_def)
    then show ?thesis using same [OF False] g'(1) by (auto intro: volume_ok_cong)
  qed
  moreover have "volumeMeta f g' = (volumeMeta f g)(v \<mapsto> sortedMeta m)"
    using same m dec by (auto simp: volumeMeta_def fun_eq_iff)
  ultimately show ?thesis using T g'(1) by (simp add: tree_ok_def)
qed

lemma hoare_ensureVolumeDirectory:
  assumes ff: "faultfree w0" and b: "base_ok f" and v: "pname v" and g: "wf_fs g" "isdir g (troot f)"
    and vol: "map_of g (troot f @ [v]) = None \<or> isdir g (troot f @ [v])"
    and dat: "map_of g (troot f @ [v, ''data'']) = None \<or> isdir g (troot f @ [v, ''data''])"
  shows "hoare (exactly w0 g) (ensureVolumeDirectory f v)
    (\<lambda>_. on_fs w0 (\<lambda>g'. wf_fs g' \<and> isdir g' (troot f @ [v]) \<and> isdir g' (troot f @ [v, ''data'']) \<and>
       only_changes {troot f @ [v], troot f @ [v, ''data'']} g g')) (\<lambda>_ _. False)"
proof -
  let ?V = "troot f @ [v]" and ?D = "(troot f @ [v]) @ [''data'']"
  let ?R = "\<lambda>g1. wf_fs g1 \<and> isdir g1 ?V \<and> only_changes {?V} g g1"
  have one: "hoare (exactly w0 g) (osMkdirAll (volumePath f v) 0x1A4) (\<lambda>_. on_fs w0 ?R) (\<lambda>_ _. False)"
    by (rule hoare_weaken [OF hoare_osMkdirAll [OF ff g v volumePath_facts(3) [OF b v] vol]])
       (use g v vol in \<open>auto simp: on_fs_def isdir_def only_changes_def good_loc_def intro!: wf_fs_update_new split: if_splits\<close>)
  have two: "hoare (on_fs w0 ?R) (osMkdirAll (dataPathForVolumeID f v) 0x168)
    (\<lambda>_. on_fs w0 (\<lambda>g'. wf_fs g' \<and> isdir g' ?V \<and> isdir g' ?D \<and> only_changes {?V, ?D} g g')) (\<lambda>_ _. False)"
  proof (rule hoare_fix)
    fix g1 assume g1: "?R g1"
    have same: "map_of g1 ?D = map_of g ?D" using g1 by (auto simp: only_changes_def)
    have path: "pcomps (dataPathForVolumeID f v) = ?D"
      using volume_files(3) [OF b v, of "''data''"] by (simp add: dataPathForVolumeID_def)
    have d: "map_of g1 ?D = None \<or> isdir g1 ?D" using dat same by (simp add: isdir_def)
    have fin: "wf_fs g' \<and> isdir g' ?V \<and> isdir g' ?D \<and> only_changes {?V, ?D} g g'"
      if upd: "if isdir g1 ?D then g' = g1 else \<exists>a. g' = AList.update ?D (Dir a) g1" for g'
    proof (cases "isdir g1 ?D")
      case True
      with upd g1 show ?thesis by (auto simp: only_changes_def)
    next
      case False
      then obtain a where a: "g' = AList.update ?D (Dir a) g1" using upd by auto
      have "wf_fs g'" unfolding a by (rule wf_fs_update_new) (use g1 d False in \<open>auto simp: good_loc_def butlast_append\<close>)
      with a g1 show ?thesis by (auto simp: isdir_def only_changes_def)
    qed
    show "hoare (exactly w0 g1) (osMkdirAll (dataPathForVolumeID f v) 0x168)
      (\<lambda>_. on_fs w0 (\<lambda>g'. wf_fs g' \<and> isdir g' ?V \<and> isdir g' ?D \<and> only_changes {?V, ?D} g g')) (\<lambda>_ _. False)"
      by (rule hoare_weaken [OF hoare_osMkdirAll [OF ff _ _ _ path d]])
         (use g1 in simp, use g1 in simp, simp, simp, rule on_fs_mono, assumption, rule fin, simp_all)
  qed
  show ?thesis
    unfolding ensureVolumeDirectory_def using hoare_andThen [OF one two] by simp
qed

lemma hoare_put_metadata:
  assumes ff: "faultfree w0" and b: "base_ok f" and g: "tree_ok f g" and m: "meta_ok m" "pname (VolumeID m)"
  shows "hoare (exactly w0 g) (andThen (ensureVolumeDirectory f (VolumeID m)) (\<lambda>_. WriteMetadata f (VolumeID m) m))
    (\<lambda>_. on_fs w0 (\<lambda>g'. tree_ok f g' \<and> volumeMeta f g' = (volumeMeta f g)(VolumeID m \<mapsto> sortedMeta m))) (\<lambda>_ _. False)"
proof -
  let ?v = "VolumeID m"
  let ?V = "troot f @ [?v]" and ?D = "troot f @ [?v, ''data'']"
  let ?M = "?V @ [''metadata.json'']"
  have wf: "wf_fs g" "isdir g (troot f)" using g by (auto simp: tree_ok_def)
  have old: "(map_of g ?V = None \<or> isdir g ?V) \<and> (map_of g ?D = None \<or> isdir g ?D) \<and> \<not> isdir g ?M \<and> \<not> islink g ?M"
  proof (cases "map_of g ?V")
    case None
    then have "map_of g (?V @ [c]) = None" for c using leaf_of_nondir [OF wf(1), of ?V c] by (simp add: isdir_def)
    from this [of "''data''"] this [of "''metadata.json''"] None show ?thesis by (simp add: isdir_def islink_def)
  next
    case Some
    then have "volume_ok f g ?v" using g by (simp add: tree_ok_def)
    then show ?thesis by (auto simp: volume_ok_def data_ok_def aw_inv_def isdir_def islink_def)
  qed
  let ?R = "\<lambda>g1. wf_fs g1 \<and> isdir g1 ?V \<and> isdir g1 ?D \<and> only_changes {?V, ?D} g g1"
  have one: "hoare (exactly w0 g) (ensureVolumeDirectory f ?v) (\<lambda>_. on_fs w0 ?R) (\<lambda>_ _. False)"
    by (rule hoare_ensureVolumeDirectory [OF ff b m(2) wf]) (use old in auto)
  have path: "pcomps (metadataPathForVolumeID f ?v) = ?M"
    using volume_files(3) [OF b m(2), of "''metadata.json''"] by (simp add: metadataPathForVolumeID_def)
  let ?Q = "\<lambda>g'. tree_ok f g' \<and> volumeMeta f g' = (volumeMeta f g)(?v \<mapsto> sortedMeta m)"
  have two: "hoare (on_fs w0 ?R) (WriteMetadata f ?v m) (\<lambda>_. on_fs w0 ?Q) (\<lambda>_ _. False)"
  proof (rule hoare_fix)
    fix g1 assume g1: "?R g1"
    have "map_of g1 ?M = map_of g ?M" using g1 by (auto simp: only_changes_def)
    then have M: "\<not> isdir g1 ?M" "\<not> islink g1 ?M" using old by (auto simp: isdir_def islink_def)
    have fin: "?Q g'" if g': "wf_fs g'" "map_of g' ?M = Some (File a (marshalMeta m))" "only_changes {?M} g1 g'" for g' a
    proof (rule tree_put [OF g g'(1)])
      show "only_changes {?V, ?D, troot f @ [?v, ''metadata.json'']} g g'"
        using g1 g'(3) by (auto simp: only_changes_def)
      show "isdir g' ?V" "isdir g' ?D" using g1 g'(3) by (auto simp: only_changes_def isdir_def)
    qed (use g'(2) m in auto)
    show "hoare (exactly w0 g1) (WriteMetadata f ?v m) (\<lambda>_. on_fs w0 ?Q) (\<lambda>_ _. False)"
      unfolding WriteMetadata_def
      by (rule hoare_weaken [OF hoare_osWriteFile [OF ff _ _ _ path M]]) (use g1 fin in \<open>auto simp: on_fs_def\<close>)
  qed
  show ?thesis by (rule hoare_andThen [OF one two])
qed

lemma hoare_RegisterMetadata:
  assumes ff: "faultfree w0" and b: "base_ok f" and g: "tree_ok f g" and d: "deepEqual_ok deepEqual"
    and m: "meta_ok meta" "pname (VolumeID meta)"
  shows "hoare (exactly w0 g) (RegisterMetadata deepEqual f meta)
    (\<lambda>r w. r = (\<not> (\<exists>m0. volumeMeta f g (VolumeID meta) = Some m0 \<and>
                 map_of (VolumeContext m0) = map_of (VolumeContext meta))) \<and>
       on_fs w0 (\<lambda>g'. tree_ok f g' \<and> (\<exists>m'. volumeMeta f g' = (volumeMeta f g)(VolumeID meta \<mapsto> m') \<and>
         map_of (VolumeContext m') = map_of (VolumeContext meta))) w) (\<lambda>_ _. False)"
    (is "hoare _ _ ?Q _")
proof (cases "volumeMeta f g (VolumeID meta)")
  case None
  have s: "map_of (VolumeContext (sortedMeta meta)) = map_of (VolumeContext meta)"
    using m(1) map_of_sortKeys by (simp add: sortedMeta_def meta_ok_def)
  have "hoare (exactly w0 g) (andThen (ensureVolumeDirectory f (VolumeID meta))
      (\<lambda>_. andThen (WriteMetadata f (VolumeID meta) meta) (\<lambda>_. ret True))) ?Q (\<lambda>_ _. False)"
    unfolding andThen_assoc [symmetric]
    by (rule hoare_andThen [OF hoare_put_metadata [OF ff b g m]])
       (use None s in \<open>auto simp: hoare_def ret_def on_fs_def\<close>)
  then show ?thesis
    unfolding RegisterMetadata_def
    by (intro hoare_attempt_err [OF hoare_ReadMetadata_missing [OF ff b g None m(2)]]) simp
next
  case (Some m0)
  have v0: "VolumeID m0 = VolumeID meta" "meta_ok m0" using volumeMeta_some [OF g Some] by auto
  define m1 where "m1 = m0\<lparr>VolumeContext := VolumeContext meta\<rparr>"
  have m1: "meta_ok m1" "pname (VolumeID m1)" "VolumeID m1 = VolumeID meta"
    "map_of (VolumeContext (sortedMeta m1)) = map_of (VolumeContext meta)"
    using v0 m map_of_sortKeys by (auto simp: m1_def meta_ok_def sortedMeta_def)
  have wr: "hoare (exactly w0 g) (andThen (ensureVolumeDirectory f (VolumeID meta))
      (\<lambda>_. andThen (WriteMetadata f (VolumeID m1) m1) (\<lambda>_. ret True))) ?Q (\<lambda>_ _. False)"
    if "map_of (VolumeContext m0) \<noteq> map_of (VolumeContext meta)"
    unfolding andThen_assoc [symmetric] m1(3) [symmetric]
    by (rule hoare_andThen [OF hoare_put_metadata [OF ff b g m1(1,2)]])
       (use Some that m1 in \<open>auto simp: hoare_def ret_def on_fs_def\<close>)
  have keep: "hoare (exactly w0 g) (ret False) ?Q (\<lambda>_ _. False)"
    if "map_of (VolumeContext m0) = map_of (VolumeContext meta)"
    using that Some g by (auto simp: hoare_def ret_def on_fs_def intro!: exI [of _ m0])
  show ?thesis
    unfolding RegisterMetadata_def
    by (rule hoare_attempt_ok [OF hoare_ReadMetadata_found [OF ff b g Some]])
       (use wr keep d in \<open>auto simp: deepEqual_ok_def Let_def m1_def\<close>)
qed

section \<open>Removing\<close>

lemma last_two_not_dot: "pname v \<Longrightarrow> drop (length (d @ sep # v) - 2) (d @ sep # v) \<noteq> ''/.''"
proof -
  assume v: "pname v"
  have "drop (length (d @ sep # v) - 2) (d @ sep # v) = drop (length v - 1) (sep # v)"
    using v by (cases v) (auto simp: pname_def)
  moreover have "drop (length v - 1) (sep # v) \<noteq> ''/.''"
  proof (cases v rule: rev_cases)
    case (snoc u c)
    show ?thesis
    proof (cases u rule: rev_cases)
      case Nil
      then show ?thesis using v snoc by (simp add: pname_def)
    next
      case (snoc x y)
      then show ?thesis using v \<open>v = u @ [c]\<close> by (auto simp: pname_def)
    qed
  qed simp
  ultimately show ?thesis by simp
qed

lemma hoare_RemoveVolume:
  assumes ff: "faultfree w0" and b: "base_ok f" and g: "tree_ok f g" and v: "pname v"
  shows "hoare (exactly w0 g) (RemoveVolume f v)
    (\<lambda>_. on_fs w0 (\<lambda>g'. tree_ok f g' \<and> volumeMeta f g' = (volumeMeta f g)(v := None))) (\<lambda>_ _. False)"
proof -
  let ?V = "troot f @ [v]"
  have wf: "wf_fs g" "isdir g (troot f)" using g by (auto simp: tree_ok_def)
  have path: "fjoin (tempfsPath f) v = tempfsPath f @ sep # v" "pcomps (fjoin (tempfsPath f) v) = ?V"
    using fjoin_canon_name(1) [OF tempfsPath_facts(1) [OF b] v] volumePath_facts(3) [OF b v]
    by (auto simp: volumePath_def)
  have res: "resolve g False (fjoin (tempfsPath f) v) = Inr ?V"
    by (rule resolve_child [OF wf path(2) v]) simp
  have nodot: "drop (length (fjoin (tempfsPath f) v) - 2) (fjoin (tempfsPath f) v) \<noteq> ''/.''"
    "fjoin (tempfsPath f) v \<noteq> ''.''"
    using last_two_not_dot [OF v, of "tempfsPath f"] v path(1)
    by (simp_all add: append_eq_Cons_conv)
  have fin: "tree_ok f g' \<and> volumeMeta f g' = (volumeMeta f g)(v := None)" if "pruned g {q. prefix ?V q} g'" for g'
  proof -
    have at: "map_of g' (troot f @ u # q) = (if u = v then None else map_of g (troot f @ u # q))" for u q
      using that by (auto simp: pruned_def)
    have T: "isdir g' (troot f)" using that wf(2) by (simp add: pruned_def isdir_def prefix_def)
    have "volume_ok f g' u" if "map_of g' (troot f @ [u]) \<noteq> None" for u
      using that at g volume_ok_cong [of f g u g'] \<open>pruned g _ g'\<close> by (cases "u = v") (auto simp: tree_ok_def pruned_def)
    moreover have "volumeMeta f g' = (volumeMeta f g)(v := None)" using at by (auto simp: volumeMeta_def fun_eq_iff)
    ultimately show ?thesis using that T by (simp add: tree_ok_def pruned_def)
  qed
  show ?thesis
    unfolding RemoveVolume_def
    by (rule hoare_weaken [OF hoare_osRemoveAll [OF ff wf(1) res]])
       (use nodot path fin in \<open>auto simp: on_fs_def\<close>)
qed

section \<open>The contract\<close>

lemma fs_run:
  assumes "fs_ok f w" "hoare (exactly w (wfs w)) m Q (\<lambda>_ _. False)"
  shows "\<exists>x w'. m w = (Inr x, w') \<and> Q x w'"
  using hoare_run [OF assms(2)] by simp

lemma fs_ok_same: "fs_ok f w \<Longrightarrow> same_env w w' \<Longrightarrow> tree_ok f (wfs w') \<Longrightarrow> fs_ok f w'"
  by (auto simp: fs_ok_def world_ok_def same_env_def intro: faultfree_same)

lemma fs_store:
  assumes "deepEqual_ok deepEqual"
  shows "metadata_store (fs_ok f) (fsMetas f) pname (ReadMetadata f) (ListVolumes f) (RegisterMetadata deepEqual f) (RemoveVolume f)"
proof
  fix s v m assume "fs_ok f s" "fsMetas f s v = Some m"
  then show "pname v" using volumeMeta_some(2) by (auto simp: fs_ok_def fsMetas_def)
next
  fix s v m assume s: "fs_ok f s" "fsMetas f s v = Some m"
  then have "hoare (exactly s (wfs s)) (ReadMetadata f v) (\<lambda>y w. exactly s (wfs s) w \<and> y = m) (\<lambda>_ _. False)"
    by (intro hoare_ReadMetadata_found) (auto simp: fs_ok_def fsMetas_def)
  from fs_run [OF s(1) this] show "\<exists>s'. ReadMetadata f v s = (Inr m, s') \<and> fs_ok f s' \<and> fsMetas f s' = fsMetas f s"
    using fs_ok_same [OF s(1)] s(1) by (auto simp: on_fs_def fsMetas_def fs_ok_def)
next
  fix s v assume s: "fs_ok f s" "pname v" "fsMetas f s v = None"
  then have "hoare (exactly s (wfs s)) (ReadMetadata f v) (\<lambda>_ _. False)
      (\<lambda>e w. exactly s (wfs s) w \<and> e = Wrap ''reading metadata file'' ErrNotFound)"
    by (intro hoare_ReadMetadata_missing) (auto simp: fs_ok_def fsMetas_def)
  then obtain e w' where "ReadMetadata f v s = (Inl e, w')" "exactly s (wfs s) w'"
      "e = Wrap ''reading metadata file'' ErrNotFound"
    using hoare_run_err [of "exactly s (wfs s)" "ReadMetadata f v" _ s] by fastforce
  with s(1) fs_ok_same [OF s(1), of w'] show "\<exists>e s'. ReadMetadata f v s = (Inl e, s') \<and> errors_Is e ErrNotFound \<and>
      fs_ok f s' \<and> fsMetas f s' = fsMetas f s"
    by (auto simp: on_fs_def fsMetas_def fs_ok_def)
next
  fix s assume s: "fs_ok f s"
  then have "hoare (exactly s (wfs s)) (ListVolumes f) (\<lambda>vs w. exactly s (wfs s) w \<and> vs = children (wfs s) (troot f)) (\<lambda>_ _. False)"
    by (intro hoare_ListVolumes) (auto simp: fs_ok_def)
  from fs_run [OF s this] obtain s' where r: "ListVolumes f s = (Inr (children (wfs s) (troot f)), s')" "exactly s (wfs s) s'"
    by auto
  have "set (children (wfs s) (troot f)) = dom (fsMetas f s)"
    using volumeMeta_dom s by (auto simp: set_children fsMetas_def fs_ok_def dom_def)
  with r s fs_ok_same [OF s, of s'] show "\<exists>vs s'. ListVolumes f s = (Inr vs, s') \<and> set vs = dom (fsMetas f s) \<and>
      fs_ok f s' \<and> fsMetas f s' = fsMetas f s"
    by (auto simp: on_fs_def fsMetas_def fs_ok_def)
next
  fix s meta assume s: "fs_ok f s" "pname (VolumeID meta)" "meta_ok meta"
  then have "hoare (exactly s (wfs s)) (RegisterMetadata deepEqual f meta)
    (\<lambda>r w. r = (\<not> (\<exists>m0. volumeMeta f (wfs s) (VolumeID meta) = Some m0 \<and>
                 map_of (VolumeContext m0) = map_of (VolumeContext meta))) \<and>
       on_fs s (\<lambda>g'. tree_ok f g' \<and> (\<exists>m'. volumeMeta f g' = (volumeMeta f (wfs s))(VolumeID meta \<mapsto> m') \<and>
         map_of (VolumeContext m') = map_of (VolumeContext meta))) w) (\<lambda>_ _. False)"
    using assms by (intro hoare_RegisterMetadata) (auto simp: fs_ok_def)
  from fs_run [OF s(1) this] fs_ok_same [OF s(1)]
  show "\<exists>m s'. RegisterMetadata deepEqual f meta s =
          (Inr (\<not> (\<exists>m0. fsMetas f s (VolumeID meta) = Some m0 \<and>
                   map_of (VolumeContext m0) = map_of (VolumeContext meta))), s') \<and>
        fs_ok f s' \<and> fsMetas f s' = (fsMetas f s)(VolumeID meta \<mapsto> m) \<and>
        map_of (VolumeContext m) = map_of (VolumeContext meta)"
    by (fastforce simp: on_fs_def fsMetas_def)
next
  fix s v assume s: "fs_ok f s" "pname v"
  then have "hoare (exactly s (wfs s)) (RemoveVolume f v)
    (\<lambda>_. on_fs s (\<lambda>g'. tree_ok f g' \<and> volumeMeta f g' = (volumeMeta f (wfs s))(v := None))) (\<lambda>_ _. False)"
    by (intro hoare_RemoveVolume) (auto simp: fs_ok_def)
  from fs_run [OF s(1) this] fs_ok_same [OF s(1)]
  show "\<exists>s'. RemoveVolume f v s = (Inr (), s') \<and> fs_ok f s' \<and> fsMetas f s' = (fsMetas f s)(v := None)"
    by (auto simp: on_fs_def fsMetas_def)
qed

interpretation fsb: metadata_store "fs_ok f" "fsMetas f" pname "ReadMetadata f" "ListVolumes f"
  "RegisterMetadata sameEntries f" "RemoveVolume f" for f
  by (rule fs_store [OF deepEqual_ok_sameEntries])

section \<open>A sample store\<close>

definition sampleFSB :: Filesystem where
  "sampleFSB = \<lparr>baseDir = ''b'', FixedFSGroup = None, FSGroupVolumeAttributeKey = ''fs-group''\<rparr>"

definition volMeta :: Metadata where
  "volMeta = \<lparr>VolumeID = ''v1'', TargetPath = ''/t'', VolumeContext = [(''k'', ''x'')]\<rparr>"

text \<open>The volume \<^verbatim>\<open>v1\<close> is stored.\<close>

definition volFS :: fs where
  "volFS = [([], Dir rootAttr), ([''b''], Dir rootAttr), ([''b'', ''inmemfs''], Dir rootAttr),
     ([''b'', ''inmemfs'', ''v1''], Dir rootAttr), ([''b'', ''inmemfs'', ''v1'', ''data''], Dir rootAttr),
     ([''b'', ''inmemfs'', ''v1'', ''metadata.json''], File rootAttr (marshalMeta volMeta))]"

lemma base_ok_sample: "base_ok sampleFSB"
  by (simp add: base_ok_def sampleFSB_def canon_def nodots_def pcomps_def isAbs_def)

lemma troot_sample: "troot sampleFSB = [''b'', ''inmemfs'']"
  by (simp add: troot_def sampleFSB_def pcomps_def)

lemma meta_ok_volMeta: "meta_ok volMeta"
  by code_simp

lemma tree_ok_volFS: "tree_ok sampleFSB volFS"
proof -
  have wf: "wf_fs volFS" by (auto simp: wf_fs_def isdir_def volFS_def pname_def split: if_splits)
  have "volume_ok sampleFSB volFS v" if "map_of volFS [''b'', ''inmemfs'', v] \<noteq> None" for v
  proof -
    have "v = ''v1''" using that by (auto simp: volFS_def split: if_splits)
    then show ?thesis
      using wf marshal_round_trip(2) [OF meta_ok_volMeta] meta_ok_sorted [OF meta_ok_volMeta]
      by (auto simp: volume_ok_def data_ok_def aw_inv_def vis_def troot_sample isdir_def volFS_def volMeta_def dataDirName_def
          split: if_splits)
  qed
  with wf show ?thesis by (simp add: tree_ok_def troot_sample isdir_def volFS_def)
qed

lemma fs_ok_volFS: "fs_ok sampleFSB (sampleWorld volFS)"
  by (simp add: fs_ok_def base_ok_sample tree_ok_volFS)

section \<open>Properties\<close>





lemma tempfsPath_rooted:
  assumes "isAbs (baseDir f)"
  shows "\<not> validFSPath (tempfsPath f)"
proof -
  obtain p where "baseDir f = sep # p" using assms by (cases "baseDir f") (auto simp: isAbs_def)
  then have "isAbs (tempfsPath f)"
    by (simp add: tempfsPath_def fjoin_def clean_def isAbs_def Let_def)
  then show ?thesis
    by (cases "tempfsPath f") (auto simp: isAbs_def validFSPath_def splitc_sep_Cons)
qed

text \<open>
  \<open>ListVolumes\<close> fails on every backend whose base directory is absolute, whatever it contains:
  the path is handed to \<^verbatim>\<open>os.DirFS("/")\<close>, which accepts no rooted path. With the default
  \<^verbatim>\<open>--data-root /csi-data-dir\<close> the manager cannot start.
\<close>

theorem ListVolumes_absolute_base:
  assumes "isAbs (baseDir f)"
  shows "ListVolumes f w = (Inl (Wrap ''listing volumes'' (Sys EINVAL)), w)"
  using tempfsPath_rooted [OF assms]
  by (simp add: ListVolumes_def dirfsReadDir_def wrapping_def attempt_def throw_def andThen_def)

theorem ListVolumes_absolute_base_witness:
  "ListVolumes (sampleFSB\<lparr>baseDir := ''/csi-data-dir''\<rparr>) (sampleWorld volFS) =
     (Inl (Wrap ''listing volumes'' (Sys EINVAL)), sampleWorld volFS)"
  by (rule ListVolumes_absolute_base) (simp add: isAbs_def)

lemma fjoin_canon_empty:
  assumes "canon p" "\<not> isAbs p"
  shows "fjoin p [] = p"
proof -
  have p: "p \<noteq> []" "nodots p" "pcomps p \<noteq> []" "p = joinc sep (pcomps p)"
    using assms by (auto simp: canon_def)
  then have "nodots (p @ [sep])" "pcomps (p @ [sep]) = pcomps p" "\<not> isAbs (p @ [sep])"
    using nodots_append_sep [of p "[]"] pcomps_append_sep [of p "[]"] assms(2)
    by (auto simp: isAbs_def split: list.splits)
  with p clean_nodots [of "p @ [sep]"] show ?thesis by (simp add: fjoin_def)
qed



section \<open>Group ids\<close>

lemma digit_facts:
  assumes "d < 10"
  shows "isDigit (digit d) \<and> byte (digit d) - 0x30 = d"
proof -
  have "\<forall>d \<in> set [0..<10]. isDigit (digit d) \<and> byte (digit d) - 0x30 = d" by code_simp
  with assms show ?thesis by simp
qed

lemma digitsValue_append:
  "digitsValue (s @ t) acc = (case digitsValue s acc of None \<Rightarrow> None | Some a \<Rightarrow> digitsValue t a)"
  by (induction s acc rule: digitsValue.induct) auto

lemma digitsValue_itoa: "digitsValue (itoa n) 0 = Some n"
proof (induction n rule: itoa.induct)
  case (1 n)
  show ?case
  proof (cases "n < 10")
    case True
    then show ?thesis using digit_facts [of n] by (simp add: itoa.simps [of n])
  next
    case False
    then show ?thesis using 1 digit_facts [of "n mod 10"] by (simp add: itoa.simps [of n] digitsValue_append)
  qed
qed

lemma parseInt64_itoa: "n < 2 ^ 63 \<Longrightarrow> parseInt64 (itoa n) = Inr (int n)"
proof -
  assume n: "n < 2 ^ 63"
  obtain c s where c: "itoa n = c # s" by (cases "itoa n") auto
  have "isDigit c" using digitsValue_itoa [of n] c by (auto split: if_splits)
  then have "c \<noteq> CHR ''-''" "c \<noteq> CHR ''+''" by (auto simp: isDigit_def between_def)
  moreover have "int n < 2 ^ 63" using n by (metis of_nat_less_numeral_power_cancel_iff)
  ultimately show ?thesis
    using digitsValue_itoa [of n] c by (simp add: parseInt64_def hasPrefix_def Let_def)
qed



end
