(* ===== verification/Storage_Facts.thy ===== *)
theory Storage_Facts
  imports Storage_Filesystem_Facts
begin

text \<open>
  Both storage backends implement one specification: a finite map from volume IDs to volume contexts. A sequence of
  calls gives the same answers on the filesystem backend, on the memory backend and on the map.
\<close>

section \<open>The specification\<close>

datatype storeCall = RegisterCall Metadata | RemoveCall string | ReadCall string | ListCall

text \<open>What a caller sees of the answer: volume contexts by their entries, and whether an error is \<^verbatim>\<open>ErrNotFound\<close>.\<close>

datatype answer = Registered bool | Removed | FoundContext "string \<Rightarrow> string option" | NotFound | Volumes "string set" | Failed goerr

type_synonym contexts = "string \<Rightarrow> (string \<Rightarrow> string option) option"

fun specCall :: "storeCall \<Rightarrow> contexts \<Rightarrow> answer \<times> contexts" where
  "specCall (RegisterCall meta) M =
     (Registered (M (VolumeID meta) \<noteq> Some (map_of (VolumeContext meta))), M(VolumeID meta \<mapsto> map_of (VolumeContext meta)))"
| "specCall (RemoveCall v) M = (Removed, M(v := None))"
| "specCall (ReadCall v) M = ((case M v of None \<Rightarrow> NotFound | Some c \<Rightarrow> FoundContext c), M)"
| "specCall ListCall M = (Volumes (dom M), M)"

section \<open>Calls on a backend\<close>

definition answerOf :: "('a \<Rightarrow> answer) \<Rightarrow> goerr + 'a \<Rightarrow> answer" where
  "answerOf f r = (case r of Inr x \<Rightarrow> f x | Inl e \<Rightarrow> if errors_Is e ErrNotFound then NotFound else Failed e)"

fun runCall ::
  "(string \<Rightarrow> ('s, Metadata) io) \<Rightarrow> ('s, string list) io \<Rightarrow> (Metadata \<Rightarrow> ('s, bool) io) \<Rightarrow> (string \<Rightarrow> ('s, unit) io) \<Rightarrow>
   storeCall \<Rightarrow> 's \<Rightarrow> answer \<times> 's" where
  "runCall rd ls reg rm (RegisterCall meta) s = map_prod (answerOf Registered) id (reg meta s)"
| "runCall rd ls reg rm (RemoveCall v) s = map_prod (answerOf (\<lambda>_. Removed)) id (rm v s)"
| "runCall rd ls reg rm (ReadCall v) s = map_prod (answerOf (\<lambda>m. FoundContext (map_of (VolumeContext m)))) id (rd v s)"
| "runCall rd ls reg rm ListCall s = map_prod (answerOf (\<lambda>vs. Volumes (set vs))) id (ls s)"

text \<open>A sequence of calls and all its answers.\<close>

fun calls :: "('c \<Rightarrow> 's \<Rightarrow> 'a \<times> 's) \<Rightarrow> 'c list \<Rightarrow> 's \<Rightarrow> 'a list \<times> 's" where
  "calls f [] s = ([], s)"
| "calls f (c # cs) s = (case f c s of (a, s1) \<Rightarrow> case calls f cs s1 of (as, s2) \<Rightarrow> (a # as, s2))"

fun call_ok :: "(string \<Rightarrow> bool) \<Rightarrow> storeCall \<Rightarrow> bool" where
  "call_ok val (RegisterCall meta) \<longleftrightarrow> val (VolumeID meta) \<and> meta_ok meta"
| "call_ok val (RemoveCall v) \<longleftrightarrow> val v"
| "call_ok val (ReadCall v) \<longleftrightarrow> val v"
| "call_ok val ListCall \<longleftrightarrow> True"

definition contextsOf :: "(string \<Rightarrow> Metadata option) \<Rightarrow> contexts" where
  "contextsOf M v = map_option (\<lambda>m. map_of (VolumeContext m)) (M v)"

lemma contextsOf_upd [simp]:
  "contextsOf (M(v \<mapsto> m)) = (contextsOf M)(v \<mapsto> map_of (VolumeContext m))" "contextsOf (M(v := None)) = (contextsOf M)(v := None)"
  by (auto simp: contextsOf_def fun_eq_iff)

lemma dom_contextsOf [simp]: "dom (contextsOf M) = dom M"
  by (auto simp: contextsOf_def dom_def)

context metadata_store
begin

lemma call_refines:
  assumes "ok s" "call_ok valid_id c"
  shows "\<exists>s'. runCall readMetadata listVolumes registerMetadata removeVolume c s = (fst (specCall c (contextsOf (metas s))), s') \<and>
    ok s' \<and> contextsOf (metas s') = snd (specCall c (contextsOf (metas s)))"
proof (cases c)
  case (RegisterCall meta)
  then obtain m s' where "registerMetadata meta s = (Inr (\<not> (\<exists>m0. metas s (VolumeID meta) = Some m0 \<and>
        map_of (VolumeContext m0) = map_of (VolumeContext meta))), s')" "ok s'"
      "metas s' = (metas s)(VolumeID meta \<mapsto> m)" "map_of (VolumeContext m) = map_of (VolumeContext meta)"
    using register_meta [OF assms(1), of meta] assms(2) by auto
  with RegisterCall show ?thesis by (auto simp: answerOf_def contextsOf_def [of _ "VolumeID meta"])
next
  case (RemoveCall v)
  then show ?thesis using remove_volume [OF assms(1), of v] assms(2) by (auto simp: answerOf_def)
next
  case (ReadCall v)
  then show ?thesis
  proof (cases "metas s v")
    case None
    with ReadCall show ?thesis using read_missing [OF assms(1) _ None] assms(2) by (auto simp: answerOf_def contextsOf_def [of _ v])
  next
    case (Some m)
    with ReadCall show ?thesis using read_found [OF assms(1) Some] by (auto simp: answerOf_def contextsOf_def [of _ v])
  qed
next
  case ListCall
  then show ?thesis using list_all [OF assms(1)] by (auto simp: answerOf_def)
qed

text \<open>The simulation carries over to sequences.\<close>

lemma calls_refine:
  assumes "ok s" "list_all (call_ok valid_id) cs"
  shows "\<exists>s'. calls (runCall readMetadata listVolumes registerMetadata removeVolume) cs s =
      (fst (calls specCall cs (contextsOf (metas s))), s') \<and> ok s' \<and>
    contextsOf (metas s') = snd (calls specCall cs (contextsOf (metas s)))"
  using assms
proof (induction cs arbitrary: s)
  case (Cons c cs)
  obtain s1 where s1: "runCall readMetadata listVolumes registerMetadata removeVolume c s = (fst (specCall c (contextsOf (metas s))), s1)"
      "ok s1" "contextsOf (metas s1) = snd (specCall c (contextsOf (metas s)))"
    using call_refines [of s c] Cons.prems by auto
  with Cons.IH [of s1] Cons.prems show ?case by (auto split: prod.splits)
qed simp

end

text \<open>
  C15. The filesystem backend refines the map of volume contexts: every sequence of register, remove, read and list
  calls, with volume IDs that are proper names and valid metadata, gives exactly the answers that the map
  gives, and the store then stands for the map's final state. In particular no call fails but for a read of a
  volume that is not there.
\<close>

theorem filesystem_refines_map:
  assumes "deepEqual_ok deepEqual" "fs_ok f w" "list_all (call_ok pname) cs"
  shows "\<exists>w'. calls (runCall (ReadMetadata f) (ListVolumes f) (RegisterMetadata deepEqual f) (RemoveVolume f)) cs w =
      (fst (calls specCall cs (contextsOf (fsMetas f w))), w') \<and> fs_ok f w' \<and>
    contextsOf (fsMetas f w') = snd (calls specCall cs (contextsOf (fsMetas f w)))"
  by (rule metadata_store.calls_refine [OF fs_store [OF assms(1)] assms(2,3)])

definition sampleCalls :: "storeCall list" where
  "sampleCalls = [RegisterCall volMeta, ReadCall ''v1'', RemoveCall ''v1'', ReadCall ''v1'', ListCall]"

lemma sampleCalls_ok: "list_all (call_ok val) sampleCalls" if "val ''v1''" for val
proof -
  have "VolumeID volMeta = ''v1''" by (simp add: volMeta_def)
  then show ?thesis using that meta_ok_volMeta by (simp add: sampleCalls_def)
qed

lemma sample_contexts: "contextsOf (fsMetas sampleFSB (sampleWorld volFS)) = [''v1'' \<mapsto> [''k'' \<mapsto> ''x'']]"
proof
  fix v
  have "decodeMeta (marshalMeta volMeta) = Some (sortedMeta volMeta)" "map_of (VolumeContext (sortedMeta volMeta)) = [''k'' \<mapsto> ''x'']"
    using marshal_round_trip(2) [OF meta_ok_volMeta] map_of_sortKeys [of "VolumeContext volMeta"]
    by (simp_all add: sortedMeta_def volMeta_def)
  moreover have "map_of volFS [''b'', ''inmemfs'', v, ''metadata.json''] =
      (if v = ''v1'' then Some (File rootAttr (marshalMeta volMeta)) else None)"
    by (simp add: volFS_def)
  ultimately show "contextsOf (fsMetas sampleFSB (sampleWorld volFS)) v = [''v1'' \<mapsto> [''k'' \<mapsto> ''x'']] v"
    by (simp add: contextsOf_def fsMetas_def volumeMeta_def troot_sample)
qed

theorem filesystem_refines_map_witness:
  "\<exists>w'. calls (runCall (ReadMetadata sampleFSB) (ListVolumes sampleFSB) (RegisterMetadata sameEntries sampleFSB)
       (RemoveVolume sampleFSB)) sampleCalls (sampleWorld volFS) =
     ([Registered False, FoundContext [''k'' \<mapsto> ''x''], Removed, NotFound, Volumes {}], w')"
  using filesystem_refines_map [OF deepEqual_ok_sameEntries fs_ok_volFS sampleCalls_ok]
  by (auto simp: sample_contexts sampleCalls_def volMeta_def pname_def)

text \<open>
  C16. The two backends are interchangeable: from stores that hold the same volume contexts every sequence of
  calls gets the same answers from the memory backend as from the filesystem backend.
\<close>

theorem backends_agree:
  assumes "deepEqual_ok deepEqual" "fs_ok f w" "mem_ok m" "contextsOf (memMetas m) = contextsOf (fsMetas f w)"
    and "list_all (call_ok pname) cs"
  shows "fst (calls (runCall memReadMetadata memListVolumes (memRegisterMetadata deepEqual) memRemoveVolume) cs m) =
    fst (calls (runCall (ReadMetadata f) (ListVolumes f) (RegisterMetadata deepEqual f) (RemoveVolume f)) cs w)"
proof -
  have "call_ok (\<lambda>_. True) c" if "call_ok pname c" for c using that by (cases c) auto
  then have "list_all (call_ok (\<lambda>_. True)) cs" using assms(5) by (simp add: list_all_iff)
  note mem = metadata_store.calls_refine [OF mem_store [OF assms(1)] assms(3) this]
  show ?thesis
    using mem metadata_store.calls_refine [OF fs_store [OF assms(1)] assms(2,5)] unfolding assms(4) by auto
qed

theorem backends_agree_witness:
  "fst (calls (runCall memReadMetadata memListVolumes (memRegisterMetadata sameEntries) memRemoveVolume) sampleCalls
       \<lparr>files = [(''v1'', [(''metadata.json'', marshalMeta volMeta)])]\<rparr>) =
   fst (calls (runCall (ReadMetadata sampleFSB) (ListVolumes sampleFSB) (RegisterMetadata sameEntries sampleFSB)
       (RemoveVolume sampleFSB)) sampleCalls (sampleWorld volFS))"
proof (rule backends_agree [OF deepEqual_ok_sameEntries fs_ok_volFS])
  let ?m = "\<lparr>files = [(''v1'', [(''metadata.json'', marshalMeta volMeta)])]\<rparr>"
  have u: "unmarshalMeta (marshalMeta volMeta) = Some (sortedMeta volMeta)" "map_of (VolumeContext (sortedMeta volMeta)) = [''k'' \<mapsto> ''x'']"
    using marshal_round_trip(1) [OF meta_ok_volMeta] map_of_sortKeys [of "VolumeContext volMeta"]
    by (simp_all add: sortedMeta_def volMeta_def)
  then show "mem_ok ?m" by (simp add: mem_ok_def metadataFile_def)
  show "contextsOf (memMetas ?m) = contextsOf (fsMetas sampleFSB (sampleWorld volFS))"
    using u by (auto simp: sample_contexts contextsOf_def memMetas_def metadataFile_def fun_eq_iff)
qed (simp add: sampleCalls_ok pname_def)

section \<open>The memory backend's files\<close>

text \<open>
  Files written to a volume of the memory backend are read back: a written file has its new content, every
  other file of the volume keeps its content, and no other volume changes. Nothing is ever removed, unlike on the
  filesystem backend.
\<close>

theorem memory_files_round_trip:
  assumes "distinct (mkeys fls)" "mget (files m) (VolumeID meta) = Some vol" "distinct (mkeys vol)"
  shows "\<exists>m' got. memWriteFiles meta fls m = (Inr (), m') \<and> memReadFiles (VolumeID meta) m' = (Inr got, m') \<and>
    mget got = (map_of vol) ++ (map_of fls) \<and> (\<forall>v. v \<noteq> VolumeID meta \<longrightarrow> mget (files m') v = mget (files m) v)"
proof -
  have put: "distinct (mkeys (mput_all xs ys))" if "distinct (mkeys ys)" for xs ys :: "string gomap"
    using that by (induction xs ys rule: mput_all.induct) (auto simp: distinct_update)
  have "mget (mput_all (mput_all fls vol) []) = map_of vol ++ map_of fls"
    using mput_all_distinct [OF put [OF assms(3), of fls], of "[]"] mput_all_distinct [OF assms(1), of vol]
    by (auto simp: fun_eq_iff map_add_def split: option.splits)
  with assms(2) show ?thesis by (simp add: memWriteFiles_def memReadFiles_def)
qed

theorem memory_files_round_trip_witness:
  "\<exists>m' got. memWriteFiles volMeta [(''a'', ''b'')] \<lparr>files = [(''v1'', [(''a'', ''x''), (''c'', ''d'')])]\<rparr> = (Inr (), m') \<and>
     memReadFiles ''v1'' m' = (Inr got, m') \<and> mget got ''a'' = Some ''b'' \<and> mget got ''c'' = Some ''d''"
proof -
  obtain m' got where "memWriteFiles volMeta [(''a'', ''b'')] \<lparr>files = [(''v1'', [(''a'', ''x''), (''c'', ''d'')])]\<rparr> = (Inr (), m')"
      "memReadFiles ''v1'' m' = (Inr got, m')" "mget got = map_of [(''a'', ''x''), (''c'', ''d'')] ++ map_of [(''a'', ''b'')]"
    using memory_files_round_trip [of "[(''a'', ''b'')]" "\<lparr>files = [(''v1'', [(''a'', ''x''), (''c'', ''d'')])]\<rparr>" volMeta]
    by (auto simp: volMeta_def)
  then show ?thesis by auto
qed

text \<open>
  The memory backend keeps the metadata among the files of the volume. A file of that name that is written to
  the volume replaces its metadata: when it is no JSON the volume's metadata cannot be read any more, while
  listing still shows the volume.
\<close>

theorem memory_files_replace_metadata:
  assumes "distinct (mkeys fls)" "mget fls ''metadata.json'' = Some junk" "unmarshalMeta junk = None"
    and "mget (files m) (VolumeID meta) = Some vol"
  shows "\<exists>m' vs. memWriteFiles meta fls m = (Inr (), m') \<and> memReadMetadata (VolumeID meta) m' = (Inl ErrInvalidJSON, m') \<and>
    memListVolumes m' = (Inr vs, m') \<and> VolumeID meta \<in> set vs"
proof -
  let ?m = "m\<lparr>files := mput (VolumeID meta) (mput_all fls vol) (files m)\<rparr>"
  have "memWriteFiles meta fls m = (Inr (), ?m)" using assms(4) by (simp add: memWriteFiles_def)
  moreover have "memReadMetadata (VolumeID meta) ?m = (Inl ErrInvalidJSON, ?m)"
    using assms mput_all_distinct [OF assms(1)] by (simp add: memReadMetadata_def metadataFile_def)
  moreover have "VolumeID meta \<in> set (mkeys (files ?m))" by (simp add: dom_update)
  ultimately show ?thesis by (auto simp: memListVolumes_def)
qed

theorem memory_files_replace_metadata_witness:
  "\<exists>m'. memWriteFiles volMeta [(''metadata.json'', ''x'')] \<lparr>files = [(''v1'', [(''metadata.json'', marshalMeta volMeta)])]\<rparr> = (Inr (), m') \<and>
     memReadMetadata ''v1'' m' = (Inl ErrInvalidJSON, m')"
proof -
  have "unmarshalMeta ''x'' = None" by code_simp
  then show ?thesis
    using memory_files_replace_metadata [of "[(''metadata.json'', ''x'')]" "''x''" "\<lparr>files = [(''v1'', [(''metadata.json'', marshalMeta volMeta)])]\<rparr>" volMeta]
    by (auto simp: volMeta_def)
qed

section \<open>The group of the files\<close>



end
