(* ===== verification/Manager.thy ===== *)
theory Manager
  imports Storage_Filesystem_Facts
begin

text \<open>
  Model of \<^verbatim>\<open>pkg/manager\<close> and \<^verbatim>\<open>pkg/internal/api/util/hash.go\<close>. A manager keeps a stop channel for every
  volume it manages. The environment \<open>'e\<close> is what its callbacks act on: the storage backend, the
  certificate source and the file system.
\<close>

section \<open>HashIdentifier\<close>

text \<open>\<^verbatim>\<open>fnv.New32\<close>: the FNV-1 hash, on 32-bit words.\<close>

definition fnv32 :: "string \<Rightarrow> 32 word" where
  "fnv32 s = fold (\<lambda>c h. (h * 16777619) XOR of_nat (byte c)) s 2166136261"

text \<open>The argument \<open>safeEncodeString\<close> stands for \<^verbatim>\<open>rand.SafeEncodeString\<close> of the Kubernetes API machinery.\<close>

definition HashIdentifier :: "(string \<Rightarrow> string) \<Rightarrow> string \<Rightarrow> string" where
  "HashIdentifier safeEncodeString s = safeEncodeString (itoa (unat (fnv32 s)))"

section \<open>Data\<close>

record 'e MetadataReader =
  readerReadMetadata :: "string \<Rightarrow> ('e, Metadata) io"
  readerListVolumes :: "('e, string list) io"

type_synonym 'e GetCertificatesFunc = "Metadata \<Rightarrow> ('e, string gomap) io"
type_synonym 'e WriteCertificatesFunc = "Metadata \<Rightarrow> string gomap \<Rightarrow> ('e, unit) io"

text \<open>\<^verbatim>\<open>manager.Options\<close>; \<open>None\<close> is \<^verbatim>\<open>nil\<close>. Of the logger only its presence matters.\<close>

record 'e Options =
  optMetadataReader :: "'e MetadataReader option"
  optLog :: "unit option"
  optNodeID :: string
  optGetCertificates :: "'e GetCertificatesFunc option"
  optWriteCertificates :: "'e WriteCertificatesFunc option"

text \<open>
  \<open>managedVolumes\<close> maps volumes to channels; \<open>nextCh\<close> and \<open>closedCh\<close> are the channels the manager
  allocated so far (all below \<open>nextCh\<close>) and those that were closed.
\<close>

record 'e Manager =
  metadataReader :: "'e MetadataReader"
  managedVolumes :: "nat gomap"
  nodeNameHash :: string
  getCertificates :: "'e GetCertificatesFunc"
  writeCertificates :: "'e WriteCertificatesFunc"
  nextCh :: nat
  closedCh :: "nat list"

type_synonym ('e, 'a) mgr = "('e Manager \<times> 'e, 'a) io"

text \<open>Code that acts on the environment, or on the manager alone.\<close>

definition on_env :: "('e, 'a) io \<Rightarrow> ('e Manager \<times> 'e, 'a) io" where
  "on_env m = (\<lambda>(mg, e). case m e of (r, e') \<Rightarrow> (r, (mg, e')))"

definition on_mgr :: "('e Manager, 'a) io \<Rightarrow> ('e Manager \<times> 'e, 'a) io" where
  "on_mgr m = (\<lambda>(mg, e). case m mg of (r, mg') \<Rightarrow> (r, (mg', e)))"

section \<open>Operations\<close>

definition manageVolumeIfNotManaged :: "string \<Rightarrow> ('e Manager, bool) io" where
  "manageVolumeIfNotManaged volumeID m =
     (case mget (managedVolumes m) volumeID of
        Some _ \<Rightarrow> (Inr False, m)
      | None \<Rightarrow> (Inr True, m\<lparr>managedVolumes := mput volumeID (nextCh m) (managedVolumes m), nextCh := Suc (nextCh m)\<rparr>))"

definition ManageVolume :: "string \<Rightarrow> ('e Manager, bool) io" where
  "ManageVolume volumeID = andThen (manageVolumeIfNotManaged volumeID) (\<lambda>managed.
     if \<not> managed then ret False else ret True)"

text \<open>\<^verbatim>\<open>close(ch)\<close> panics when the channel is closed already.\<close>

definition closeChan :: "nat \<Rightarrow> ('e Manager, unit) io" where
  "closeChan c m =
     (if c \<in> set (closedCh m) then (Inl (Panic ''close of closed channel''), m)
      else (Inr (), m\<lparr>closedCh := c # closedCh m\<rparr>))"

definition forget :: "string \<Rightarrow> ('e Manager, unit) io" where
  "forget volumeID m = (Inr (), m\<lparr>managedVolumes := mdel volumeID (managedVolumes m)\<rparr>)"

definition UnmanageVolume :: "string \<Rightarrow> ('e Manager, unit) io" where
  "UnmanageVolume volumeID m =
     (case mget (managedVolumes m) volumeID of
        Some stopCh \<Rightarrow> andThen (closeChan stopCh) (\<lambda>_. forget volumeID) m
      | None \<Rightarrow> (Inr (), m))"

text \<open>\<open>Stop\<close> ranges over the map; \<open>ks\<close> is the order in which the run-time system enumerates the keys.\<close>

definition stopOne :: "string \<Rightarrow> ('e Manager, unit) io" where
  "stopOne k m =
     (case mget (managedVolumes m) k of
        Some stopCh \<Rightarrow> andThen (closeChan stopCh) (\<lambda>_. forget k) m
      | None \<Rightarrow> (Inr (), m))"

definition Stop :: "string list \<Rightarrow> ('e Manager, unit) io" where
  "Stop ks = for_each stopOne ks"

definition IsVolumeReady :: "string \<Rightarrow> ('e, bool) mgr" where
  "IsVolumeReady volumeID = (\<lambda>(m, e).
     if mget (managedVolumes m) volumeID = None then (Inr False, (m, e))
     else attempt (on_env (readerReadMetadata (metadataReader m) volumeID)) (\<lambda>r. case r of
         Inl _ \<Rightarrow> ret False
       | Inr _ \<Rightarrow> ret True) (m, e))"

text \<open>The result is the flag \<^verbatim>\<open>managed\<close> together with the error, as the Go function returns both.\<close>

definition ManageVolumeImmediate :: "string \<Rightarrow> 'e Manager \<times> 'e \<Rightarrow> (bool \<times> goerr option) \<times> 'e Manager \<times> 'e" where
  "ManageVolumeImmediate volumeID = (\<lambda>(m, e).
     case manageVolumeIfNotManaged volumeID m of
       (Inl err, m') \<Rightarrow> ((False, Some err), (m', e))
     | (Inr False, m') \<Rightarrow> ((False, None), (m', e))
     | (Inr True, m') \<Rightarrow>
         (case andThen (wrapping ''reading metadata'' (readerReadMetadata (metadataReader m') volumeID)) (\<lambda>meta.
               andThen (getCertificates m' meta) (\<lambda>files.
                 writeCertificates m' meta files)) e of
            (Inl err, e') \<Rightarrow> ((True, Some err), (m', e'))
          | (Inr _, e') \<Rightarrow> ((True, None), (m', e'))))"

section \<open>Construction\<close>

definition emptyManager ::
  "'e MetadataReader \<Rightarrow> string \<Rightarrow> 'e GetCertificatesFunc \<Rightarrow> 'e WriteCertificatesFunc \<Rightarrow> 'e Manager" where
  "emptyManager rd hash get wr =
     \<lparr>metadataReader = rd, managedVolumes = [], nodeNameHash = hash, getCertificates = get,
      writeCertificates = wr, nextCh = 0, closedCh = []\<rparr>"

definition resumeVolume :: "string \<Rightarrow> 'e Manager \<Rightarrow> ('e, 'e Manager) io" where
  "resumeVolume vol m =
     andThen (wrapping ''reading existing volume metadata'' (readerReadMetadata (metadataReader m) vol)) (\<lambda>_.
       ret (snd (ManageVolume vol m)))"

definition NewManager :: "(string \<Rightarrow> string) \<Rightarrow> 'e Options \<Rightarrow> ('e, 'e Manager) io" where
  "NewManager safeEncodeString opts =
     (case optLog opts of
        None \<Rightarrow> throw (Msg ''log must be set'')
      | Some _ \<Rightarrow>
     (case optMetadataReader opts of
        None \<Rightarrow> throw (Msg ''metadataReader must be set'')
      | Some rd \<Rightarrow>
     (case optGetCertificates opts of
        None \<Rightarrow> throw (Msg ''getCertificates must be set'')
      | Some get \<Rightarrow>
     (case optWriteCertificates opts of
        None \<Rightarrow> throw (Msg ''writeCertificates must be set'')
      | Some wr \<Rightarrow>
          if optNodeID opts = [] then throw (Msg ''nodeID must be set'')
          else
            andThen (wrapping ''listing existing volumes'' (readerListVolumes rd)) (\<lambda>vols.
              for_acc resumeVolume vols
                (emptyManager rd (HashIdentifier safeEncodeString (optNodeID opts)) get wr))))))"

definition NewManagerOrDie :: "(string \<Rightarrow> string) \<Rightarrow> 'e Options \<Rightarrow> ('e, 'e Manager) io" where
  "NewManagerOrDie safeEncodeString opts =
     attempt (NewManager safeEncodeString opts) (\<lambda>r. case r of
         Inl _ \<Rightarrow> throw (Panic ''failed to start manager'')
       | Inr m \<Rightarrow> ret m)"

end
