(* ===== verification/Manager_Facts.thy ===== *)
theory Manager_Facts
  imports Manager
begin

text \<open>
  The manager: an invariant over its stop channels that every operation keeps, so that no sequence of
  operations panics; what managing a volume does on every branch; and, from the contract of the storage
  interface, that a restarted manager resumes exactly the stored volumes.
\<close>

section \<open>Channels\<close>

text \<open>Managed volumes have open channels, each its own.\<close>

definition mgr_inv :: "'e Manager \<Rightarrow> bool" where
  "mgr_inv m \<longleftrightarrow> distinct (mkeys (managedVolumes m)) \<and> (\<forall>c \<in> set (closedCh m). c < nextCh m) \<and>
     (\<forall>v c. mget (managedVolumes m) v = Some c \<longrightarrow> c < nextCh m \<and> c \<notin> set (closedCh m) \<and>
        (\<forall>v'. mget (managedVolumes m) v' = Some c \<longrightarrow> v' = v))"

abbreviation managed :: "'e Manager \<Rightarrow> string \<Rightarrow> bool" where
  "managed m v \<equiv> mget (managedVolumes m) v \<noteq> None"

lemma mgr_inv_empty: "mgr_inv (emptyManager rd h get wr)"
  by (simp add: mgr_inv_def emptyManager_def)

lemma manage_spec:
  assumes "mgr_inv m"
  shows "\<exists>m'. manageVolumeIfNotManaged v m = (Inr (\<not> managed m v), m') \<and> mgr_inv m' \<and>
    (\<forall>u. managed m' u \<longleftrightarrow> u = v \<or> managed m u) \<and> metadataReader m' = metadataReader m \<and>
    getCertificates m' = getCertificates m \<and> writeCertificates m' = writeCertificates m"
proof (cases "mget (managedVolumes m) v")
  case None
  have "mgr_inv (m\<lparr>managedVolumes := mput v (nextCh m) (managedVolumes m), nextCh := Suc (nextCh m)\<rparr>)"
    using assms by (fastforce simp: mgr_inv_def distinct_update less_Suc_eq split: if_splits)
  with None show ?thesis by (auto simp: manageVolumeIfNotManaged_def)
next
  case (Some c)
  with assms show ?thesis by (auto simp: manageVolumeIfNotManaged_def)
qed

lemma ManageVolume_eq: "ManageVolume v = manageVolumeIfNotManaged v"
  by (rule ext) (auto simp: ManageVolume_def andThen_def ret_def manageVolumeIfNotManaged_def split: option.splits)

lemma unmanage_spec:
  assumes "mgr_inv m"
  shows "\<exists>m'. UnmanageVolume v m = (Inr (), m') \<and> mgr_inv m' \<and>
    (\<forall>u. managed m' u \<longleftrightarrow> u \<noteq> v \<and> managed m u) \<and> metadataReader m' = metadataReader m \<and>
    getCertificates m' = getCertificates m \<and> writeCertificates m' = writeCertificates m"
proof (cases "mget (managedVolumes m) v")
  case None
  with assms show ?thesis by (auto simp: UnmanageVolume_def)
next
  case (Some c)
  let ?m = "m\<lparr>closedCh := c # closedCh m, managedVolumes := mdel v (managedVolumes m)\<rparr>"
  have "c \<notin> set (closedCh m)" using assms Some by (auto simp: mgr_inv_def)
  then have "UnmanageVolume v m = (Inr (), ?m)"
    using Some by (simp add: UnmanageVolume_def andThen_def closeChan_def forget_def)
  moreover have "mgr_inv ?m"
    unfolding mgr_inv_def
  proof (intro conjI allI impI ballI)
    show "distinct (mkeys (managedVolumes ?m))"
      using assms by (simp add: mgr_inv_def distinct_delete)
    show "x < nextCh ?m" if "x \<in> set (closedCh ?m)" for x
      using that assms Some by (auto simp: mgr_inv_def)
    fix u x assume u: "mget (managedVolumes ?m) u = Some x"
    then have old: "u \<noteq> v" "mget (managedVolumes m) u = Some x" by (auto split: if_splits)
    have x: "x < nextCh m" "x \<notin> set (closedCh m)" "\<And>v'. mget (managedVolumes m) v' = Some x \<Longrightarrow> v' = u"
      using assms old(2) unfolding mgr_inv_def by blast+
    show "x < nextCh ?m" using x(1) by simp
    show "x \<notin> set (closedCh ?m)" using x(2) x(3) [of v] Some old(1) by auto
    show "v' = u" if "mget (managedVolumes ?m) v' = Some x" for v'
      using that x(3) by (auto split: if_splits)
  qed
  ultimately show ?thesis by (intro exI [of _ ?m]) auto
qed

lemma stopOne_eq: "stopOne = UnmanageVolume"
  by (intro ext) (simp add: stopOne_def UnmanageVolume_def)

lemma stop_spec:
  assumes "mgr_inv m"
  shows "\<exists>m'. Stop ks m = (Inr (), m') \<and> mgr_inv m' \<and> (\<forall>u. managed m' u \<longleftrightarrow> u \<notin> set ks \<and> managed m u)"
  using assms
proof (induction ks arbitrary: m)
  case Nil
  then show ?case by (auto simp: Stop_def ret_def)
next
  case (Cons k ks)
  obtain m1 where m1: "UnmanageVolume k m = (Inr (), m1)" "mgr_inv m1" "\<forall>u. managed m1 u \<longleftrightarrow> u \<noteq> k \<and> managed m u"
    using unmanage_spec [OF Cons.prems] by blast
  with Cons.IH [OF m1(2)] show ?case
    by (auto simp: Stop_def stopOne_eq andThen_def)
qed

text \<open>
  The states of a manager: its public operations hold its lock, so every interleaving of concurrent
  calls is a sequence of these steps.
\<close>

inductive mgr_reach :: "'e Manager \<Rightarrow> bool" where
  mgr_new: "mgr_reach (emptyManager rd h get wr)"
| mgr_manage: "mgr_reach m \<Longrightarrow> mgr_reach (snd (ManageVolume v m))"
| mgr_unmanage: "mgr_reach m \<Longrightarrow> mgr_reach (snd (UnmanageVolume v m))"
| mgr_stop: "mgr_reach m \<Longrightarrow> mgr_reach (snd (Stop ks m))"

lemma mgr_reach_inv: "mgr_reach m \<Longrightarrow> mgr_inv m"
proof (induction rule: mgr_reach.induct)
  case (mgr_manage m v)
  then show ?case using manage_spec [of m v] by (auto simp: ManageVolume_eq)
next
  case (mgr_unmanage m v)
  then show ?case using unmanage_spec [of m v] by auto
next
  case (mgr_stop m ks)
  then show ?case using stop_spec [of m ks] by auto
qed (rule mgr_inv_empty)

text \<open>
  C19. No sequence of concurrent manage, unmanage and stop calls makes the manager panic by closing a
  channel twice: in every reachable state \<open>UnmanageVolume\<close> and \<open>Stop\<close> return, afterwards the volume,
  or every volume, is not managed, and the other volumes stay.
\<close>

theorem manager_never_panics:
  assumes "mgr_reach m"
  shows "fst (UnmanageVolume v m) = Inr () \<and> fst (Stop ks m) = Inr () \<and>
    (\<forall>u. managed (snd (UnmanageVolume v m)) u \<longleftrightarrow> u \<noteq> v \<and> managed m u) \<and>
    (\<forall>u. managed (snd (Stop ks m)) u \<longleftrightarrow> u \<notin> set ks \<and> managed m u)"
  using unmanage_spec [OF mgr_reach_inv [OF assms], of v] stop_spec [OF mgr_reach_inv [OF assms], of ks] by auto

definition nullReader :: "unit MetadataReader" where
  "nullReader = \<lparr>readerReadMetadata = (\<lambda>v. throw ErrNotFound), readerListVolumes = ret []\<rparr>"

definition nullManager :: "unit Manager" where
  "nullManager = emptyManager nullReader [] (\<lambda>_. ret []) (\<lambda>_ _. ret ())"

theorem manager_never_panics_witness:
  "fst (UnmanageVolume ''v'' (snd (ManageVolume ''v'' (snd (UnmanageVolume ''v'' (snd (ManageVolume ''v'' nullManager))))))) = Inr ()"
proof -
  have "mgr_reach nullManager" by (simp add: nullManager_def mgr_new)
  then have "mgr_reach (snd (ManageVolume ''v'' (snd (UnmanageVolume ''v'' (snd (ManageVolume ''v'' nullManager))))))"
    by (intro mgr_manage mgr_unmanage)
  then show ?thesis by (rule manager_never_panics [THEN conjunct1])
qed

section \<open>Managing a volume\<close>

text \<open>
  C21. \<open>ManageVolumeImmediate\<close> on every branch: a volume that is managed already is left alone and
  nothing is read or written. Otherwise the volume becomes managed, also when it fails; the call runs
  read metadata, get certificates, write certificates in this order, stops at the first error and
  returns it.
\<close>

theorem ManageVolumeImmediate_spec:
  fixes m :: "'e Manager" and v :: string and e :: 'e
  assumes "mgr_inv m"
  defines "r \<equiv> ManageVolumeImmediate v (m, e)"
  shows "(managed m v \<longrightarrow> r = ((False, None), (m, e))) \<and>
    (\<not> managed m v \<longrightarrow>
      fst (fst r) \<and> mgr_inv (fst (snd r)) \<and> (\<forall>u. managed (fst (snd r)) u \<longleftrightarrow> u = v \<or> managed m u) \<and>
      (case readerReadMetadata (metadataReader m) v e of
         (Inl err, e1) \<Rightarrow> snd (fst r) = Some (Wrap ''reading metadata'' err) \<and> snd (snd r) = e1
       | (Inr meta, e1) \<Rightarrow>
           (case getCertificates m meta e1 of
              (Inl err, e2) \<Rightarrow> snd (fst r) = Some err \<and> snd (snd r) = e2
            | (Inr fls, e2) \<Rightarrow>
                (case writeCertificates m meta fls e2 of
                   (Inl err, e3) \<Rightarrow> snd (fst r) = Some err \<and> snd (snd r) = e3
                 | (Inr _, e3) \<Rightarrow> snd (fst r) = None \<and> snd (snd r) = e3))))"
proof (cases "managed m v")
  case True
  then show ?thesis
    by (auto simp: r_def ManageVolumeImmediate_def manageVolumeIfNotManaged_def)
next
  case False
  obtain m' where m': "manageVolumeIfNotManaged v m = (Inr True, m')" "mgr_inv m'"
    "\<forall>u. managed m' u \<longleftrightarrow> u = v \<or> managed m u" "metadataReader m' = metadataReader m"
    "getCertificates m' = getCertificates m" "writeCertificates m' = writeCertificates m"
    using manage_spec [OF assms(1), of v] False by auto
  with False show ?thesis
    by (auto simp: r_def ManageVolumeImmediate_def andThen_def wrapping_def attempt_def ret_def throw_def
        split: prod.splits sum.splits)
qed

theorem ManageVolumeImmediate_spec_witness:
  "mgr_inv nullManager \<and> snd (fst (ManageVolumeImmediate ''v'' (nullManager, ()))) = Some (Wrap ''reading metadata'' ErrNotFound)"
proof -
  have inv: "mgr_inv nullManager" unfolding nullManager_def by (rule mgr_inv_empty)
  moreover have "\<not> managed nullManager ''v''" by (simp add: nullManager_def emptyManager_def)
  moreover have "readerReadMetadata (metadataReader nullManager) ''v'' () = (Inl ErrNotFound, ())"
    by (simp add: nullManager_def emptyManager_def nullReader_def throw_def)
  ultimately show ?thesis
    using ManageVolumeImmediate_spec [OF inv, where v = "''v''" and e = "()"] by simp
qed

section \<open>Construction\<close>

lemma resume_fields:
  "for_acc resumeVolume vs m e = (Inr m', e') \<Longrightarrow>
     metadataReader m' = metadataReader m \<and> getCertificates m' = getCertificates m \<and> writeCertificates m' = writeCertificates m"
proof (induction vs arbitrary: m e)
  case (Cons v vs)
  then obtain m1 e1 where "resumeVolume v m e = (Inr m1, e1)" "for_acc resumeVolume vs m1 e1 = (Inr m', e')"
    by (auto simp: io_iff)
  moreover from this(1) have "m1 = snd (ManageVolume v m)" by (auto simp: resumeVolume_def io_iff)
  ultimately have "for_acc resumeVolume vs (snd (ManageVolume v m)) e1 = (Inr m', e')" by simp
  then show ?case
    using Cons.IH by (auto simp: ManageVolume_def manageVolumeIfNotManaged_def andThen_def ret_def split: option.splits)
qed (simp add: ret_def)

lemma NewManager_fields:
  assumes "NewManager enc mo e = (Inr m, e')"
  shows "optMetadataReader mo = Some (metadataReader m)" "optGetCertificates mo = Some (getCertificates m)"
    "optWriteCertificates mo = Some (writeCertificates m)"
  using assms by (auto simp: NewManager_def throw_def io_iff emptyManager_def dest: resume_fields split: option.splits if_splits)

lemma NewManagerOrDie_run: "NewManager enc mo e = (Inr m, e') \<Longrightarrow> NewManagerOrDie enc mo e = (Inr m, e')"
  by (simp add: NewManagerOrDie_def attempt_run ret_def)

section \<open>Restart\<close>

definition readerOf :: "(string \<Rightarrow> ('e, Metadata) io) \<Rightarrow> ('e, string list) io \<Rightarrow> 'e MetadataReader" where
  "readerOf rd ls = \<lparr>readerReadMetadata = rd, readerListVolumes = ls\<rparr>"

context metadata_store
begin

lemma hoare_resume:
  "hoare (\<lambda>e. ok e \<and> metas e = M \<and> dom M = set vols \<and> mgr_inv m \<and> metadataReader m = readerOf readMetadata listVolumes \<and>
      (\<forall>v. \<not> managed m v))
    (for_acc resumeVolume vols m)
    (\<lambda>m' e. ok e \<and> metas e = M \<and> mgr_inv m' \<and> (\<forall>v. managed m' v \<longleftrightarrow> M v \<noteq> None)) (\<lambda>_ _. False)"
proof (cases "dom M = set vols")
  case True
  let ?P = "\<lambda>ys m e. ok e \<and> metas e = M \<and> mgr_inv m \<and> metadataReader m = readerOf readMetadata listVolumes \<and>
      (\<forall>v. managed m v \<longleftrightarrow> v \<in> set ys)"
  have "hoare (?P [] m) (for_acc resumeVolume vols m) (?P vols) (\<lambda>_ _. False)"
  proof (rule hoare_for_acc_done)
    fix ys v zs m assume "vols = ys @ v # zs"
    then obtain x where x: "M v = Some x" using True by auto
    show "hoare (?P ys m) (resumeVolume v m) (?P (ys @ [v])) (\<lambda>_ _. False)"
      unfolding hoare_def
    proof (intro allI impI)
      fix e assume e: "?P ys m e"
      then obtain e' where e': "readMetadata v e = (Inr x, e')" "ok e'" "metas e' = M"
        using read_found [of e v x] x by auto
      obtain m' where m': "manageVolumeIfNotManaged v m = (Inr (\<not> managed m v), m')" "mgr_inv m'"
        "\<forall>u. managed m' u \<longleftrightarrow> u = v \<or> managed m u" "metadataReader m' = metadataReader m"
        using manage_spec [of m v] e by blast
      have "resumeVolume v m e = (Inr m', e')"
        using e e' m' by (simp add: resumeVolume_def readerOf_def wrapping_def attempt_def andThen_def ret_def ManageVolume_eq)
      with e e' m' show "case resumeVolume v m e of (Inl err, e') \<Rightarrow> False | (Inr m', e') \<Rightarrow> ?P (ys @ [v]) m' e'"
        by auto
    qed
  qed
  then show ?thesis by (rule hoare_weaken) (use True in auto)
qed (simp add: hoare_def)

text \<open>A new manager manages exactly the volumes of the store.\<close>

lemma new_manager_resumes:
  assumes "ok e" and opts: "optLog opts \<noteq> None" "optNodeID opts \<noteq> []"
    "optMetadataReader opts = Some (readerOf readMetadata listVolumes)"
    "optGetCertificates opts \<noteq> None" "optWriteCertificates opts \<noteq> None"
  shows "\<exists>m e'. NewManager enc opts e = (Inr m, e') \<and> mgr_inv m \<and> (\<forall>v. managed m v \<longleftrightarrow> metas e v \<noteq> None) \<and>
    ok e' \<and> metas e' = metas e"
proof -
  obtain vs e1 where vs: "listVolumes e = (Inr vs, e1)" "set vs = dom (metas e)" "ok e1" "metas e1 = metas e"
    using list_all [OF assms(1)] by blast
  obtain get wr where gw: "optGetCertificates opts = Some get" "optWriteCertificates opts = Some wr" using opts by auto
  let ?m0 = "emptyManager (readerOf readMetadata listVolumes) (HashIdentifier enc (optNodeID opts)) get wr"
  have new: "NewManager enc opts e = for_acc resumeVolume vs ?m0 e1"
    using opts gw vs(1) by (auto simp: NewManager_def readerOf_def wrapping_def attempt_def andThen_def ret_def)
  have "\<not> managed ?m0 v" "mgr_inv ?m0" "metadataReader ?m0 = readerOf readMetadata listVolumes" for v
    by (auto simp: emptyManager_def mgr_inv_empty [unfolded emptyManager_def])
  with hoare_run [OF hoare_resume [of "metas e" vs ?m0], of e1] vs new show ?thesis by auto
qed

end

text \<open>
  A driver that restarts on a filesystem backend resumes exactly the volumes it finds there: the
  new manager manages a volume if and only if its metadata is stored, and the stored metadata is
  unchanged.
\<close>

theorem restart_resumes_volumes:
  assumes "fs_ok f w" "optLog opts \<noteq> None" "optNodeID opts \<noteq> []"
    "optMetadataReader opts = Some (readerOf (ReadMetadata f) (ListVolumes f))"
    "optGetCertificates opts \<noteq> None" "optWriteCertificates opts \<noteq> None"
  shows "\<exists>m w'. NewManager safeEncodeString opts w = (Inr m, w') \<and> mgr_inv m \<and>
    (\<forall>v. managed m v \<longleftrightarrow> fsMetas f w v \<noteq> None) \<and> fs_ok f w' \<and> fsMetas f w' = fsMetas f w"
  using fsb.new_manager_resumes [OF assms] .

definition sampleOptions :: "world Options" where
  "sampleOptions =
     \<lparr>optMetadataReader = Some (readerOf (ReadMetadata sampleFSB) (ListVolumes sampleFSB)), optLog = Some (),
      optNodeID = ''node'', optGetCertificates = Some (\<lambda>_. ret []), optWriteCertificates = Some (\<lambda>_ _. ret ())\<rparr>"

theorem restart_resumes_volumes_witness:
  "\<exists>m w'. NewManager id sampleOptions (sampleWorld volFS) = (Inr m, w') \<and> managed m ''v1'' \<and> \<not> managed m ''v2''"
proof -
  have "fsMetas sampleFSB (sampleWorld volFS) ''v1'' \<noteq> None" "fsMetas sampleFSB (sampleWorld volFS) ''v2'' = None"
    using volumeMeta_dom [OF tree_ok_volFS, of "''v1''"] volumeMeta_dom [OF tree_ok_volFS, of "''v2''"]
    by (simp_all add: fsMetas_def troot_sample volFS_def)
  moreover obtain m w' where "NewManager id sampleOptions (sampleWorld volFS) = (Inr m, w')"
    "\<And>v. managed m v \<longleftrightarrow> fsMetas sampleFSB (sampleWorld volFS) v \<noteq> None"
    using restart_resumes_volumes [OF fs_ok_volFS, of sampleOptions id] by (auto simp: sampleOptions_def)
  ultimately show ?thesis by blast
qed

end
