(* ===== verification/Manager_Channels.thy ===== *)
theory Manager_Channels
  imports Manager_Facts
begin

text \<open>
  No stop channel is lost: whoever waits on the channel of a volume is told when the volume is no longer
  managed, or when the manager stops.
\<close>

definition accounted :: "'e Manager \<Rightarrow> bool" where
  "accounted m \<longleftrightarrow> mgr_inv m \<and> distinct (closedCh m) \<and>
     (\<forall>c < nextCh m. c \<in> set (closedCh m) \<or> (\<exists>v. mget (managedVolumes m) v = Some c))"

lemma accounted_new: "accounted (emptyManager rd h get wr)"
  using mgr_inv_empty [of rd h get wr] by (simp add: accounted_def emptyManager_def)

lemma accounted_manage:
  assumes "accounted m"
  shows "accounted (snd (ManageVolume v m))"
proof (cases "mget (managedVolumes m) v")
  case None
  have "mgr_inv (snd (ManageVolume v m))" using manage_spec [of m v] assms by (auto simp: accounted_def ManageVolume_eq)
  moreover have "\<exists>u. ((mget (managedVolumes m))(v \<mapsto> nextCh m)) u = Some c" if c: "c < nextCh m" "c \<notin> set (closedCh m)" for c
  proof -
    obtain u where "mget (managedVolumes m) u = Some c" using assms c by (auto simp: accounted_def)
    then show ?thesis using None by (intro exI [of _ u]) auto
  qed
  moreover have "\<exists>u. ((mget (managedVolumes m))(v \<mapsto> nextCh m)) u = Some (nextCh m)" by (rule exI [of _ v]) simp
  ultimately show ?thesis
    using assms None by (auto simp: accounted_def ManageVolume_eq manageVolumeIfNotManaged_def less_Suc_eq simp del: fun_upd_apply)
qed (use assms in \<open>simp add: ManageVolume_eq manageVolumeIfNotManaged_def\<close>)

lemma accounted_unmanage:
  assumes "accounted m"
  shows "accounted (snd (UnmanageVolume v m)) \<and> nextCh (snd (UnmanageVolume v m)) = nextCh m"
proof (cases "mget (managedVolumes m) v")
  case None
  then show ?thesis using assms by (simp add: UnmanageVolume_def)
next
  case (Some c)
  then have "c \<notin> set (closedCh m)" using assms by (auto simp: accounted_def mgr_inv_def)
  then have m': "snd (UnmanageVolume v m) = m\<lparr>closedCh := c # closedCh m, managedVolumes := mdel v (managedVolumes m)\<rparr>"
    using Some by (simp add: UnmanageVolume_def andThen_def closeChan_def forget_def)
  have "mgr_inv (snd (UnmanageVolume v m))" using unmanage_spec [of m v] assms by (auto simp: accounted_def)
  moreover have "x = c \<or> x \<in> set (closedCh m) \<or> (\<exists>u. u \<noteq> v \<and> mget (managedVolumes m) u = Some x)" if "x < nextCh m" for x
    using that assms Some unfolding accounted_def by (metis option.inject)
  ultimately show ?thesis
    using assms \<open>c \<notin> set (closedCh m)\<close> unfolding m' by (auto simp: accounted_def)
qed

lemma accounted_stop:
  assumes "accounted m"
  shows "accounted (snd (Stop ks m)) \<and> nextCh (snd (Stop ks m)) = nextCh m"
  using assms
proof (induction ks arbitrary: m)
  case (Cons k ks)
  obtain m1 where m1: "UnmanageVolume k m = (Inr (), m1)"
    using unmanage_spec [of m k] Cons.prems by (auto simp: accounted_def)
  then have "snd (Stop (k # ks) m) = snd (Stop ks m1)" by (simp add: Stop_def stopOne_eq andThen_def)
  with m1 Cons.IH [of m1] accounted_unmanage [OF Cons.prems, of k] show ?case by simp
qed (simp add: Stop_def ret_def)

lemma mgr_reach_accounted: "mgr_reach m \<Longrightarrow> accounted m"
  by (induction rule: mgr_reach.induct) (simp_all add: accounted_new accounted_manage accounted_unmanage accounted_stop)

text \<open>
  C20. In every reachable state of the manager each stop channel it ever made is either closed, exactly once, or it is
  the channel of a managed volume, and never both. When \<open>Stop\<close> has gone through all managed volumes, in whatever
  order the run-time system enumerates them, every channel is closed.
\<close>

theorem stop_channels_accounted:
  assumes "mgr_reach m" "set ks = set (mkeys (managedVolumes m))"
  shows "distinct (closedCh m) \<and>
    (\<forall>c < nextCh m. (c \<in> set (closedCh m)) \<noteq> (\<exists>v. mget (managedVolumes m) v = Some c)) \<and>
    set (closedCh (snd (Stop ks m))) = {..<nextCh m}"
proof -
  have a: "accounted m" by (rule mgr_reach_accounted [OF assms(1)])
  let ?m = "snd (Stop ks m)"
  have s: "accounted ?m" "nextCh ?m = nextCh m" using accounted_stop [OF a, of ks] by auto
  have "\<not> managed ?m v" for v
    using stop_spec [OF mgr_reach_inv [OF assms(1)], of ks] assms(2) by (auto simp: map_of_eq_None_iff)
  then have "set (closedCh ?m) = {..<nextCh m}" using s by (auto simp: accounted_def mgr_inv_def)
  with a show ?thesis by (auto simp: accounted_def mgr_inv_def)
qed

theorem stop_channels_accounted_witness:
  "set (closedCh (snd (Stop [''w'', ''v''] (snd (ManageVolume ''w'' (snd (ManageVolume ''v'' nullManager))))))) = {0, 1}"
proof -
  let ?m = "snd (ManageVolume ''w'' (snd (ManageVolume ''v'' nullManager)))"
  have "mgr_reach ?m" by (simp add: nullManager_def mgr_new mgr_manage)
  moreover have "set [''w'', ''v''] = set (mkeys (managedVolumes ?m))" "nextCh ?m = 2" by code_simp+
  moreover have "{..<2} = {0, 1 :: nat}" by auto
  ultimately show ?thesis using stop_channels_accounted [of ?m "[''w'', ''v'']"] by (simp only: simp_thms)
qed

end
