(* ===== verification/Driver.thy ===== *)
theory Driver
  imports Manager_Facts
begin

text \<open>
  Model of \<^verbatim>\<open>pkg/driver\<close>: the identity, controller and node services of the CSI driver and the parsing of
  its endpoint. The node server acts on its manager and on the environment \<open>'e\<close> of the storage
  backend, the mounter and the file system.
\<close>

section \<open>Identity server\<close>

record identityServer =
  ids_name :: string
  ids_version :: string

definition NewIdentityServer :: "string \<Rightarrow> string \<Rightarrow> identityServer" where
  "NewIdentityServer name ver = \<lparr>ids_name = name, ids_version = ver\<rparr>"

record GetPluginInfoResponse =
  Name :: string
  VendorVersion :: string

definition GetPluginInfo :: "identityServer \<Rightarrow> goerr + GetPluginInfoResponse" where
  "GetPluginInfo ids =
     (if ids_name ids = [] then Inl (Status Unavailable ''driver name not configured'')
      else if ids_version ids = [] then Inl (Status Unavailable ''driver is missing version'')
      else Inr \<lparr>Name = ids_name ids, VendorVersion = ids_version ids\<rparr>)"

definition Probe :: "identityServer \<Rightarrow> goerr + unit" where
  "Probe ids = Inr ()"

datatype PluginCapability = CONTROLLER_SERVICE

definition GetPluginCapabilities :: "identityServer \<Rightarrow> goerr + PluginCapability list" where
  "GetPluginCapabilities ids = Inr [CONTROLLER_SERVICE]"

section \<open>Controller server\<close>

text \<open>The calls of the controller service, by name; all but one answer \<^verbatim>\<open>Unimplemented\<close>.\<close>

datatype ControllerCall =
    ControllerGetVolume | CreateVolume | DeleteVolume | ControllerPublishVolume | ControllerUnpublishVolume
  | ValidateVolumeCapabilities | ControllerListVolumes | GetCapacity | ControllerGetCapabilities
  | CreateSnapshot | DeleteSnapshot | ListSnapshots | ControllerExpandVolume

datatype RPCType = RPC_UNKNOWN

fun controllerServer :: "ControllerCall \<Rightarrow> goerr + RPCType list" where
  "controllerServer ControllerGetVolume = Inl (Status Unimplemented ''ControllerGetVolume not implemented'')"
| "controllerServer CreateVolume = Inl (Status Unimplemented ''CreateVolume not implemented'')"
| "controllerServer DeleteVolume = Inl (Status Unimplemented ''DeleteVolume not implemented'')"
| "controllerServer ControllerPublishVolume = Inl (Status Unimplemented ''ControllerPublishVolume not implemented'')"
| "controllerServer ControllerUnpublishVolume = Inl (Status Unimplemented ''ControllerUnpublishVolume not implemented'')"
| "controllerServer ValidateVolumeCapabilities = Inl (Status Unimplemented ''ValidateVolumeCapabilities not implemented'')"
| "controllerServer ControllerListVolumes = Inl (Status Unimplemented ''ListVolumes not implemented'')"
| "controllerServer GetCapacity = Inl (Status Unimplemented ''GetCapacity not implemented'')"
| "controllerServer ControllerGetCapabilities = Inr [RPC_UNKNOWN]"
| "controllerServer CreateSnapshot = Inl (Status Unimplemented ''CreateSnapshot not implemented'')"
| "controllerServer DeleteSnapshot = Inl (Status Unimplemented ''DeleteSnapshot not implemented'')"
| "controllerServer ListSnapshots = Inl (Status Unimplemented ''ListSnapshots not implemented'')"
| "controllerServer ControllerExpandVolume = Inl (Status Unimplemented ''ControllerExpandVolume not implemented'')"

section \<open>Node server\<close>

text \<open>The methods of \<^verbatim>\<open>storage.Interface\<close> that the node server calls.\<close>

record 'e storageInterface =
  sPathForVolume :: "string \<Rightarrow> string"
  sRemoveVolume :: "string \<Rightarrow> ('e, unit) io"
  sRegisterMetadata :: "Metadata \<Rightarrow> ('e, bool) io"

text \<open>\<open>nsMkdirAll\<close> is \<^verbatim>\<open>os.MkdirAll\<close> on the environment. The field \<open>continueOnNotReady\<close> is never read.\<close>

record 'e nodeServer =
  nodeID :: string
  store :: "'e storageInterface"
  nsMounter :: "'e mounter"
  nsMkdirAll :: "string \<Rightarrow> mode \<Rightarrow> ('e, unit) io"
  continueOnNotReady :: bool

definition ephemeralKey :: string where
  "ephemeralKey = ''csi.storage.k8s.io/ephemeral''"

text \<open>Ensure the target path is a mount point, or make it a directory.\<close>

definition ensureMountTarget :: "'e nodeServer \<Rightarrow> string \<Rightarrow> ('e, bool) io" where
  "ensureMountTarget ns target e =
     (case IsMountPoint (nsMounter ns) target e of
        ((isMnt, None), e') \<Rightarrow> (Inr isMnt, e')
      | ((isMnt, Some err), e') \<Rightarrow>
          if isNotExist err
          then andThen (nsMkdirAll ns target 0x120) (\<lambda>_. ret False) e'
          else (Inl err, e'))"

definition publishBody :: "'e nodeServer \<Rightarrow> NodePublishVolumeRequest \<Rightarrow> ('e, unit) mgr" where
  "publishBody ns req =
     (let meta = FromNodePublishVolumeRequest req
      in if mget (Context req) ephemeralKey \<noteq> Some ''true''
         then throw (Msg ''only ephemeral volume types are supported'')
         else if \<not> Readonly req
         then throw (Status InvalidArgument (''pod.spec.volumes[].csi.readOnly must be set to 'true'' @ [CHR 0x27]))
         else
           andThen (on_env (sRegisterMetadata (store ns) meta)) (\<lambda>registered.
           andThen (IsVolumeReady (VolumeId req)) (\<lambda>ready.
           andThen (if \<not> ready
               then (\<lambda>s. case ManageVolumeImmediate (VolumeId req) s of
                   ((_, Some err), s') \<Rightarrow> (Inl err, s')
                 | ((_, None), s') \<Rightarrow> (Inr (), s'))
               else ret ()) (\<lambda>_.
           andThen (on_env (ensureMountTarget ns (Target req))) (\<lambda>isMnt.
             if isMnt then ret ()
             else on_env (Mount (nsMounter ns) (sPathForVolume (store ns) (VolumeId req)) (Target req) []
                           [''bind'', ''ro'']))))))"

text \<open>The deferred function cleans up when publishing failed.\<close>

definition NodePublishVolume :: "'e nodeServer \<Rightarrow> NodePublishVolumeRequest \<Rightarrow> ('e, unit) mgr" where
  "NodePublishVolume ns req =
     attempt (publishBody ns req) (\<lambda>r. case r of
         Inr _ \<Rightarrow> ret ()
       | Inl err \<Rightarrow>
           andThen (on_mgr (UnmanageVolume (VolumeId req))) (\<lambda>_.
           andThen (ignoring (on_env (Unmount (nsMounter ns) (Target req)))) (\<lambda>_.
           andThen (ignoring (on_env (sRemoveVolume (store ns) (VolumeId req)))) (\<lambda>_.
             throw err))))"

record NodeUnpublishVolumeRequest =
  unVolumeId :: string
  unTarget :: string

text \<open>An error of \<^verbatim>\<open>IsMountPoint\<close>, also that the path does not exist, ends the call.\<close>

definition isMountPointOrFail :: "'e nodeServer \<Rightarrow> string \<Rightarrow> ('e, bool) io" where
  "isMountPointOrFail ns target e =
     (case IsMountPoint (nsMounter ns) target e of
        ((isMnt, None), e') \<Rightarrow> (Inr isMnt, e')
      | ((isMnt, Some err), e') \<Rightarrow> (Inl err, e'))"

definition NodeUnpublishVolume :: "'e nodeServer \<Rightarrow> NodeUnpublishVolumeRequest \<Rightarrow> ('e, unit) mgr" where
  "NodeUnpublishVolume ns req =
     andThen (on_mgr (UnmanageVolume (unVolumeId req))) (\<lambda>_.
     andThen (on_env (isMountPointOrFail ns (unTarget req))) (\<lambda>isMnt.
     andThen (if isMnt then on_env (Unmount (nsMounter ns) (unTarget req)) else ret ()) (\<lambda>_.
       on_env (sRemoveVolume (store ns) (unVolumeId req)))))"

definition NodeStageVolume :: "goerr + unit" where
  "NodeStageVolume = Inl (Status Unimplemented ''NodeStageVolume not implemented'')"

definition NodeUnstageVolume :: "goerr + unit" where
  "NodeUnstageVolume = Inl (Status Unimplemented ''NodeUnstageVolume not implemented'')"

definition NodeGetVolumeStats :: "goerr + unit" where
  "NodeGetVolumeStats = Inl (Status Unimplemented ''NodeGetVolumeStats not implemented'')"

definition NodeExpandVolume :: "goerr + unit" where
  "NodeExpandVolume = Inl (Status Unimplemented ''NodeExpandVolume not implemented'')"

definition NodeGetCapabilities :: "'e nodeServer \<Rightarrow> goerr + RPCType list" where
  "NodeGetCapabilities ns = Inr [RPC_UNKNOWN]"

definition NodeGetInfo :: "'e nodeServer \<Rightarrow> goerr + string" where
  "NodeGetInfo ns = Inr (nodeID ns)"

section \<open>Driver and endpoint\<close>

text \<open>\<^verbatim>\<open>driver.Options\<close>; \<open>None\<close> is \<^verbatim>\<open>nil\<close>.\<close>

record 'e driverOptions =
  DriverName :: string
  DriverVersion :: string
  NodeID :: string
  Store :: "'e storageInterface"
  Mounter :: "'e mounter option"
  ContinueOnNotReady :: bool

text \<open>\<open>newMounter\<close> stands for \<^verbatim>\<open>mount.New("")\<close>, \<open>mkdirAll\<close> for \<^verbatim>\<open>os.MkdirAll\<close> on the environment.\<close>

definition buildServers ::
  "'e mounter \<Rightarrow> (string \<Rightarrow> mode \<Rightarrow> ('e, unit) io) \<Rightarrow> 'e driverOptions \<Rightarrow> identityServer \<times> 'e nodeServer" where
  "buildServers newMounter mkdirAll opts =
     (let m = (case Mounter opts of None \<Rightarrow> newMounter | Some m \<Rightarrow> m)
      in (NewIdentityServer (DriverName opts) (DriverVersion opts),
          \<lparr>nodeID = NodeID opts, store = Store opts, nsMounter = m, nsMkdirAll = mkdirAll,
           continueOnNotReady = ContinueOnNotReady opts\<rparr>))"

text \<open>\<^verbatim>\<open>strings.ToLower\<close> of ASCII letters, \<^verbatim>\<open>strings.SplitN(s, "://", 2)\<close>.\<close>

definition lower :: "char \<Rightarrow> char" where
  "lower c = (if between 0x41 c 0x5A then char_of (byte c + 0x20) else c)"

fun splitScheme :: "string \<Rightarrow> (string \<times> string) option" where
  "splitScheme [] = None"
| "splitScheme (c # s) =
     (if hasPrefix (c # s) ''://'' then Some ([], drop 3 (c # s))
      else map_option (\<lambda>(p, h). (c # p, h)) (splitScheme s))"

definition parseEndpoint :: "string \<Rightarrow> goerr + string \<times> string" where
  "parseEndpoint ep =
     (if hasPrefix (map lower ep) ''unix://'' \<or> hasPrefix (map lower ep) ''tcp://''
      then (case splitScheme ep of
          Some (p, h) \<Rightarrow> if h \<noteq> [] then Inr (p, h) else Inl (Msg ''invalid endpoint'')
        | None \<Rightarrow> Inl (Msg ''invalid endpoint''))
      else Inl (Msg ''invalid endpoint''))"

section \<open>gRPC server\<close>

text \<open>
  A server and the services registered with it; \<open>None\<close> is a service that is not registered. A listener
  is known by its protocol and address. The argument \<open>listen\<close> stands for \<^verbatim>\<open>net.Listen\<close>.
\<close>

record 'e GRPCServer =
  srvIdentity :: "identityServer option"
  srvController :: "(ControllerCall \<Rightarrow> goerr + RPCType list) option"
  srvNode :: "'e nodeServer option"
  lis :: "string \<times> string"

definition NewGRPCServerWithListener ::
  "string \<times> string \<Rightarrow> identityServer option \<Rightarrow> (ControllerCall \<Rightarrow> goerr + RPCType list) option \<Rightarrow>
   'e nodeServer option \<Rightarrow> 'e GRPCServer" where
  "NewGRPCServerWithListener l ids cs ns =
     \<lparr>srvIdentity = ids, srvController = cs, srvNode = ns, lis = l\<rparr>"

definition NewGRPCServer ::
  "(string \<Rightarrow> string \<Rightarrow> unit os) \<Rightarrow> string \<Rightarrow> identityServer option \<Rightarrow>
   (ControllerCall \<Rightarrow> goerr + RPCType list) option \<Rightarrow> 'e nodeServer option \<Rightarrow> 'e GRPCServer os" where
  "NewGRPCServer listen endpoint ids cs ns =
     andThen (lift_res (parseEndpoint endpoint)) (\<lambda>(proto, addr).
       let addr' = (if proto = ''unix'' then ''/'' @ addr else addr)
       in andThen
            (if proto = ''unix''
             then attempt (osRemove addr') (\<lambda>r. case r of
                 Inr _ \<Rightarrow> ret ()
               | Inl err \<Rightarrow> if isNotExist err then ret () else throw (Wrap ''failed to remove'' err))
             else ret ())
            (\<lambda>_. andThen (listen proto addr') (\<lambda>_.
               ret (NewGRPCServerWithListener (proto, addr') ids cs ns))))"

text \<open>
  The interceptor logs the request, calls the handler and logs the outcome; \<open>logLine\<close> appends to the log
  that is threaded beside the environment, with the verbosity of the message.
\<close>

datatype logLine = HandlingRequest string | FailedRequest string goerr | CompletedRequest string

definition loggingInterceptor ::
  "string \<Rightarrow> ('q \<Rightarrow> ('e, 'r) io) \<Rightarrow> 'q \<Rightarrow> (logLine list \<times> 'e, 'r) io" where
  "loggingInterceptor fullMethod handler req = (\<lambda>(log, e).
     case handler req e of
       (Inl err, e') \<Rightarrow> (Inl err, (log @ [HandlingRequest fullMethod, FailedRequest fullMethod err], e'))
     | (Inr resp, e') \<Rightarrow> (Inr resp, (log @ [HandlingRequest fullMethod, CompletedRequest fullMethod], e')))"

section \<open>The driver\<close>

definition New :: "(string \<Rightarrow> string \<Rightarrow> unit os) \<Rightarrow> 'e mounter \<Rightarrow> (string \<Rightarrow> mode \<Rightarrow> ('e, unit) io) \<Rightarrow>
    string \<Rightarrow> 'e driverOptions \<Rightarrow> 'e GRPCServer os" where
  "New listen newMounter mkdirAll endpoint opts =
     (let (ids, ns) = buildServers newMounter mkdirAll opts
      in NewGRPCServer listen endpoint (Some ids) (Some controllerServer) (Some ns))"

definition NewWithListener :: "string \<times> string \<Rightarrow> 'e mounter \<Rightarrow> (string \<Rightarrow> mode \<Rightarrow> ('e, unit) io) \<Rightarrow>
    'e driverOptions \<Rightarrow> 'e GRPCServer" where
  "NewWithListener l newMounter mkdirAll opts =
     (let (ids, ns) = buildServers newMounter mkdirAll opts
      in NewGRPCServerWithListener l (Some ids) (Some controllerServer) (Some ns))"

end
