(* ===== verification/Driver_Facts.thy ===== *)
theory Driver_Facts
  imports Driver
begin

text \<open>
  The node service on any storage backend: what publishing and unpublishing a volume do to the manager, the
  stored metadata and the mounts, on success and on failure. The locale \<open>node_env\<close> extends the contract
  of the storage interface by what the service relies on of the mounter.
\<close>

lemma on_env_run: "m e = (r, e1) \<Longrightarrow> on_env m (mg, e) = (r, (mg, e1))"
  by (simp add: on_env_def)

lemma on_mgr_run: "m mg = (r, mg1) \<Longrightarrow> on_mgr m (mg, e) = (r, (mg1, e))"
  by (simp add: on_mgr_def)

text \<open>Files that a source can return.\<close>

definition fetched :: "'e GetCertificatesFunc \<Rightarrow> Metadata \<Rightarrow> string gomap \<Rightarrow> bool" where
  "fetched get meta fls \<longleftrightarrow> (\<exists>e e'. get meta e = (Inr fls, e'))"

section \<open>The environment of the node service\<close>

text \<open>\<open>mnts\<close> is the set of mounted target paths. A call that fails leaves it as it was.\<close>

locale node_env = metadata_store ok metas valid_id readMetadata listVolumes registerMetadata removeVolume
  for ok :: "'e \<Rightarrow> bool" and metas :: "'e \<Rightarrow> string \<Rightarrow> Metadata option" and valid_id :: "string \<Rightarrow> bool"
    and readMetadata :: "string \<Rightarrow> ('e, Metadata) io" and listVolumes :: "('e, string list) io"
    and registerMetadata :: "Metadata \<Rightarrow> ('e, bool) io" and removeVolume :: "string \<Rightarrow> ('e, unit) io" +
  fixes mnts :: "'e \<Rightarrow> string set" and ns :: "'e nodeServer"
  assumes store_ops: "sRegisterMetadata (store ns) = registerMetadata" "sRemoveVolume (store ns) = removeVolume"
    and is_mount: "ok e \<Longrightarrow> IsMountPoint (nsMounter ns) t e = ((b, err), e') \<Longrightarrow>
      ok e' \<and> metas e' = metas e \<and> mnts e' = mnts e \<and> (err = None \<longrightarrow> (b \<longleftrightarrow> t \<in> mnts e))"
    and mount: "ok e \<Longrightarrow> Mount (nsMounter ns) src t ty os e = (r, e') \<Longrightarrow>
      ok e' \<and> metas e' = metas e \<and> mnts e' = (case r of Inl _ \<Rightarrow> mnts e | Inr _ \<Rightarrow> insert t (mnts e))"
    and unmount: "ok e \<Longrightarrow> Unmount (nsMounter ns) t e = (r, e') \<Longrightarrow>
      ok e' \<and> metas e' = metas e \<and> mnts e' = (case r of Inl _ \<Rightarrow> mnts e | Inr _ \<Rightarrow> mnts e - {t})"
    and mkdir: "ok e \<Longrightarrow> nsMkdirAll ns t md e = (r, e') \<Longrightarrow> ok e' \<and> metas e' = metas e \<and> mnts e' = mnts e"
    and store_mnts: "readMetadata v e = (r1, e1) \<Longrightarrow> mnts e1 = mnts e"
      "registerMetadata meta e = (r2, e2) \<Longrightarrow> mnts e2 = mnts e" "removeVolume v e = (r3, e3) \<Longrightarrow> mnts e3 = mnts e"
begin

text \<open>
  A manager of this backend: its channels are in order, it reads this store, and fetching certificates,
  whether it succeeds or not, keeps the store and the mounts.
\<close>

definition fetch_ok :: "'e GetCertificatesFunc \<Rightarrow> 'e WriteCertificatesFunc \<Rightarrow> bool" where
  "fetch_ok get wr \<longleftrightarrow>
     (\<forall>e meta r e'. ok e \<longrightarrow> get meta e = (r, e') \<longrightarrow> ok e' \<and> metas e' = metas e \<and> mnts e' = mnts e) \<and>
     (\<forall>e v meta fls r e'. ok e \<longrightarrow> metas e v = Some meta \<longrightarrow> fetched get meta fls \<longrightarrow> wr meta fls e = (r, e') \<longrightarrow>
        ok e' \<and> metas e' = metas e \<and> mnts e' = mnts e)"

lemma fetch_okD:
  assumes "fetch_ok get wr" "ok e" "metas e v = Some meta" "andThen (get meta) (wr meta) e = (r, e')"
  shows "ok e' \<and> metas e' = metas e \<and> mnts e' = mnts e"
proof -
  obtain rg e1 where get: "get meta e = (rg, e1)" by fastforce
  then have e1: "ok e1" "metas e1 = metas e" "mnts e1 = mnts e" using assms(1,2) unfolding fetch_ok_def by blast+
  show ?thesis
  proof (cases rg)
    case (Inr fls)
    then have "wr meta fls e1 = (r, e')" "fetched get meta fls" using get assms(4) by (auto simp: andThen_def fetched_def)
    then show ?thesis using assms(1,3) e1 unfolding fetch_ok_def by metis
  qed (use assms(4) get e1 in \<open>auto simp: andThen_def\<close>)
qed

definition mgr_ok :: "'e Manager \<Rightarrow> bool" where
  "mgr_ok m \<longleftrightarrow> mgr_inv m \<and> metadataReader m = readerOf readMetadata listVolumes \<and>
     fetch_ok (getCertificates m) (writeCertificates m)"

definition st_ok :: "'e Manager \<times> 'e \<Rightarrow> bool" where
  "st_ok s \<longleftrightarrow> mgr_ok (fst s) \<and> ok (snd s) \<and> (\<forall>v. managed (fst s) v \<longrightarrow> metas (snd s) v \<noteq> None)"

text \<open>A state that differs from \<open>s\<close> in the volume \<open>v\<close> and the mount \<open>t\<close> only.\<close>

definition only_volume :: "string \<Rightarrow> string \<Rightarrow> 'e Manager \<times> 'e \<Rightarrow> 'e Manager \<times> 'e \<Rightarrow> bool" where
  "only_volume v t s s' \<longleftrightarrow>
     (\<forall>u. u \<noteq> v \<longrightarrow> metas (snd s') u = metas (snd s) u \<and> (managed (fst s') u \<longleftrightarrow> managed (fst s) u)) \<and>
     mnts (snd s') - {t} = mnts (snd s) - {t}"

lemma mgr_ok_manage:
  assumes "mgr_ok m" "manageVolumeIfNotManaged v m = (r, m')"
  shows "mgr_ok m' \<and> r = Inr (\<not> managed m v) \<and> (\<forall>u. managed m' u \<longleftrightarrow> u = v \<or> managed m u) \<and>
    getCertificates m' = getCertificates m \<and> writeCertificates m' = writeCertificates m"
proof -
  have "mgr_inv m" using assms(1) by (simp add: mgr_ok_def)
  from manage_spec [OF this, of v] show ?thesis using assms by (auto simp: mgr_ok_def)
qed

lemma mgr_ok_unmanage:
  assumes "mgr_ok m" "UnmanageVolume v m = (r, m')"
  shows "mgr_ok m' \<and> r = Inr () \<and> (\<forall>u. managed m' u \<longleftrightarrow> u \<noteq> v \<and> managed m u) \<and>
    getCertificates m' = getCertificates m \<and> writeCertificates m' = writeCertificates m"
proof -
  have "mgr_inv m" using assms(1) by (simp add: mgr_ok_def)
  from unmanage_spec [OF this, of v] show ?thesis using assms by (auto simp: mgr_ok_def)
qed

lemma read_stored:
  assumes "ok e" "metas e v = Some meta" "readMetadata v e = (r, e')"
  shows "r = Inr meta \<and> ok e' \<and> metas e' = metas e \<and> mnts e' = mnts e"
  using read_found [OF assms(1,2)] assms(3) store_mnts(1) by auto

section \<open>Steps of publishing\<close>

lemma volume_ready:
  assumes "mgr_ok m" "ok e" "metas e v \<noteq> None"
  shows "\<exists>e'. IsVolumeReady v (m, e) = (Inr (managed m v), (m, e')) \<and> ok e' \<and> metas e' = metas e \<and> mnts e' = mnts e"
proof -
  obtain meta where meta: "metas e v = Some meta" using assms(3) by auto
  obtain r e1 where rd: "readMetadata v e = (r, e1)" by fastforce
  have "metadataReader m = readerOf readMetadata listVolumes" using assms(1) by (simp add: mgr_ok_def)
  then show ?thesis
    using rd read_stored [OF assms(2) meta rd] assms(2)
    by (auto simp: IsVolumeReady_def readerOf_def on_env_def attempt_def ret_def)
qed

lemma fetch_stored:
  assumes "mgr_ok m" "ok e" "metas e v \<noteq> None"
    and "andThen (wrapping ''reading metadata'' (readerReadMetadata (metadataReader m) v)) (\<lambda>meta.
        andThen (getCertificates m meta) (writeCertificates m meta)) e = (r, e')"
  shows "ok e' \<and> metas e' = metas e \<and> mnts e' = mnts e"
proof -
  obtain meta where meta: "metas e v = Some meta" using assms(3) by auto
  obtain rr e1 where rd: "readMetadata v e = (rr, e1)" by fastforce
  note rd' = read_stored [OF assms(2) meta rd]
  have m: "fetch_ok (getCertificates m) (writeCertificates m)" "metadataReader m = readerOf readMetadata listVolumes"
    using assms(1) by (auto simp: mgr_ok_def)
  have "wrapping ''reading metadata'' (readerReadMetadata (metadataReader m) v) e = (Inr meta, e1)"
    using rd rd' by (simp add: m(2) readerOf_def wrapping_run)
  then have "andThen (getCertificates m meta) (writeCertificates m meta) e1 = (r, e')"
    using assms(4) by (simp add: andThen_run)
  then show ?thesis using fetch_okD [OF m(1)] rd' meta by metis
qed

lemma manage_immediate:
  assumes "mgr_ok m" "ok e" "metas e v \<noteq> None" "ManageVolumeImmediate v (m, e) = ((b, err), (m', e'))"
  shows "mgr_ok m' \<and> ok e' \<and> metas e' = metas e \<and> mnts e' = mnts e \<and> (\<forall>u. managed m' u \<longleftrightarrow> u = v \<or> managed m u)"
proof (cases "manageVolumeIfNotManaged v m")
  case (Pair r m1)
  note m1 = mgr_ok_manage [OF assms(1) Pair]
  show ?thesis
  proof (cases "managed m v")
    case True
    then have "m' = m1" "e' = e" using m1 assms(4) Pair by (auto simp: ManageVolumeImmediate_def)
    with m1 assms(2) True show ?thesis by auto
  next
    case False
    obtain rf e2 where fetch: "andThen (wrapping ''reading metadata'' (readerReadMetadata (metadataReader m1) v)) (\<lambda>meta.
        andThen (getCertificates m1 meta) (writeCertificates m1 meta)) e = (rf, e2)" by fastforce
    then have "m' = m1 \<and> e' = e2"
      using assms(4) False m1 Pair by (auto simp: ManageVolumeImmediate_def split: sum.splits)
    then show ?thesis using m1 fetch_stored [OF _ assms(2,3) fetch] by simp
  qed
qed

lemma ensure_target:
  assumes "ok e" "ensureMountTarget ns t e = (r, e')"
  shows "ok e' \<and> metas e' = metas e \<and> mnts e' = mnts e \<and> (\<forall>b. r = Inr b \<longrightarrow> b \<longrightarrow> t \<in> mnts e)"
proof -
  obtain b err e1 where im: "IsMountPoint (nsMounter ns) t e = ((b, err), e1)" by (metis surj_pair)
  note k = is_mount [OF assms(1) im]
  show ?thesis
  proof (cases err)
    case None
    then show ?thesis using assms(2) im k by (auto simp: ensureMountTarget_def)
  next
    case (Some x)
    obtain rm e2 where md: "nsMkdirAll ns t 0x120 e1 = (rm, e2)" by fastforce
    then show ?thesis
      using Some assms(2) im k mkdir [of e1 t "0x120" rm e2]
      by (cases rm) (auto simp: ensureMountTarget_def andThen_def ret_def split: if_splits)
  qed
qed

lemma mount_target:
  assumes "ok e" "andThen (ensureMountTarget ns t) (\<lambda>isMnt. if isMnt then ret () else Mount (nsMounter ns) src t ty os) e = (r, e')"
  shows "ok e' \<and> metas e' = metas e \<and> mnts e' - {t} = mnts e - {t} \<and> (r = Inr () \<longrightarrow> t \<in> mnts e')"
proof -
  obtain r1 e1 where en: "ensureMountTarget ns t e = (r1, e1)" by fastforce
  note k = ensure_target [OF assms(1) en]
  show ?thesis
  proof (cases r1)
    case (Inl err)
    then show ?thesis using assms(2) en k by (auto simp: andThen_def)
  next
    case (Inr b)
    obtain r2 e2 where mo: "Mount (nsMounter ns) src t ty os e1 = (r2, e2)" by fastforce
    show ?thesis
      using Inr assms(2) en k mo mount [of e1 src t ty os r2 e2]
      by (cases b; cases r2) (auto simp: andThen_def ret_def)
  qed
qed

lemma on_env_andThen: "andThen (on_env m) (\<lambda>x. on_env (f x)) = on_env (andThen m f)"
  by (rule ext) (auto simp: andThen_def on_env_def split: prod.splits sum.splits)

text \<open>The part of publishing after the metadata is registered.\<close>

lemma publish_rest:
  assumes "mgr_ok m" "ok e" "metas e v \<noteq> None"
    and run: "andThen (IsVolumeReady v) (\<lambda>ready.
      andThen (if \<not> ready
          then (\<lambda>s. case ManageVolumeImmediate v s of
              ((_, Some err), s') \<Rightarrow> (Inl err, s')
            | ((_, None), s') \<Rightarrow> (Inr (), s'))
          else ret ()) (\<lambda>_. on_env (andThen (ensureMountTarget ns t) (\<lambda>isMnt.
        if isMnt then ret () else Mount (nsMounter ns) src t ty os)))) (m, e) = (r, (m', e'))"
  shows "mgr_ok m' \<and> ok e' \<and> metas e' = metas e \<and> mnts e' - {t} = mnts e - {t} \<and>
    (\<forall>u. managed m' u \<longrightarrow> u = v \<or> managed m u) \<and> (\<forall>u. managed m u \<longrightarrow> managed m' u) \<and>
    (r = Inr () \<longrightarrow> managed m' v \<and> t \<in> mnts e')"
proof -
  obtain meta where meta: "metas e v = Some meta" using assms(3) by auto
  obtain e2 where e2: "IsVolumeReady v (m, e) = (Inr (managed m v), (m, e2))" "ok e2" "metas e2 = metas e" "mnts e2 = mnts e"
    using volume_ready [OF assms(1-3)] by blast
  obtain b err m3 e3 where mi: "ManageVolumeImmediate v (m, e2) = ((b, err), (m3, e3))" by (metis surj_pair)
  note k3 = manage_immediate [OF assms(1) e2(2) _ mi]
  obtain r4 e4 where mt: "andThen (ensureMountTarget ns t) (\<lambda>isMnt. if isMnt then ret () else Mount (nsMounter ns) src t ty os)
      (if managed m v then e2 else e3) = (r4, e4)" by fastforce
  show ?thesis
  proof (cases "managed m v")
    case True
    then have "r = r4 \<and> m' = m \<and> e' = e4" using run e2(1) mt by (simp add: andThen_def [of "IsVolumeReady v"] on_env_def)
    with True show ?thesis using mount_target [OF e2(2), of t src ty os r4 e4] mt e2 assms(1) by auto
  next
    case False
    show ?thesis
    proof (cases err)
      case None
      then have "r = r4 \<and> m' = m3 \<and> e' = e4"
        using False run e2(1) mt mi by (simp add: andThen_def [of "IsVolumeReady v"] andThen_def [of "\<lambda>s. _ s"] on_env_def)
      then show ?thesis using False mount_target [of e3 t src ty os r4 e4] mt e2 k3 meta by auto
    next
      case (Some x)
      then have "r = Inl x \<and> m' = m3 \<and> e' = e3"
        using False run e2(1) mi by (simp add: andThen_def [of "IsVolumeReady v"] andThen_def [of "\<lambda>s. _ s"])
      then show ?thesis using e2 k3 meta by auto
    qed
  qed
qed

section \<open>Publishing\<close>

lemma register_volume:
  assumes "ok e" "valid_id (VolumeID meta)" "meta_ok meta" "registerMetadata meta e = (r, e')"
  shows "\<exists>b m. r = Inr b \<and> ok e' \<and> mnts e' = mnts e \<and> metas e' = (metas e)(VolumeID meta \<mapsto> m) \<and>
    map_of (VolumeContext m) = map_of (VolumeContext meta)"
  using register_meta [OF assms(1-3)] assms(4) store_mnts(2) by fastforce

text \<open>What a request asks for, once it is accepted.\<close>

definition served :: "NodePublishVolumeRequest \<Rightarrow> 'e Manager \<times> 'e \<Rightarrow> bool" where
  "served req s \<longleftrightarrow> managed (fst s) (VolumeId req) \<and> Target req \<in> mnts (snd s) \<and>
     (\<exists>meta. metas (snd s) (VolumeId req) = Some meta \<and> map_of (VolumeContext meta) = map_of (Context req))"

lemma publish_body:
  assumes s: "st_ok s" and req: "valid_id (VolumeId req)" "meta_ok (FromNodePublishVolumeRequest req)"
    and run: "publishBody ns req s = (r, s')"
  shows "st_ok s' \<and> only_volume (VolumeId req) (Target req) s s' \<and>
    (r = Inr () \<longrightarrow> served req s' \<and> mget (Context req) ephemeralKey = Some ''true'' \<and> Readonly req)"
proof (cases "mget (Context req) ephemeralKey = Some ''true'' \<and> Readonly req")
  case False
  then have "s' = s \<and> (\<exists>err. r = Inl err)" using run by (auto simp: publishBody_def throw_def split: if_splits)
  with s show ?thesis by (auto simp: only_volume_def)
next
  case acc: True
  obtain m e m' e' where ss: "s = (m, e)" "s' = (m', e')" by fastforce
  let ?meta = "FromNodePublishVolumeRequest req" and ?v = "VolumeId req"
  have fields: "VolumeID ?meta = ?v" "VolumeContext ?meta = Context req" by (simp_all add: FromNodePublishVolumeRequest_def)
  obtain rg e1 where rg: "registerMetadata ?meta e = (rg, e1)" by fastforce
  have e: "ok e" "mgr_ok m" "\<And>u. managed m u \<Longrightarrow> metas e u \<noteq> None" using s ss by (auto simp: st_ok_def)
  obtain b mt where k: "rg = Inr b" "ok e1" "mnts e1 = mnts e" "metas e1 = (metas e)(?v \<mapsto> mt)"
    "map_of (VolumeContext mt) = map_of (Context req)"
    using register_volume [OF e(1) _ req(2) rg] req(1) fields by auto
  have rest: "andThen (IsVolumeReady ?v) (\<lambda>ready.
      andThen (if \<not> ready
          then (\<lambda>s. case ManageVolumeImmediate ?v s of
              ((_, Some err), s') \<Rightarrow> (Inl err, s')
            | ((_, None), s') \<Rightarrow> (Inr (), s'))
          else ret ()) (\<lambda>_. on_env (andThen (ensureMountTarget ns (Target req)) (\<lambda>isMnt.
        if isMnt then ret ()
        else Mount (nsMounter ns) (sPathForVolume (store ns) ?v) (Target req) [] [''bind'', ''ro''])))) (m, e1) = (r, (m', e'))"
  proof -
    have ret_env: "(if b then ret () else on_env x) = on_env (if b then ret () else x)" for b :: bool and x :: "('e, unit) io"
      by (auto simp: on_env_def ret_def)
    have "on_env (registerMetadata ?meta) (m, e) = (Inr b, (m, e1))" using rg k(1) by (simp add: on_env_run)
    note reg = andThen_run [where m = "on_env (registerMetadata ?meta)", OF this]
    show ?thesis
      using run acc ss by (simp add: publishBody_def Let_def store_ops on_env_andThen ret_env reg)
  qed
  note f = publish_rest [OF e(2) k(2) _ rest]
  then have f': "mgr_ok m'" "ok e'" "metas e' = metas e1" "mnts e' - {Target req} = mnts e1 - {Target req}"
    "\<And>u. managed m' u \<Longrightarrow> u = ?v \<or> managed m u" "\<And>u. managed m u \<Longrightarrow> managed m' u"
    "r = Inr () \<Longrightarrow> managed m' ?v \<and> Target req \<in> mnts e'"
    using k(4) by (auto simp del: not_None_eq)
  have "metas e' u \<noteq> None" if "managed m' u" for u
    using f'(5) [OF that] e(3) [of u] by (auto simp: f'(3) k(4))
  then have "st_ok s'" using f'(1,2) by (simp add: st_ok_def ss)
  moreover have "only_volume ?v (Target req) s s'"
    using f'(3-6) k(3,4) by (auto simp: only_volume_def ss simp del: not_None_eq)
  ultimately show ?thesis using acc f' k by (auto simp: served_def ss simp del: not_None_eq)
qed

text \<open>A publish call succeeds with everything in place, or fails with nothing of the volume left.\<close>

lemma publish_volume:
  assumes s: "st_ok s" and req: "valid_id (VolumeId req)" "meta_ok (FromNodePublishVolumeRequest req)"
    and run: "NodePublishVolume ns req s = (r, s')"
  shows "st_ok s' \<and> only_volume (VolumeId req) (Target req) s s' \<and>
    (case r of
       Inr _ \<Rightarrow> served req s' \<and> mget (Context req) ephemeralKey = Some ''true'' \<and> Readonly req
     | Inl _ \<Rightarrow> \<not> managed (fst s') (VolumeId req) \<and> metas (snd s') (VolumeId req) = None)"
proof -
  obtain r1 s1 where body: "publishBody ns req s = (r1, s1)" by (cases "publishBody ns req s")
  note k = publish_body [OF s req body]
  show ?thesis
  proof (cases r1)
    case (Inr x)
    then show ?thesis using run body k by (auto simp: NodePublishVolume_def attempt_def ret_def)
  next
    case (Inl err)
    obtain m1 e1 where s1: "s1 = (m1, e1)" by fastforce
    obtain ru m2 where um: "UnmanageVolume (VolumeId req) m1 = (ru, m2)" by fastforce
    obtain rn e2 where un: "Unmount (nsMounter ns) (Target req) e1 = (rn, e2)" by fastforce
    obtain rv e3 where rm: "removeVolume (VolumeId req) e2 = (rv, e3)" by fastforce
    have ok1: "ok e1" "mgr_ok m1" "\<And>u. managed m1 u \<Longrightarrow> metas e1 u \<noteq> None" using k s1 by (auto simp: st_ok_def)
    note m2 = mgr_ok_unmanage [OF ok1(2) um]
    note e2 = unmount [OF ok1(1) un]
    have e3: "rv = Inr ()" "ok e3" "metas e3 = (metas e2)(VolumeId req := None)" "mnts e3 = mnts e2"
      using remove_volume [of e2 "VolumeId req"] e2 req(1) rm store_mnts(3) [OF rm] by auto
    have "r = Inl err \<and> s' = (m2, e3)"
      using run body Inl s1 m2 um un rm
      by (simp add: NodePublishVolume_def store_ops throw_def io_run on_mgr_run on_env_run)
    moreover have "mnts e2 - {Target req} = mnts e1 - {Target req}" using e2 by (auto split: sum.splits)
    then have "only_volume (VolumeId req) (Target req) s (m2, e3)"
      using k s1 m2 e2 e3 unfolding only_volume_def by (simp del: not_None_eq)
    moreover have "metas e3 u \<noteq> None" if "managed m2 u" for u
      using that m2 ok1(3) [of u] e2 e3(3) by (simp del: not_None_eq)
    ultimately show ?thesis
      using m2 e3 by (simp add: st_ok_def del: not_None_eq)
  qed
qed

section \<open>Unpublishing\<close>

lemma unpublish_volume:
  assumes s: "st_ok s" and req: "valid_id (unVolumeId req)" and run: "NodeUnpublishVolume ns req s = (r, s')"
  shows "st_ok s' \<and> only_volume (unVolumeId req) (unTarget req) s s' \<and> \<not> managed (fst s') (unVolumeId req) \<and>
    (case r of
       Inr _ \<Rightarrow> metas (snd s') (unVolumeId req) = None \<and> unTarget req \<notin> mnts (snd s')
     | Inl _ \<Rightarrow> metas (snd s') = metas (snd s) \<and> mnts (snd s') = mnts (snd s))"
proof -
  let ?v = "unVolumeId req" and ?t = "unTarget req"
  obtain m e where ss: "s = (m, e)" by fastforce
  obtain ru m1 where um: "UnmanageVolume ?v m = (ru, m1)" by fastforce
  have e: "ok e" "mgr_ok m" "\<And>u. managed m u \<Longrightarrow> metas e u \<noteq> None" using s ss by (auto simp: st_ok_def)
  note m1 = mgr_ok_unmanage [OF e(2) um]
  obtain b err e1 where im: "IsMountPoint (nsMounter ns) ?t e = ((b, err), e1)" by (metis surj_pair)
  note e1 = is_mount [OF e(1) im]
  obtain ro e2 where un: "Unmount (nsMounter ns) ?t e1 = (ro, e2)" by fastforce
  note e2 = unmount [of e1 ?t ro e2]
  obtain rv e3 where rm: "removeVolume ?v (if b then e2 else e1) = (rv, e3)" by fastforce
  show ?thesis
  proof (cases "err = None \<and> (b \<longrightarrow> ro = Inr ())")
    case True
    have e3: "rv = Inr ()" "ok e3" "metas e3 = (metas e)(?v := None)" "mnts e3 = mnts e - {?t}"
      using remove_volume [of "if b then e2 else e1" ?v] e1 e2 un req rm store_mnts(3) [OF rm] True
      by (auto split: if_splits)
    have "r = Inr () \<and> s' = (m1, e3)"
      using run ss um m1 im un rm e3(1) True
      by (cases b) (auto simp: NodeUnpublishVolume_def isMountPointOrFail_def store_ops ret_def io_run on_mgr_run on_env_run)
    moreover have "metas e3 u \<noteq> None" if "managed m1 u" for u
      using that m1 e(3) [of u] e3(3) by (simp del: not_None_eq)
    ultimately show ?thesis using m1 e3 by (simp add: st_ok_def only_volume_def ss del: not_None_eq)
  next
    case False
    obtain e4 x where r: "r = Inl x" "s' = (m1, e4)" and "e4 = e1 \<or> e4 = e2 \<and> (\<exists>y. ro = Inl y)"
    proof (cases err)
      case None
      with False obtain y where "b" "ro = Inl y" by (cases ro) auto
      with None run ss um m1 im un that show thesis
        by (auto simp: NodeUnpublishVolume_def isMountPointOrFail_def store_ops io_run on_mgr_run on_env_run)
    next
      case (Some y)
      with run ss um m1 im that show thesis
        by (auto simp: NodeUnpublishVolume_def isMountPointOrFail_def io_run on_mgr_run on_env_run)
    qed
    then have "ok e4" "metas e4 = metas e" "mnts e4 = mnts e" using e1 e2 un by auto
    moreover have "metas e4 u \<noteq> None" if "managed m1 u" for u
      using that m1 e(3) [of u] calculation(2) by (simp del: not_None_eq)
    ultimately show ?thesis using m1 r by (simp add: st_ok_def only_volume_def ss del: not_None_eq)
  qed
qed

text \<open>A publish call for a volume that was not managed returns only after its certificates were fetched and written.\<close>

lemma publish_fetched:
  assumes s: "st_ok (m, e)" and req: "valid_id (VolumeId req)" "meta_ok (FromNodePublishVolumeRequest req)"
    and new: "\<not> managed m (VolumeId req)" and run: "NodePublishVolume ns req (m, e) = (Inr x, (m', e'))"
  shows "\<exists>e1 meta e2. ok e1 \<and> metas e1 (VolumeId req) = Some meta \<and>
    map_of (VolumeContext meta) = map_of (Context req) \<and>
    andThen (getCertificates m meta) (writeCertificates m meta) e1 = (Inr (), e2) \<and>
    andThen (ensureMountTarget ns (Target req)) (\<lambda>isMnt. if isMnt then ret () else
      Mount (nsMounter ns) (sPathForVolume (store ns) (VolumeId req)) (Target req) [] [''bind'', ''ro'']) e2 = (Inr (), e')"
proof -
  let ?v = "VolumeId req" and ?meta = "FromNodePublishVolumeRequest req"
  have e: "ok e" "mgr_ok m" using s by (auto simp: st_ok_def)
  have id: "VolumeID ?meta = ?v" "VolumeContext ?meta = Context req" by (simp_all add: FromNodePublishVolumeRequest_def)
  have body: "publishBody ns req (m, e) = (Inr (), (m', e'))"
    using run by (auto simp: NodePublishVolume_def io_iff throw_def)
  obtain b e1 where reg: "registerMetadata ?meta e = (Inr b, e1)"
    using register_volume [OF e(1) _ req(2)] req(1) id by (metis surj_pair)
  obtain meta where k: "ok e1" "metas e1 ?v = Some meta" "map_of (VolumeContext meta) = map_of (Context req)"
    using register_volume [OF e(1) _ req(2) reg] req(1) id by auto
  have ready: "IsVolumeReady ?v (m, e1) = (Inr False, (m, e1))" using new by (simp add: IsVolumeReady_def)
  obtain m1 where m1: "manageVolumeIfNotManaged ?v m = (Inr True, m1)" "getCertificates m1 = getCertificates m"
    "writeCertificates m1 = writeCertificates m" "metadataReader m1 = readerOf readMetadata listVolumes"
    using manage_spec [of m ?v] new e(2) by (auto simp: mgr_ok_def)
  obtain e2 where rd: "readMetadata ?v e1 = (Inr meta, e2)" "ok e2" "metas e2 = metas e1"
    using read_found [OF k(1,2)] by blast
  obtain r3 e3 where fetch: "andThen (getCertificates m meta) (writeCertificates m meta) e2 = (r3, e3)" by fastforce
  have "andThen (wrapping ''reading metadata'' (readerReadMetadata (metadataReader m1) ?v)) (\<lambda>meta.
      andThen (getCertificates m1 meta) (writeCertificates m1 meta)) e1 = (r3, e3)"
    using rd fetch by (subst andThen_run [where x = meta and ?e1.0 = e2]) (simp_all add: m1 readerOf_def wrapping_run)
  then have imm: "ManageVolumeImmediate ?v (m, e1) = ((True, case r3 of Inl y \<Rightarrow> Some y | Inr _ \<Rightarrow> None), (m1, e3))"
    using m1 by (auto simp: ManageVolumeImmediate_def split: sum.splits)
  have acc: "mget (Context req) ephemeralKey = Some ''true'' \<and> Readonly req"
    using body by (auto simp: publishBody_def throw_def split: if_splits)
  have "on_env (registerMetadata ?meta) (m, e) = (Inr b, (m, e1))" using reg by (simp add: on_env_run)
  note steps = andThen_run [where m = "on_env (registerMetadata ?meta)", OF this] andThen_run [where m = "IsVolumeReady ?v", OF ready]
  have "andThen (\<lambda>s. case ManageVolumeImmediate ?v s of
      ((_, Some err), s') \<Rightarrow> (Inl err, s') | ((_, None), s') \<Rightarrow> (Inr (), s'))
    (\<lambda>_. andThen (on_env (ensureMountTarget ns (Target req))) (\<lambda>isMnt. if isMnt then ret () else
      on_env (Mount (nsMounter ns) (sPathForVolume (store ns) ?v) (Target req) [] [''bind'', ''ro'']))) (m, e1) =
      (Inr (), (m', e'))"
    using body acc by (simp add: publishBody_def Let_def store_ops steps)
  then have "r3 = Inr () \<and> andThen (ensureMountTarget ns (Target req)) (\<lambda>isMnt. if isMnt then ret () else
      Mount (nsMounter ns) (sPathForVolume (store ns) ?v) (Target req) [] [''bind'', ''ro'']) e3 = (Inr (), e')"
    by (cases r3) (auto simp: io_iff imm on_env_def split: prod.splits if_splits)
  with k rd fetch show ?thesis by metis
qed

end

section \<open>Sequences of calls\<close>

datatype nodeRequest = Publish NodePublishVolumeRequest | Unpublish NodeUnpublishVolumeRequest

fun nodeStep :: "'e nodeServer \<Rightarrow> nodeRequest \<Rightarrow> ('e, unit) mgr" where
  "nodeStep ns (Publish req) = NodePublishVolume ns req"
| "nodeStep ns (Unpublish req) = NodeUnpublishVolume ns req"

text \<open>The requests the node service can get: volume IDs the store keeps apart, strings that are valid UTF-8.\<close>

fun request_ok :: "(string \<Rightarrow> bool) \<Rightarrow> nodeRequest \<Rightarrow> bool" where
  "request_ok valid_id (Publish req) \<longleftrightarrow> valid_id (VolumeId req) \<and> meta_ok (FromNodePublishVolumeRequest req)"
| "request_ok valid_id (Unpublish req) \<longleftrightarrow> valid_id (unVolumeId req)"

inductive node_reach ::
  "'e nodeServer \<Rightarrow> (string \<Rightarrow> bool) \<Rightarrow> 'e Manager \<times> 'e \<Rightarrow> 'e Manager \<times> 'e \<Rightarrow> bool"
  for ns valid_id s0 where
  node_start: "node_reach ns valid_id s0 s0"
| node_step: "node_reach ns valid_id s0 s \<Longrightarrow> request_ok valid_id q \<Longrightarrow> nodeStep ns q s = (r, s') \<Longrightarrow>
    node_reach ns valid_id s0 s'"

context node_env
begin

lemma reach_ok:
  assumes "node_reach ns valid_id s0 s" "st_ok s0"
  shows "st_ok s"
  using assms
proof (induction rule: node_reach.induct)
  case (node_step s q r s')
  then have s: "st_ok s" by simp
  show ?case
  proof (cases q)
    case (Publish req)
    then show ?thesis using publish_volume [OF s, of req r s'] node_step.hyps by simp
  next
    case (Unpublish req)
    then show ?thesis using unpublish_volume [OF s, of req r s'] node_step.hyps by simp
  qed
qed

end

end
