(* ===== verification/Storage_Write_Facts.thy ===== *)
theory Storage_Write_Facts
  imports Atomic_Writer_Facts Storage_Filesystem_Facts
begin

text \<open>
  Writing certificates through the filesystem backend: the backend, the atomic writer and the directory
  functions together. Every outcome of \<open>WriteFiles\<close> keeps the store; a successful one publishes the
  files.
\<close>

section \<open>File systems that differ in owners only\<close>

definition disown :: "node \<Rightarrow> node" where
  "disown = map_attr (\<lambda>a. a\<lparr>a_uid := 0, a_gid := 0\<rparr>)"

definition upto_owner :: "fs \<Rightarrow> fs \<Rightarrow> bool" where
  "upto_owner f g \<longleftrightarrow> wf_fs g \<and> (\<forall>q. map_option disown (map_of f q) = map_option disown (map_of g q))"

lemma same_mode: "a\<lparr>a_uid := 0, a_gid := 0\<rparr> = (b :: attr)\<lparr>a_uid := 0, a_gid := 0\<rparr> \<longleftrightarrow> a_mode a = a_mode b"
  by (cases a; cases b) simp

lemma disown_simps [simp]:
  "disown (Dir b) = disown m \<longleftrightarrow> (\<exists>c. m = Dir c \<and> a_mode b = a_mode c)"
  "disown (Link t) = disown m \<longleftrightarrow> m = Link t"
  "disown (File b d) = disown m \<longleftrightarrow> (\<exists>c. m = File c d \<and> a_mode b = a_mode c)"
  by (cases m; auto simp: disown_def same_mode)+

lemma upto_owner_refl: "wf_fs f \<Longrightarrow> upto_owner f f"
  by (simp add: upto_owner_def)

lemma upto_owner_None: "upto_owner f g \<Longrightarrow> map_of g q = None \<longleftrightarrow> map_of f q = None"
  unfolding upto_owner_def by (metis map_option_is_None)

lemma upto_owner_Some:
  "upto_owner f g \<Longrightarrow> map_of f q = Some n \<Longrightarrow> \<exists>m. map_of g q = Some m \<and> disown n = disown m"
  unfolding upto_owner_def by (metis map_option_eq_Some option.map(2))

lemma upto_owner_sym: "upto_owner f g \<Longrightarrow> wf_fs f \<Longrightarrow> upto_owner g f"
  by (simp add: upto_owner_def)

lemma upto_owner_isdir: "upto_owner f g \<Longrightarrow> wf_fs f \<Longrightarrow> isdir g q \<longleftrightarrow> isdir f q"
  using upto_owner_Some [of f g q] upto_owner_Some [OF upto_owner_sym, of f g q] by (fastforce simp: isdir_def)

lemma upto_owner_link: "upto_owner f g \<Longrightarrow> wf_fs f \<Longrightarrow> map_of g q = Some (Link t) \<longleftrightarrow> map_of f q = Some (Link t)"
  using upto_owner_Some [of f g q "Link t"] upto_owner_Some [OF upto_owner_sym, of f g q "Link t"] by auto

lemma upto_owner_file: "upto_owner f g \<Longrightarrow> map_of f q = Some (File a d) \<Longrightarrow> \<exists>b. map_of g q = Some (File b d) \<and> a_mode a = a_mode b"
  using upto_owner_Some [of f g q "File a d"] by auto

text \<open>\<open>os.Chown\<close> changes owners only.\<close>

lemma hoare_osChown:
  assumes "wf_fs g"
  shows "hoare (on_fs w0 (upto_owner g)) (osChown p u gid) (\<lambda>_. on_fs w0 (upto_owner g)) (\<lambda>_. on_fs w0 (upto_owner g))"
  unfolding osChown_def
proof (rule hoare_pathcall)
  fix f r x f'
  assume f: "upto_owner g f" and r: "resolve f True p = Inr r"
    and k: "k_setattr (\<lambda>a. a\<lparr>a_uid := chownId u (a_uid a), a_gid := chownId gid (a_gid a)\<rparr>) f r = Inr (x, f')"
  have "wf_fs f" using f by (simp add: upto_owner_def)
  then have "wf_fs f'" using tame_setattr k r resolve_good unfolding tame_def by blast
  moreover have "disown (map_attr (\<lambda>a. a\<lparr>a_uid := i a, a_gid := j a\<rparr>) n) = disown n" for i j n
    by (cases n) (auto simp: disown_def)
  ultimately show "upto_owner g f'"
    using f k by (auto simp: upto_owner_def k_setattr_def split: option.splits)
qed auto

section \<open>The predicates on a store do not see owners\<close>

lemma aw_inv_owner:
  assumes "upto_owner g h" "aw_inv T g"
  shows "aw_inv T h"
proof -
  have wf: "wf_fs g" "wf_fs h" using assms by (auto simp: aw_inv_def upto_owner_def)
  note eq = upto_owner_isdir [OF assms(1) wf(1)] upto_owner_None [OF assms(1)] upto_owner_link [OF assms(1) wf(1)]
  have "\<exists>ts. x = Link ts \<and> version T ts h" if x: "map_of h (T @ [dataDirName]) = Some x" for x
  proof -
    obtain y where "map_of g (T @ [dataDirName]) = Some y"
      using upto_owner_Some [OF upto_owner_sym [OF assms(1) wf(1)] x] by blast
    then obtain ts where "map_of g (T @ [dataDirName]) = Some (Link ts)" "version T ts g"
      using assms(2) by (auto simp: aw_inv_def)
    moreover have "map_of h (T @ [dataDirName]) = Some (Link ts)" using calculation(1) eq(3) by blast
    ultimately show ?thesis using x by (simp add: version_def eq)
  qed
  moreover have "vis T h" using assms(2) unfolding aw_inv_def vis_def eq by blast
  ultimately show ?thesis using assms(2) wf eq(1) by (simp add: aw_inv_def)
qed

lemma tree_ok_owner:
  assumes "upto_owner g h" "tree_ok f g"
  shows "tree_ok f h \<and> volumeMeta f h = volumeMeta f g"
proof -
  have wf: "wf_fs g" "wf_fs h" using assms by (auto simp: tree_ok_def upto_owner_def)
  have "data_ok f h v" if "data_ok f g v" for v
    using that upto_owner_None [OF assms(1)] aw_inv_owner [OF assms(1)] by (auto simp: data_ok_def)
  then have "volume_ok f h v" if "volume_ok f g v" for v
    using that upto_owner_isdir [OF assms(1) wf(1)] upto_owner_file [OF assms(1)]
    unfolding volume_ok_def by metis
  then have "tree_ok f h"
    using assms(2) wf upto_owner_isdir [OF assms(1) wf(1)] upto_owner_None [OF assms(1)] by (auto simp: tree_ok_def)
  moreover have "volumeMeta f h v = volumeMeta f g v" for v
  proof (cases "volumeMeta f g v")
    case None
    then show ?thesis
      using volumeMeta_dom [OF assms(2)] volumeMeta_dom [OF \<open>tree_ok f h\<close>] upto_owner_None [OF assms(1)] by metis
  next
    case (Some m)
    then show ?thesis
      using volumeMeta_some(3) [OF assms(2) Some] upto_owner_file [OF assms(1)] by (fastforce simp: volumeMeta_def)
  qed
  ultimately show ?thesis by blast
qed

lemma published_owner:
  assumes "upto_owner g h" "wf_fs g" "published T f0 payload N g" "\<forall>k \<in> set (mkeys payload). FsUser (pget payload k) = None"
  shows "published T f0 payload N h"
proof -
  have "file_ok h q (pget payload k)" if "file_ok g q (pget payload k)" "k \<in> set (mkeys payload)" for q k
    using that assms(4) upto_owner_file [OF assms(1)] by (fastforce simp: file_ok_def)
  moreover obtain ts where "map_of g (T @ [dataDirName]) = Some (Link ts)" "map_of f0 (T @ [ts]) = None"
    "\<And>k. k \<in> set (mkeys payload) \<Longrightarrow> \<forall>n \<in> N. pcomps k \<noteq> [n] \<Longrightarrow>
       \<exists>k0 \<in> set (mkeys payload). clean k0 = clean k \<and> file_ok g (T @ [ts] @ pcomps k) (pget payload k0)"
    using assms(3) unfolding published_def by blast
  ultimately show ?thesis
    unfolding published_def by (intro exI [of _ ts]) (metis upto_owner_link [OF assms(1,2)])
qed

section \<open>Changes inside the data directory of a volume\<close>

lemma tree_ok_inside:
  assumes "tree_ok f g" "framed g (inside (dataDir f v)) h" "aw_inv (dataDir f v) h"
  shows "tree_ok f h \<and> volumeMeta f h = volumeMeta f g"
proof -
  have at: "map_of h (troot f) = map_of g (troot f)" "map_of h (troot f @ [u]) = map_of g (troot f @ [u])"
    "map_of h (troot f @ [u, n]) = map_of g (troot f @ [u, n])"
    "u \<noteq> v \<Longrightarrow> map_of h (troot f @ u # q) = map_of g (troot f @ u # q)" for u n q
    by (rule framed_at [OF assms(2)], simp add: inside_def)+
  have "volume_ok f h u" if "volume_ok f g u" for u
  proof (cases "u = v")
    case True
    then show ?thesis using that at(2,3) assms(3) by (simp add: volume_ok_def data_ok_def isdir_def)
  next
    case False
    then show ?thesis using volume_ok_cong [OF that] at(4) assms(2) by (simp add: framed_def)
  qed
  then show ?thesis
    using assms at by (simp add: tree_ok_def isdir_def framed_def volumeMeta_def fun_eq_iff)
qed

text \<open>The store as a write leaves it: all volumes readable and unchanged, the data directory consistent.\<close>

definition store_kept :: "Filesystem \<Rightarrow> fs \<Rightarrow> string \<Rightarrow> fs \<Rightarrow> bool" where
  "store_kept f g v h \<longleftrightarrow> tree_ok f h \<and> volumeMeta f h = volumeMeta f g \<and> aw_inv (dataDir f v) h"

lemma store_kept_owner: "store_kept f g v h \<Longrightarrow> upto_owner h h' \<Longrightarrow> store_kept f g v h'"
  using tree_ok_owner aw_inv_owner unfolding store_kept_def by metis

lemma store_kept_wf: "store_kept f g v h \<Longrightarrow> wf_fs h"
  by (simp add: store_kept_def tree_ok_def)

lemma tree_ok_ensured:
  assumes g: "tree_ok f g" "volumeMeta f g v \<noteq> None"
    and h: "wf_fs h" "isdir h (troot f @ [v])" "isdir h (dataDir f v)" "only_changes {troot f @ [v], dataDir f v} g h"
  shows "tree_ok f h \<and> volumeMeta f h = volumeMeta f g \<and> aw_inv (dataDir f v) h"
proof -
  have at: "map_of h (troot f) = map_of g (troot f)" "u \<noteq> v \<Longrightarrow> map_of h (troot f @ u # q) = map_of g (troot f @ u # q)"
    "map_of h (troot f @ [v, ''metadata.json'']) = map_of g (troot f @ [v, ''metadata.json''])" for u q
    by (rule only_changes_at [OF h(4)], simp)+
  have v: "volume_ok f g v" using volumeMeta_some(1) [OF g(1)] g(2) by blast
  have inv: "aw_inv (dataDir f v) h"
    by (rule data_ok_ensured [of g]) (use g(1) v h only_changes_at [OF h(4)] in \<open>auto simp: tree_ok_def volume_ok_def\<close>)
  have "volume_ok f h u" if "map_of h (troot f @ [u]) \<noteq> None" for u
  proof (cases "u = v")
    case True
    then show ?thesis using v h at(3) inv by (auto simp: volume_ok_def data_ok_def)
  next
    case False
    then show ?thesis using that at(2) [of u "[]"] at(2) g(1) h(1) volume_ok_cong [of f g u h] by (auto simp: tree_ok_def)
  qed
  moreover have "volumeMeta f h u = volumeMeta f g u" for u
    using at(2,3) by (cases "u = v") (simp_all add: volumeMeta_def)
  ultimately show ?thesis
    using g(1) h(1) at(1) inv by (simp add: tree_ok_def isdir_def fun_eq_iff)
qed

section \<open>WriteFiles\<close>

lemma hoare_NewAtomicWriter:
  "hoare (on_fs w0 \<Phi>) (NewAtomicWriter td lc) (\<lambda>aw w. on_fs w0 \<Phi> w \<and> targetDir aw = td) (\<lambda>_. on_fs w0 \<Phi>)"
proof -
  have "hoare (on_fs w0 \<Phi>) (osStat td) (\<lambda>_. on_fs w0 \<Phi>) (\<lambda>_. on_fs w0 \<Phi>)"
    unfolding osStat_def by (rule hoare_pathcall) (use readonly_lstat in \<open>auto simp: readonly_def\<close>)
  then show ?thesis
    unfolding NewAtomicWriter_def
    by (intro hoare_attempt [where R = "\<lambda>_. on_fs w0 \<Phi>"])
       (auto simp: hoare_def ret_def throw_def split: sum.splits)
qed

lemma dirFuncs_ok: "rehash_ok rehash \<Longrightarrow> \<forall>F \<in> set (DirFuncsForVolume rehash). dirfunc {bundleName} F"
  using dirfunc_CreateCABundle dirfunc_OpenSSLRehash by (simp add: DirFuncsForVolume_def)

lemma mkeys_makePayload [simp]: "mkeys (makePayload fls) = mkeys fls"
  by (induction fls) (auto simp: makePayload_def)

lemma FsUser_makePayload: "FsUser (pget (makePayload fls) k) = None"
  by (induction fls) (auto simp: pget_def makePayload_def zeroProjection_def)

text \<open>The store \<open>g0\<close> before \<open>WriteFiles\<close> writes the volume \<open>v\<close>.\<close>

definition write_pre :: "Filesystem \<Rightarrow> string \<Rightarrow> world \<Rightarrow> fs \<Rightarrow> bool" where
  "write_pre f v w0 g0 \<longleftrightarrow> base_ok f \<and> pname v \<and> faultfree w0 \<and> world_ok w0 \<and> goos w0 \<noteq> ''windows'' \<and>
     tree_ok f g0 \<and> volumeMeta f g0 v \<noteq> None"

lemma write_preD:
  assumes "write_pre f v w0 g0"
  shows "base_ok f" "pname v" "faultfree w0" "world_ok w0" "goos w0 \<noteq> ''windows''" "tree_ok f g0"
    "volumeMeta f g0 v \<noteq> None"
  using assms by (auto simp: write_pre_def)

text \<open>Nothing was published yet: every entry of the data directory was there before.\<close>

definition unwritten :: "Filesystem \<Rightarrow> fs \<Rightarrow> string \<Rightarrow> fs \<Rightarrow> bool" where
  "unwritten f g0 v h \<longleftrightarrow> store_kept f g0 v h \<and>
     (\<forall>n. map_of h (dataDir f v @ [n]) = None \<longleftrightarrow> map_of g0 (dataDir f v @ [n]) = None)"

definition wrote :: "Filesystem \<Rightarrow> fs \<Rightarrow> string \<Rightarrow> string gomap \<Rightarrow> fs \<Rightarrow> bool" where
  "wrote f g0 v fls h \<longleftrightarrow> store_kept f g0 v h \<and> published (dataDir f v) g0 (makePayload fls) {bundleName} h"

lemma dataPath:
  assumes "write_pre f v w0 g0"
  shows "pcomps (dataPathForVolumeID f v) = dataDir f v" "nodots (dataPathForVolumeID f v)"
    "dataPathForVolumeID f v \<noteq> []"
  using volume_files [OF write_preD(1,2) [OF assms], of "''data''"] canon_nodots canon_not_Nil by (auto simp: dataPathForVolumeID_def)

lemma hoare_ensure_write:
  assumes pre: "write_pre f v w0 g0"
  shows "hoare (exactly w0 g0) (ensureVolumeDirectory f v) (\<lambda>_. on_fs w0 (unwritten f g0 v)) (\<lambda>_ _. False)"
proof (rule hoare_weaken)
  note tree = write_preD(6,7) [OF pre]
  have wf: "wf_fs g0" "isdir g0 (troot f)" using tree by (auto simp: tree_ok_def)
  have vol: "volume_ok f g0 v" using volumeMeta_some(1) [OF tree(1)] tree(2) by blast
  show "hoare (exactly w0 g0) (ensureVolumeDirectory f v)
    (\<lambda>_. on_fs w0 (\<lambda>g'. wf_fs g' \<and> isdir g' (troot f @ [v]) \<and> isdir g' (dataDir f v) \<and>
       only_changes {troot f @ [v], dataDir f v} g0 g')) (\<lambda>_ _. False)"
    by (rule hoare_ensureVolumeDirectory [OF write_preD(3,1,2) [OF pre] wf]) (use vol in \<open>auto simp: volume_ok_def data_ok_def aw_inv_def\<close>)
  fix w
  assume "on_fs w0 (\<lambda>g'. wf_fs g' \<and> isdir g' (troot f @ [v]) \<and> isdir g' (dataDir f v) \<and>
       only_changes {troot f @ [v], dataDir f v} g0 g') w"
  then show "on_fs w0 (unwritten f g0 v) w"
    using tree_ok_ensured [OF tree(1,2)]
    by (auto simp: on_fs_def store_kept_def unwritten_def only_changes_at)
qed auto

lemma hoare_chown_before: "hoare (on_fs w0 (unwritten f g0 v)) (osChown p u g)
    (\<lambda>_. on_fs w0 (unwritten f g0 v)) (\<lambda>_. on_fs w0 (store_kept f g0 v))"
proof (rule hoare_fix)
  fix h assume h: "unwritten f g0 v h"
  then have wf: "wf_fs h" using store_kept_wf by (auto simp: unwritten_def)
  have "unwritten f g0 v h'" if "upto_owner h h'" for h'
    using h that store_kept_owner upto_owner_None [OF that] by (auto simp: unwritten_def)
  then show "hoare (on_fs w0 (\<lambda>g. g = h)) (osChown p u g)
    (\<lambda>_. on_fs w0 (unwritten f g0 v)) (\<lambda>_. on_fs w0 (store_kept f g0 v))"
    by (intro hoare_weaken [OF hoare_osChown [OF wf, of w0]]) (use wf in \<open>auto simp: on_fs_def upto_owner_refl unwritten_def\<close>)
qed

lemma hoare_chown_wrote:
  "hoare (on_fs w0 (wrote f g0 v fls)) (osChown p u g) (\<lambda>_. on_fs w0 (wrote f g0 v fls)) (\<lambda>_. on_fs w0 (store_kept f g0 v))"
proof (rule hoare_fix)
  fix h assume h: "wrote f g0 v fls h"
  then have wf: "wf_fs h" using store_kept_wf by (auto simp: wrote_def)
  have "wrote f g0 v fls h'" if "upto_owner h h'" for h'
    using h that store_kept_owner published_owner [OF that wf] FsUser_makePayload by (auto simp: wrote_def)
  then show "hoare (on_fs w0 (\<lambda>g. g = h)) (osChown p u g) (\<lambda>_. on_fs w0 (wrote f g0 v fls)) (\<lambda>_. on_fs w0 (store_kept f g0 v))"
    by (intro hoare_weaken [OF hoare_osChown [OF wf, of w0]])
       (use wf in \<open>auto simp: on_fs_def upto_owner_refl wrote_def\<close>)
qed

lemma hoare_write_data:
  assumes pre: "write_pre f v w0 g0" and "rehash_ok rehash" "\<forall>k \<in> set (mkeys fls). safe_key k" "targetDir aw = dataPathForVolumeID f v"
  shows "hoare (on_fs w0 (unwritten f g0 v)) (Write aw (makePayload fls) (DirFuncsForVolume rehash))
    (\<lambda>_. on_fs w0 (wrote f g0 v fls)) (\<lambda>_. on_fs w0 (store_kept f g0 v))"
proof (rule hoare_fix)
  fix h assume h: "unwritten f g0 v h"
  then have inv: "aw_inv (dataDir f v) h" by (simp add: store_kept_def unwritten_def)
  have kept: "store_kept f g0 v h'" if "framed h (inside (dataDir f v)) h'" "aw_inv (dataDir f v) h'" for h'
    using tree_ok_inside [OF _ that] that(2) h by (simp add: store_kept_def unwritten_def)
  have pub: "published (dataDir f v) g0 (makePayload fls) {bundleName} h'"
    if "published (dataDir f v) h (makePayload fls) {bundleName} h'" for h'
    using that h unfolding published_def unwritten_def by auto
  show "hoare (on_fs w0 (\<lambda>g. g = h)) (Write aw (makePayload fls) (DirFuncsForVolume rehash))
    (\<lambda>_. on_fs w0 (wrote f g0 v fls)) (\<lambda>_. on_fs w0 (store_kept f g0 v))"
    by (rule hoare_weaken [OF hoare_Write [OF dataPath(2) [OF pre] assms(4) dataPath(1,3) [OF pre] write_preD(4,5) [OF pre] inv _ dirFuncs_ok [OF assms(2)]]])
       (use assms(3) kept pub in \<open>auto simp: on_fs_def succeeded_def outcome_def wrote_def\<close>)
qed

text \<open>
  The shape of \<open>WriteFiles\<close>: \<open>I\<close> holds once the directories are there, \<open>J\<close> once the files are written, \<open>K\<close> after an error;
  a change of owner keeps each.
\<close>

lemma hoare_WriteFiles_rule:
  assumes w0: "world_ok w0" and v: "VolumeID meta = v"
    and ens: "hoare P (ensureVolumeDirectory f v) (\<lambda>_. on_fs w0 I) (\<lambda>_. on_fs w0 K)" and K: "\<And>h. I h \<Longrightarrow> K h"
    and own: "\<And>p u g. hoare (on_fs w0 I) (osChown p u g) (\<lambda>_. on_fs w0 I) (\<lambda>_. on_fs w0 K)"
    and wr: "\<And>aw. targetDir aw = dataPathForVolumeID f v \<Longrightarrow>
      hoare (on_fs w0 I) (Write aw (makePayload fls) (DirFuncsForVolume rehash)) (\<lambda>_. on_fs w0 J) (\<lambda>_. on_fs w0 K)"
    and own': "\<And>p u g. hoare (on_fs w0 J) (osChown p u g) (\<lambda>_. on_fs w0 J) (\<lambda>_. on_fs w0 K)"
  shows "hoare P (WriteFiles rehash f meta fls) (\<lambda>_. on_fs w0 J) (\<lambda>_. on_fs w0 K)"
proof -
  let ?E = "\<lambda>_ :: goerr. on_fs w0 K"
  have grp: "hoare (on_fs w0 I) (lift_res (fsGroupForMetadata f meta)) (\<lambda>_. on_fs w0 I) ?E"
    by (rule hoare_pre [OF hoare_lift_res]) (use K in \<open>auto simp: on_fs_def split: sum.splits\<close>)
  have own1: "hoare (on_fs w0 I) (case g of None \<Rightarrow> ret () | Some i \<Rightarrow> wrapping s (osChown p (-1) i)) (\<lambda>_. on_fs w0 I) ?E"
    for g s p
    by (cases g) (use hoare_wrapping [OF own] in \<open>auto simp: hoare_def ret_def\<close>)
  have aw: "hoare (on_fs w0 I) (NewAtomicWriter td lc) (\<lambda>aw w. on_fs w0 I w \<and> targetDir aw = td) ?E" for td lc
    by (rule hoare_weaken [OF hoare_NewAtomicWriter [of w0 I]]) (use K in \<open>auto simp: on_fs_def\<close>)
  have fin: "hoare (on_fs w0 J) (case g of None \<Rightarrow> ret () | Some i \<Rightarrow>
      andThen (map_range (mkeys fls)) (\<lambda>names. for_each (\<lambda>n. osChown (P n) (-1) i) names)) (\<lambda>_. on_fs w0 J) ?E" for g P
    by (cases g) (auto simp: hoare_def [of _ "ret _"] ret_def intro!: hoare_map_range [OF w0] hoare_for_each own')
  show ?thesis
    unfolding WriteFiles_def v Let_def
    by (rule hoare_andThen [OF ens], rule hoare_andThen [OF grp], rule hoare_andThen [OF own1], rule hoare_andThen [OF aw],
        rule hoare_assume, rule hoare_andThen [OF wr], simp, rule fin)
qed

lemma hoare_WriteFiles:
  assumes pre: "write_pre f v w0 g0" and "rehash_ok rehash" "\<forall>k \<in> set (mkeys fls). safe_key k" "VolumeID meta = v"
  shows "hoare (exactly w0 g0) (WriteFiles rehash f meta fls) (\<lambda>_. on_fs w0 (wrote f g0 v fls)) (\<lambda>_. on_fs w0 (store_kept f g0 v))"
proof (rule hoare_WriteFiles_rule [OF write_preD(4) [OF pre] assms(4)])
  show "hoare (exactly w0 g0) (ensureVolumeDirectory f v) (\<lambda>_. on_fs w0 (unwritten f g0 v)) (\<lambda>_. on_fs w0 (store_kept f g0 v))"
    by (rule hoare_weaken [OF hoare_ensure_write [OF pre]]) auto
qed (use hoare_chown_before hoare_chown_wrote hoare_write_data [OF assms(1-3)] in \<open>auto simp: unwritten_def\<close>)

lemma WriteFiles_store:
  fixes meta :: Metadata
  assumes "fs_ok f w" "rehash_ok rehash" "fsMetas f w (VolumeID meta) \<noteq> None"
    and "\<forall>k \<in> set (mkeys fls). safe_key k" and run: "WriteFiles rehash f meta fls w = (x, w')"
  shows "fs_ok f w' \<and> fsMetas f w' = fsMetas f w \<and> aw_inv (dataDir f (VolumeID meta)) (wfs w') \<and>
    (x = Inr () \<longrightarrow> published (dataDir f (VolumeID meta)) (wfs w) (makePayload fls) {bundleName} (wfs w'))"
proof -
  have v: "pname (VolumeID meta)" using fsb.metas_valid [OF assms(1)] assms(3) by auto
  have pre: "write_pre f (VolumeID meta) w (wfs w)"
    using assms v by (auto simp: write_pre_def fs_ok_def fsMetas_def)
  note h = hoare_WriteFiles [OF pre assms(2,4) refl]
  have "case x of Inl _ \<Rightarrow> on_fs w (store_kept f (wfs w) (VolumeID meta)) w'
      | Inr _ \<Rightarrow> on_fs w (wrote f (wfs w) (VolumeID meta) fls) w'"
    using run hoareD_ok [OF h, of w] hoareD_err [OF h, of w] by (cases x) (auto simp: on_fs_start)
  then show ?thesis
    using fs_ok_same [OF assms(1), of w'] by (cases x) (auto simp: on_fs_def wrote_def store_kept_def fsMetas_def)
qed

text \<open>
  C14. Writing the files of a stored volume keeps the store whatever happens: every volume keeps its
  metadata, and the data directory keeps the invariant of the atomic writer, also when the directory
  functions fail. When \<open>WriteFiles\<close> returns without error, the data link names a new version that holds
  every given file with its content and mode 0440, except for a file named like the bundle.
\<close>

theorem WriteFiles_publishes:
  fixes meta :: Metadata
  assumes "fs_ok f w" "rehash_ok rehash" "fsMetas f w (VolumeID meta) \<noteq> None"
    and "\<forall>k \<in> set (mkeys fls). safe_key k"
  defines "r \<equiv> WriteFiles rehash f meta fls w"
  shows "fs_ok f (snd r) \<and> fsMetas f (snd r) = fsMetas f w \<and> aw_inv (dataDir f (VolumeID meta)) (wfs (snd r)) \<and>
    (fst r = Inr () \<longrightarrow> published (dataDir f (VolumeID meta)) (wfs w) (makePayload fls) {bundleName} (wfs (snd r)))"
  using WriteFiles_store [OF assms(1-4) surjective_pairing] unfolding r_def by blast

lemma rehash_ok_skip: "rehash_ok (\<lambda>_. ret ())"
  by (auto simp: rehash_ok_def hoare_def ret_def on_fs_def framed_refl)

theorem WriteFiles_publishes_witness:
  "published [''b'', ''inmemfs'', ''v1'', ''data''] volFS (makePayload [(''a'', ''b'')]) {bundleName}
     (wfs (snd (WriteFiles (\<lambda>_. ret ()) sampleFSB volMeta [(''a'', ''b'')] (sampleWorld volFS))))"
proof -
  have "fst (WriteFiles (\<lambda>_. ret ()) sampleFSB volMeta [(''a'', ''b'')] (sampleWorld volFS)) = Inr ()"
    by code_simp
  moreover have v1: "VolumeID volMeta = ''v1''" by (simp add: volMeta_def)
  moreover have "fsMetas sampleFSB (sampleWorld volFS) ''v1'' \<noteq> None"
    using volumeMeta_dom [OF tree_ok_volFS, of "''v1''"] by (simp add: fsMetas_def troot_sample volFS_def)
  moreover have "safe_key ''a''" by (simp add: safe_key_def pcomps_def unreserved_def hasPrefix_def)
  ultimately show ?thesis
    using WriteFiles_publishes [OF fs_ok_volFS rehash_ok_skip, of volMeta "[(''a'', ''b'')]"]
    by (simp add: troot_sample)
qed

end
