(* ===== verification/Driver_Stores.thy ===== *)
theory Driver_Stores
  imports Driver_Facts Storage_Write_Facts
begin

text \<open>
  The node service on the two storage backends. The environment is a pair: the state of the store, and
  the host with the target paths and the mounts; target paths lie outside the store, which is a file
  system of its own. The laws the service relies on of the host are hypotheses; the laws of the stores
  are proved.
\<close>

section \<open>Store and host\<close>

definition on_fst :: "('s, 'a) io \<Rightarrow> ('s \<times> 'h, 'a) io" where
  "on_fst m = (\<lambda>(s, h). case m s of (r, s') \<Rightarrow> (r, (s', h)))"

definition on_snd :: "('h, 'a) io \<Rightarrow> ('s \<times> 'h, 'a) io" where
  "on_snd m = (\<lambda>(s, h). case m h of (r, h') \<Rightarrow> (r, (s, h')))"

lemma on_fst_iff: "on_fst m (s, h) = (r, (s', h')) \<longleftrightarrow> m s = (r, s') \<and> h' = h"
  by (auto simp: on_fst_def split: prod.splits)

lemma on_snd_iff: "on_snd m (s, h) = (r, (s', h')) \<longleftrightarrow> m h = (r, h') \<and> s' = s"
  by (auto simp: on_snd_def split: prod.splits)

definition hostMounter :: "'h mounter \<Rightarrow> ('s \<times> 'h) mounter" where
  "hostMounter mt =
     \<lparr>IsMountPoint = (\<lambda>t (s, h). case IsMountPoint mt t h of (r, h') \<Rightarrow> (r, (s, h'))),
      Mount = (\<lambda>src t ty os. on_snd (Mount mt src t ty os)), Unmount = (\<lambda>t. on_snd (Unmount mt t))\<rparr>"

text \<open>The node server of a driver with the store \<open>st\<close> on the host.\<close>

definition nodeOn ::
  "'s storageInterface \<Rightarrow> 'h mounter \<Rightarrow> (string \<Rightarrow> mode \<Rightarrow> ('h, unit) io) \<Rightarrow> string \<Rightarrow> ('s \<times> 'h) nodeServer" where
  "nodeOn st mt mkdirAll nid =
     \<lparr>nodeID = nid,
      store = \<lparr>sPathForVolume = sPathForVolume st, sRemoveVolume = (\<lambda>v. on_fst (sRemoveVolume st v)),
               sRegisterMetadata = (\<lambda>m. on_fst (sRegisterMetadata st m))\<rparr>,
      nsMounter = hostMounter mt, nsMkdirAll = (\<lambda>p m. on_snd (mkdirAll p m)), continueOnNotReady = False\<rparr>"

text \<open>
  What the service relies on of the host: \<open>mnts\<close> is the set of mounted paths; \<^verbatim>\<open>IsMountPoint\<close> without an error
  decides it, \<^verbatim>\<open>Mount\<close> and \<^verbatim>\<open>Unmount\<close> change it when they succeed, and nothing else does.
\<close>

definition host_ok :: "('h \<Rightarrow> string set) \<Rightarrow> 'h mounter \<Rightarrow> (string \<Rightarrow> mode \<Rightarrow> ('h, unit) io) \<Rightarrow> bool" where
  "host_ok mnts mt mkdirAll \<longleftrightarrow>
     (\<forall>t h b err h'. IsMountPoint mt t h = ((b, err), h') \<longrightarrow> mnts h' = mnts h \<and> (err = None \<longrightarrow> (b \<longleftrightarrow> t \<in> mnts h))) \<and>
     (\<forall>src t ty os h r h'. Mount mt src t ty os h = (r, h') \<longrightarrow>
        mnts h' = (case r of Inl _ \<Rightarrow> mnts h | Inr _ \<Rightarrow> insert t (mnts h))) \<and>
     (\<forall>t h r h'. Unmount mt t h = (r, h') \<longrightarrow> mnts h' = (case r of Inl _ \<Rightarrow> mnts h | Inr _ \<Rightarrow> mnts h - {t})) \<and>
     (\<forall>p m h r h'. mkdirAll p m h = (r, h') \<longrightarrow> mnts h' = mnts h)"

lemma on_fst_run: "m (fst s) = (r, s1) \<Longrightarrow> on_fst m s = (r, (s1, snd s))"
  by (cases s) (simp add: on_fst_def)

text \<open>A store stays a store when the host is put beside it, and its operations leave the host as it is.\<close>

lemma store_lift_host:
  assumes "metadata_store ok metas val rd ls reg rm"
  shows "metadata_store (\<lambda>e. ok (fst e) \<and> Q (snd e)) (metas \<circ> fst) val (\<lambda>v. on_fst (rd v)) (on_fst ls) (\<lambda>m. on_fst (reg m)) (\<lambda>v. on_fst (rm v))"
proof
  fix s v m assume "ok (fst s) \<and> Q (snd s)" "(metas \<circ> fst) s v = Some m"
  then show "val v" using metadata_store.metas_valid [OF assms, of "fst s" v m] by simp
next
  fix s v m assume "ok (fst s) \<and> Q (snd s)" "(metas \<circ> fst) s v = Some m"
  then show "\<exists>s'. on_fst (rd v) s = (Inr m, s') \<and> (ok (fst s') \<and> Q (snd s')) \<and> (metas \<circ> fst) s' = (metas \<circ> fst) s"
    using metadata_store.read_found [OF assms, of "fst s" v m] on_fst_run [of "rd v" s] by fastforce
next
  fix s v assume "ok (fst s) \<and> Q (snd s)" "val v" "(metas \<circ> fst) s v = None"
  then show "\<exists>e s'. on_fst (rd v) s = (Inl e, s') \<and> errors_Is e ErrNotFound \<and> (ok (fst s') \<and> Q (snd s')) \<and> (metas \<circ> fst) s' = (metas \<circ> fst) s"
    using metadata_store.read_missing [OF assms, of "fst s" v] on_fst_run [of "rd v" s] by fastforce
next
  fix s assume "ok (fst s) \<and> Q (snd s)"
  then show "\<exists>vs s'. on_fst ls s = (Inr vs, s') \<and> set vs = dom ((metas \<circ> fst) s) \<and> (ok (fst s') \<and> Q (snd s')) \<and> (metas \<circ> fst) s' = (metas \<circ> fst) s"
    using metadata_store.list_all [OF assms, of "fst s"] on_fst_run [of ls s] by fastforce
next
  fix s meta assume s: "ok (fst s) \<and> Q (snd s)" and "val (VolumeID meta)" "meta_ok meta"
  then obtain m s1 where "reg meta (fst s) =
      (Inr (\<not> (\<exists>m0. metas (fst s) (VolumeID meta) = Some m0 \<and> map_of (VolumeContext m0) = map_of (VolumeContext meta))), s1)"
      "ok s1" "metas s1 = (metas (fst s))(VolumeID meta \<mapsto> m)" "map_of (VolumeContext m) = map_of (VolumeContext meta)"
    using metadata_store.register_meta [OF assms, of "fst s" meta] by auto
  then show "\<exists>m s'. on_fst (reg meta) s =
      (Inr (\<not> (\<exists>m0. (metas \<circ> fst) s (VolumeID meta) = Some m0 \<and> map_of (VolumeContext m0) = map_of (VolumeContext meta))), s') \<and>
      (ok (fst s') \<and> Q (snd s')) \<and> (metas \<circ> fst) s' = ((metas \<circ> fst) s)(VolumeID meta \<mapsto> m) \<and>
      map_of (VolumeContext m) = map_of (VolumeContext meta)"
    by (intro exI [of _ m] exI [of _ "(s1, snd s)"]) (simp add: on_fst_run s)
next
  fix s v assume "ok (fst s) \<and> Q (snd s)" "val v"
  then show "\<exists>s'. on_fst (rm v) s = (Inr (), s') \<and> (ok (fst s') \<and> Q (snd s')) \<and> (metas \<circ> fst) s' = ((metas \<circ> fst) s)(v := None)"
    using metadata_store.remove_volume [OF assms, of "fst s" v] on_fst_run [of "rm v" s] by fastforce
qed

lemma store_lift:
  assumes "metadata_store ok metas val rd ls reg rm"
  shows "metadata_store (ok \<circ> fst) (metas \<circ> fst) val (\<lambda>v. on_fst (rd v)) (on_fst ls) (\<lambda>m. on_fst (reg m)) (\<lambda>v. on_fst (rm v))"
  using store_lift_host [OF assms, of "\<lambda>_. True"] by (simp add: comp_def)

lemma node_lift:
  assumes "metadata_store ok metas val rd ls (sRegisterMetadata st) (sRemoveVolume st)" "host_ok mnts mt mkdirAll"
  shows "node_env (ok \<circ> fst) (metas \<circ> fst) val (\<lambda>v. on_fst (rd v)) (on_fst ls)
    (\<lambda>m. on_fst (sRegisterMetadata st m)) (\<lambda>v. on_fst (sRemoveVolume st v)) (mnts \<circ> snd) (nodeOn st mt mkdirAll nid)"
proof (intro node_env.intro store_lift [OF assms(1)] node_env_axioms.intro)
  fix e e' :: "'a \<times> 'b" and t b err
  assume "(ok \<circ> fst) e" "IsMountPoint (nsMounter (nodeOn st mt mkdirAll nid)) t e = ((b, err), e')"
  then show "(ok \<circ> fst) e' \<and> (metas \<circ> fst) e' = (metas \<circ> fst) e \<and> (mnts \<circ> snd) e' = (mnts \<circ> snd) e \<and>
      (err = None \<longrightarrow> (b \<longleftrightarrow> t \<in> (mnts \<circ> snd) e))"
    using assms(2) by (cases e; cases e') (auto simp: nodeOn_def hostMounter_def host_ok_def split: prod.splits)
next
  fix e e' :: "'a \<times> 'b" and src t ty os r
  assume "(ok \<circ> fst) e" "Mount (nsMounter (nodeOn st mt mkdirAll nid)) src t ty os e = (r, e')"
  then show "(ok \<circ> fst) e' \<and> (metas \<circ> fst) e' = (metas \<circ> fst) e \<and>
      (mnts \<circ> snd) e' = (case r of Inl _ \<Rightarrow> (mnts \<circ> snd) e | Inr _ \<Rightarrow> insert t ((mnts \<circ> snd) e))"
    using assms(2) by (cases e; cases e'; cases r; simp add: nodeOn_def hostMounter_def on_snd_iff host_ok_def; blast)
next
  fix e e' :: "'a \<times> 'b" and t r
  assume "(ok \<circ> fst) e" "Unmount (nsMounter (nodeOn st mt mkdirAll nid)) t e = (r, e')"
  then show "(ok \<circ> fst) e' \<and> (metas \<circ> fst) e' = (metas \<circ> fst) e \<and>
      (mnts \<circ> snd) e' = (case r of Inl _ \<Rightarrow> (mnts \<circ> snd) e | Inr _ \<Rightarrow> (mnts \<circ> snd) e - {t})"
    using assms(2) by (cases e; cases e'; cases r; simp add: nodeOn_def hostMounter_def on_snd_iff host_ok_def; blast)
next
  fix e e' :: "'a \<times> 'b" and t md r
  assume "(ok \<circ> fst) e" "nsMkdirAll (nodeOn st mt mkdirAll nid) t md e = (r, e')"
  then show "(ok \<circ> fst) e' \<and> (metas \<circ> fst) e' = (metas \<circ> fst) e \<and> (mnts \<circ> snd) e' = (mnts \<circ> snd) e"
    using assms(2) by (cases e; cases e') (auto simp: nodeOn_def on_snd_iff host_ok_def)
next
  show "(mnts \<circ> snd) e1 = (mnts \<circ> snd) e" if "on_fst (rd v) e = (r1, e1)" for v e r1 e1
    using that by (cases e; cases e1) (simp add: on_fst_iff)
  show "(mnts \<circ> snd) e1 = (mnts \<circ> snd) e" if "on_fst (sRegisterMetadata st m) e = (r1, e1)" for m e r1 e1
    using that by (cases e; cases e1) (simp add: on_fst_iff)
  show "(mnts \<circ> snd) e1 = (mnts \<circ> snd) e" if "on_fst (sRemoveVolume st v) e = (r1, e1)" for v e r1 e1
    using that by (cases e; cases e1) (simp add: on_fst_iff)
qed (simp_all add: nodeOn_def)

section \<open>A host with a table of mounts\<close>

text \<open>The mounts as a list of paths, every path a directory; as the fake mounter of the Kubernetes mount library.\<close>

definition tableMounter :: "string list mounter" where
  "tableMounter =
     \<lparr>IsMountPoint = (\<lambda>t tbl. ((t \<in> set tbl, None), tbl)),
      Mount = (\<lambda>src t ty os tbl. (Inr (), t # tbl)),
      Unmount = (\<lambda>t tbl. (Inr (), filter (\<lambda>x. x \<noteq> t) tbl))\<rparr>"

lemma host_ok_table: "host_ok set tableMounter (\<lambda>p m. ret ())"
  by (auto simp: host_ok_def tableMounter_def ret_def)

definition fsStorage :: "(string gomap \<Rightarrow> string gomap \<Rightarrow> bool) \<Rightarrow> Filesystem \<Rightarrow> world storageInterface" where
  "fsStorage deepEqual f =
     \<lparr>sPathForVolume = PathForVolume f, sRemoveVolume = RemoveVolume f, sRegisterMetadata = RegisterMetadata deepEqual f\<rparr>"

definition memStorage :: "(string gomap \<Rightarrow> string gomap \<Rightarrow> bool) \<Rightarrow> MemoryFS storageInterface" where
  "memStorage deepEqual =
     \<lparr>sPathForVolume = (\<lambda>v. v), sRemoveVolume = memRemoveVolume, sRegisterMetadata = memRegisterMetadata deepEqual\<rparr>"

interpretation fsn: node_env "fs_ok f \<circ> fst" "fsMetas f \<circ> fst" pname "\<lambda>v. on_fst (ReadMetadata f v)"
  "on_fst (ListVolumes f)" "\<lambda>m. on_fst (RegisterMetadata sameEntries f m)" "\<lambda>v. on_fst (RemoveVolume f v)"
  "set \<circ> snd" "nodeOn (fsStorage sameEntries f) tableMounter (\<lambda>p m. ret ()) nid" for f nid
  using node_lift [of "fs_ok f" "fsMetas f" pname "ReadMetadata f" "ListVolumes f" "fsStorage sameEntries f", OF _ host_ok_table]
    fs_store [OF deepEqual_ok_sameEntries, of f] by (simp add: fsStorage_def)

interpretation memn: node_env "mem_ok \<circ> fst" "memMetas \<circ> fst" "\<lambda>_. True" "\<lambda>v. on_fst (memReadMetadata v)"
  "on_fst memListVolumes" "\<lambda>m. on_fst (memRegisterMetadata sameEntries m)" "\<lambda>v. on_fst (memRemoveVolume v)"
  "set \<circ> snd" "nodeOn (memStorage sameEntries) tableMounter (\<lambda>p m. ret ()) nid" for nid
  using node_lift [of mem_ok memMetas "\<lambda>_. True" memReadMetadata memListVolumes "memStorage sameEntries", OF _ host_ok_table]
    mem_store [OF deepEqual_ok_sameEntries] by (simp add: memStorage_def)

section \<open>The filesystem backend\<close>

text \<open>
  What the driver relies on of a certificate source: getting certificates changes no mounts, and no file
  name begins with a reserved component.
\<close>

definition source_ok :: "('h \<Rightarrow> string set) \<Rightarrow> (Metadata \<Rightarrow> ('h, string gomap) io) \<Rightarrow> bool" where
  "source_ok mnts get \<longleftrightarrow> (\<forall>meta h r h'. get meta h = (r, h') \<longrightarrow> mnts h' = mnts h \<and>
     (\<forall>fls. r = Inr fls \<longrightarrow> (\<forall>k \<in> set (mkeys fls). safe_key k)))"

text \<open>A manager of the filesystem backend \<open>f\<close> with the source \<open>get\<close>.\<close>

definition managerOf ::
  "(string \<Rightarrow> unit os) \<Rightarrow> Filesystem \<Rightarrow> (Metadata \<Rightarrow> ('h, string gomap) io) \<Rightarrow> (world \<times> 'h) Manager \<Rightarrow> bool" where
  "managerOf rehash f get m \<longleftrightarrow> mgr_inv m \<and>
     metadataReader m = readerOf (\<lambda>v. on_fst (ReadMetadata f v)) (on_fst (ListVolumes f)) \<and>
     getCertificates m = (\<lambda>meta. on_snd (get meta)) \<and>
     writeCertificates m = (\<lambda>meta fls. on_fst (WriteFiles rehash f meta fls))"

lemma fetch_iff:
  "andThen (on_snd m) (\<lambda>x. on_fst (k x)) (w, h) = (r, (w', h')) \<longleftrightarrow>
     (\<exists>err. m h = (Inl err, h') \<and> r = Inl err \<and> w' = w) \<or> (\<exists>x. m h = (Inr x, h') \<and> k x w = (r, w'))"
  by (auto simp: andThen_def on_snd_def on_fst_def split: prod.splits sum.splits)

lemma fs_fetch:
  assumes "rehash_ok rehash" "source_ok mnts get" "fs_ok f w" "fsMetas f w v = Some meta"
    and "andThen (on_snd (get meta)) (\<lambda>fls. on_fst (WriteFiles rehash f meta fls)) (w, h) = (r, (w', h'))"
  shows "fs_ok f w' \<and> fsMetas f w' = fsMetas f w \<and> mnts h' = mnts h \<and>
    (r = Inr () \<longrightarrow> (\<exists>fls. get meta h = (Inr fls, h') \<and>
       published (dataDir f v) (wfs w) (makePayload fls) {bundleName} (wfs w')))"
proof -
  have v: "VolumeID meta = v" using volumeMeta_some(4) assms(3,4) by (auto simp: fs_ok_def fsMetas_def)
  consider err where "get meta h = (Inl err, h')" "r = Inl err" "w' = w"
    | fls where "get meta h = (Inr fls, h')" "WriteFiles rehash f meta fls w = (r, w')"
    using assms(5) unfolding fetch_iff by blast
  then show ?thesis
  proof cases
    case 1
    then show ?thesis using assms(2,3) by (auto simp: source_ok_def)
  next
    case 2
    then have safe: "\<forall>k \<in> set (mkeys fls). safe_key k" "mnts h' = mnts h"
      using assms(2) unfolding source_ok_def by blast+
    show ?thesis
      using WriteFiles_store [OF assms(3,1) _ safe(1) 2(2)] assms(4) v 2 safe(2) by auto
  qed
qed

lemma fs_node:
  assumes "deepEqual_ok deepEqual" "host_ok mnts mt mkdirAll"
  shows "node_env (fs_ok f \<circ> fst) (fsMetas f \<circ> fst) pname (\<lambda>v. on_fst (ReadMetadata f v)) (on_fst (ListVolumes f))
    (\<lambda>m. on_fst (RegisterMetadata deepEqual f m)) (\<lambda>v. on_fst (RemoveVolume f v)) (mnts \<circ> snd)
    (nodeOn (fsStorage deepEqual f) mt mkdirAll nid)"
  using node_lift [of "fs_ok f" "fsMetas f" pname "ReadMetadata f" "ListVolumes f" "fsStorage deepEqual f", OF _ assms(2)]
    fs_store [OF assms(1), of f] by (simp add: fsStorage_def)

text \<open>The state of a driver on the filesystem backend: every managed volume is stored.\<close>

definition driver_ok ::
  "(string \<Rightarrow> unit os) \<Rightarrow> Filesystem \<Rightarrow> (Metadata \<Rightarrow> ('h, string gomap) io) \<Rightarrow> (world \<times> 'h) Manager \<times> world \<times> 'h \<Rightarrow> bool" where
  "driver_ok rehash f get = (\<lambda>(m, w, h). managerOf rehash f get m \<and> fs_ok f w \<and>
     (\<forall>v. managed m v \<longrightarrow> fsMetas f w v \<noteq> None))"

lemma driver_st_ok:
  assumes "deepEqual_ok deepEqual" "host_ok mnts mt mkdirAll" "rehash_ok rehash" "source_ok mnts get"
    and "driver_ok rehash f get s"
  shows "node_env.st_ok (fs_ok f \<circ> fst) (fsMetas f \<circ> fst) (\<lambda>v. on_fst (ReadMetadata f v)) (on_fst (ListVolumes f)) (mnts \<circ> snd) s"
proof -
  obtain m w h where s: "s = (m, w, h)" by (cases s) auto
  note ne = fs_node [OF assms(1,2), of f]
  have m: "getCertificates m = (\<lambda>meta. on_snd (get meta))" "writeCertificates m = (\<lambda>meta fls. on_fst (WriteFiles rehash f meta fls))"
    using assms(5) s by (simp_all add: driver_ok_def managerOf_def)
  have got: "\<forall>k \<in> set (mkeys fls). safe_key k" if fls: "fetched (getCertificates m) meta fls" for meta fls
  proof -
    obtain e e' where "getCertificates m meta e = (Inr fls, e')" using fls by (auto simp: fetched_def)
    then have "get meta (snd e) = (Inr fls, snd e')" by (cases e; cases e') (simp add: m on_snd_iff)
    then show ?thesis using assms(4) unfolding source_ok_def by blast
  qed
  have "node_env.fetch_ok (fs_ok f \<circ> fst) (fsMetas f \<circ> fst) (mnts \<circ> snd) (getCertificates m) (writeCertificates m)"
    unfolding node_env.fetch_ok_def [OF ne]
  proof (intro conjI allI impI)
    fix e meta r e' assume "(fs_ok f \<circ> fst) e" "getCertificates m meta e = (r, e')"
    then show "(fs_ok f \<circ> fst) e'" "(fsMetas f \<circ> fst) e' = (fsMetas f \<circ> fst) e" "(mnts \<circ> snd) e' = (mnts \<circ> snd) e"
      using assms(4) by (cases e; cases e'; auto simp: m on_snd_iff source_ok_def)+
  next
    fix e v meta fls r e'
    assume w: "(fs_ok f \<circ> fst) e" "(fsMetas f \<circ> fst) e v = Some meta" "fetched (getCertificates m) meta fls"
      "writeCertificates m meta fls e = (r, e')"
    have "VolumeID meta = v" using volumeMeta_some(4) w(1,2) by (auto simp: fs_ok_def fsMetas_def)
    then have "fs_ok f (fst e')" "fsMetas f (fst e') = fsMetas f (fst e)" "snd e' = snd e"
      using WriteFiles_store [OF _ assms(3) _ got [OF w(3)], of f "fst e" meta r "fst e'"] w(1,2,4) by (cases e; cases e'; auto simp: m on_fst_iff)+
    then show "(fs_ok f \<circ> fst) e'" "(fsMetas f \<circ> fst) e' = (fsMetas f \<circ> fst) e" "(mnts \<circ> snd) e' = (mnts \<circ> snd) e" by simp_all
  qed
  then show ?thesis
    using assms(5) unfolding node_env.st_ok_def [OF ne] node_env.mgr_ok_def [OF ne] driver_ok_def managerOf_def s by auto
qed

text \<open>Looking at the target path leaves the store as it is.\<close>

lemma ensure_world: "ensureMountTarget (nodeOn st mt mkdirAll nid) t (w, h) = (r, e) \<Longrightarrow> fst e = w"
  by (cases e) (auto simp: ensureMountTarget_def nodeOn_def hostMounter_def andThen_def ret_def on_snd_def
      split: prod.splits option.splits if_splits sum.splits)

section \<open>A sample driver\<close>

definition sampleGet :: "Metadata \<Rightarrow> (string list, string gomap) io" where
  "sampleGet = (\<lambda>_. ret [(''a'', ''b'')])"

definition sampleManager :: "(world \<times> string list) Manager" where
  "sampleManager = emptyManager (readerOf (\<lambda>v. on_fst (ReadMetadata sampleFSB v)) (on_fst (ListVolumes sampleFSB))) []
     (\<lambda>meta. on_snd (sampleGet meta)) (\<lambda>meta fls. on_fst (WriteFiles (\<lambda>_. ret ()) sampleFSB meta fls))"

definition sampleRequest :: NodePublishVolumeRequest where
  "sampleRequest = \<lparr>VolumeId = ''v1'', Target = ''/t'', Context = [(ephemeralKey, ''true'')], Readonly = True\<rparr>"

abbreviation sampleNode :: "(world \<times> string list) nodeServer" where
  "sampleNode \<equiv> nodeOn (fsStorage sameEntries sampleFSB) tableMounter (\<lambda>p m. ret ()) ''node''"

lemma source_ok_sample: "source_ok set sampleGet"
  by (auto simp: source_ok_def sampleGet_def ret_def safe_key_def pcomps_def unreserved_def hasPrefix_def)

lemma driver_ok_sample: "driver_ok (\<lambda>_. ret ()) sampleFSB sampleGet (sampleManager, sampleWorld volFS, [])"
  using fs_ok_volFS by (simp add: driver_ok_def managerOf_def sampleManager_def emptyManager_def mgr_inv_def)

lemma meta_ok_sample: "meta_ok (FromNodePublishVolumeRequest sampleRequest)"
  by code_simp

abbreviation sampleState :: "(world \<times> string list) Manager \<times> world \<times> string list" where
  "sampleState \<equiv> (sampleManager, sampleWorld volFS, [])"

lemma sample_requests: "pname (VolumeId sampleRequest)" "\<not> managed sampleManager ''v1''" "VolumeId sampleRequest = ''v1''"
    "Target sampleRequest = ''/t''"
  by (simp_all add: sampleRequest_def sampleManager_def emptyManager_def pname_def)

lemmas sample_driver = deepEqual_ok_sameEntries host_ok_table rehash_ok_skip source_ok_sample driver_ok_sample

end
