(* ===== verification/Driver_Calls.thy ===== *)
theory Driver_Calls
  imports Driver_Stores
begin

text \<open>
  Calls of the node service that run at the same time. The gRPC server runs every call in a goroutine of its own; the
  calls share the manager, the store and the mounts and hold no lock between one operation on these and the
  next. Here a call is a sequence of such operations, each atomic, and a schedule says which call runs next.
\<close>

section \<open>The steps of a publish call\<close>

datatype publishPC =
    AtRegister | AtTable | AtReady | AtManage | AtRead | AtGet Metadata | AtWrite Metadata "string gomap" | AtTarget | AtMount
  | AtUnmanage goerr | AtUnmount goerr | AtRemove goerr | Done "goerr + unit"

text \<open>An operation on the environment that the manager has a function for.\<close>

definition with_mgr :: "('e Manager \<Rightarrow> ('e, 'a) io) \<Rightarrow> ('e, 'a) mgr" where
  "with_mgr k = (\<lambda>(m, e). on_env (k m) (m, e))"

text \<open>Go on at \<open>k\<close> when an operation succeeds, clean up when it fails.\<close>

definition stepTo :: "('a \<Rightarrow> publishPC) \<Rightarrow> ((goerr + 'a) \<times> 's) \<Rightarrow> publishPC \<times> 's" where
  "stepTo k = (\<lambda>(r, s). (case r of Inl err \<Rightarrow> AtUnmanage err | Inr x \<Rightarrow> k x, s))"

fun publishStep :: "'e nodeServer \<Rightarrow> NodePublishVolumeRequest \<Rightarrow> publishPC \<times> 'e Manager \<times> 'e \<Rightarrow> publishPC \<times> 'e Manager \<times> 'e" where
  "publishStep ns req (AtRegister, s) =
     (if mget (Context req) ephemeralKey \<noteq> Some ''true''
      then (AtUnmanage (Msg ''only ephemeral volume types are supported''), s)
      else if \<not> Readonly req
      then (AtUnmanage (Status InvalidArgument (''pod.spec.volumes[].csi.readOnly must be set to 'true'' @ [CHR 0x27])), s)
      else stepTo (\<lambda>_. AtTable) (on_env (sRegisterMetadata (store ns) (FromNodePublishVolumeRequest req)) s))"
| "publishStep ns req (AtTable, s) = (if mget (managedVolumes (fst s)) (VolumeId req) = None then AtManage else AtReady, s)"
| "publishStep ns req (AtReady, s) =
     (case with_mgr (\<lambda>m. readerReadMetadata (metadataReader m) (VolumeId req)) s of
        (Inl _, s') \<Rightarrow> (AtManage, s')
      | (Inr _, s') \<Rightarrow> (AtTarget, s'))"
| "publishStep ns req (AtManage, s) =
     stepTo (\<lambda>new. if new then AtRead else AtTarget) (on_mgr (manageVolumeIfNotManaged (VolumeId req)) s)"
| "publishStep ns req (AtRead, s) =
     stepTo AtGet (with_mgr (\<lambda>m. wrapping ''reading metadata'' (readerReadMetadata (metadataReader m) (VolumeId req))) s)"
| "publishStep ns req (AtGet meta, s) = stepTo (AtWrite meta) (with_mgr (\<lambda>m. getCertificates m meta) s)"
| "publishStep ns req (AtWrite meta fls, s) = stepTo (\<lambda>_. AtTarget) (with_mgr (\<lambda>m. writeCertificates m meta fls) s)"
| "publishStep ns req (AtTarget, s) =
     stepTo (\<lambda>isMnt. if isMnt then Done (Inr ()) else AtMount) (on_env (ensureMountTarget ns (Target req)) s)"
| "publishStep ns req (AtMount, s) =
     stepTo (\<lambda>_. Done (Inr ()))
       (on_env (Mount (nsMounter ns) (sPathForVolume (store ns) (VolumeId req)) (Target req) [] [''bind'', ''ro'']) s)"
| "publishStep ns req (AtUnmanage err, s) =
     (case on_mgr (UnmanageVolume (VolumeId req)) s of
        (Inl panic, s') \<Rightarrow> (Done (Inl panic), s')
      | (Inr _, s') \<Rightarrow> (AtUnmount err, s'))"
| "publishStep ns req (AtUnmount err, s) = (AtRemove err, snd (on_env (Unmount (nsMounter ns) (Target req)) s))"
| "publishStep ns req (AtRemove err, s) = (Done (Inl err), snd (on_env (sRemoveVolume (store ns) (VolumeId req)) s))"
| "publishStep ns req (Done r, s) = (Done r, s)"

section \<open>The steps of an unpublish call\<close>

datatype unpublishPC = UnManage | UnTarget | UnMount | UnRemove | UnDone "goerr + unit"

definition unStepTo :: "('a \<Rightarrow> unpublishPC) \<Rightarrow> ((goerr + 'a) \<times> 's) \<Rightarrow> unpublishPC \<times> 's" where
  "unStepTo k = (\<lambda>(r, s). (case r of Inl err \<Rightarrow> UnDone (Inl err) | Inr x \<Rightarrow> k x, s))"

fun unpublishStep ::
  "'e nodeServer \<Rightarrow> NodeUnpublishVolumeRequest \<Rightarrow> unpublishPC \<times> 'e Manager \<times> 'e \<Rightarrow> unpublishPC \<times> 'e Manager \<times> 'e" where
  "unpublishStep ns req (UnManage, s) = unStepTo (\<lambda>_. UnTarget) (on_mgr (UnmanageVolume (unVolumeId req)) s)"
| "unpublishStep ns req (UnTarget, s) =
     unStepTo (\<lambda>isMnt. if isMnt then UnMount else UnRemove) (on_env (isMountPointOrFail ns (unTarget req)) s)"
| "unpublishStep ns req (UnMount, s) = unStepTo (\<lambda>_. UnRemove) (on_env (Unmount (nsMounter ns) (unTarget req)) s)"
| "unpublishStep ns req (UnRemove, s) =
     unStepTo (\<lambda>_. UnDone (Inr ())) (on_env (sRemoveVolume (store ns) (unVolumeId req)) s)"
| "unpublishStep ns req (UnDone r, s) = (UnDone r, s)"

section \<open>Calls\<close>

text \<open>A call in progress, or one that has returned.\<close>

datatype call = PublishCall NodePublishVolumeRequest publishPC | UnpublishCall NodeUnpublishVolumeRequest unpublishPC

fun startCall :: "nodeRequest \<Rightarrow> call" where
  "startCall (Publish req) = PublishCall req AtRegister"
| "startCall (Unpublish req) = UnpublishCall req UnManage"

fun callRequest :: "call \<Rightarrow> nodeRequest" where
  "callRequest (PublishCall req pc) = Publish req"
| "callRequest (UnpublishCall req pc) = Unpublish req"

fun callResult :: "call \<Rightarrow> (goerr + unit) option" where
  "callResult (PublishCall req (Done r)) = Some r"
| "callResult (UnpublishCall req (UnDone r)) = Some r"
| "callResult _ = None"

fun callStep :: "'e nodeServer \<Rightarrow> call \<times> 'e Manager \<times> 'e \<Rightarrow> call \<times> 'e Manager \<times> 'e" where
  "callStep ns (PublishCall req pc, s) = map_prod (PublishCall req) id (publishStep ns req (pc, s))"
| "callStep ns (UnpublishCall req pc, s) = map_prod (UnpublishCall req) id (unpublishStep ns req (pc, s))"

fun_cases callResult_SomeE: "callResult c = Some r"

lemma callRequest_start [simp]: "callRequest (startCall q) = q"
  by (cases q) simp_all

lemma callRequest_step [simp]: "callRequest (fst (callStep ns (c, s))) = callRequest c"
  by (cases c) (auto simp: map_prod_def split: prod.splits)

section \<open>The steps are the call\<close>

text \<open>The code that a call still has to run.\<close>

definition cleanup :: "'e nodeServer \<Rightarrow> NodePublishVolumeRequest \<Rightarrow> goerr \<Rightarrow> ('e, unit) mgr" where
  "cleanup ns req err =
     andThen (on_mgr (UnmanageVolume (VolumeId req))) (\<lambda>_.
     andThen (ignoring (on_env (Unmount (nsMounter ns) (Target req)))) (\<lambda>_.
     andThen (ignoring (on_env (sRemoveVolume (store ns) (VolumeId req)))) (\<lambda>_.
       throw err)))"

definition guarded :: "'e nodeServer \<Rightarrow> NodePublishVolumeRequest \<Rightarrow> ('e, unit) mgr \<Rightarrow> ('e, unit) mgr" where
  "guarded ns req m = attempt m (case_sum (cleanup ns req) (\<lambda>_. ret ()))"

definition managePart :: "string \<Rightarrow> ('e, unit) mgr" where
  "managePart v = (\<lambda>s. case ManageVolumeImmediate v s of
       ((_, Some err), s') \<Rightarrow> (Inl err, s') | ((_, None), s') \<Rightarrow> (Inr (), s'))"

definition mountPart :: "'e nodeServer \<Rightarrow> NodePublishVolumeRequest \<Rightarrow> ('e, unit) mgr" where
  "mountPart ns req = andThen (on_env (ensureMountTarget ns (Target req))) (\<lambda>isMnt.
     if isMnt then ret ()
     else on_env (Mount (nsMounter ns) (sPathForVolume (store ns) (VolumeId req)) (Target req) [] [''bind'', ''ro'']))"

definition readyPart :: "'e nodeServer \<Rightarrow> NodePublishVolumeRequest \<Rightarrow> bool \<Rightarrow> ('e, unit) mgr" where
  "readyPart ns req isReady = andThen (if \<not> isReady then managePart (VolumeId req) else ret ()) (\<lambda>_. mountPart ns req)"

fun remaining :: "'e nodeServer \<Rightarrow> NodePublishVolumeRequest \<Rightarrow> publishPC \<Rightarrow> ('e, unit) mgr" where
  "remaining ns req AtRegister = NodePublishVolume ns req"
| "remaining ns req AtTable = guarded ns req (andThen (IsVolumeReady (VolumeId req)) (readyPart ns req))"
| "remaining ns req AtReady = guarded ns req (andThen (attempt (with_mgr (\<lambda>m. readerReadMetadata (metadataReader m) (VolumeId req)))
     (case_sum (\<lambda>_. ret False) (\<lambda>_. ret True))) (readyPart ns req))"
| "remaining ns req AtManage = guarded ns req (andThen (managePart (VolumeId req)) (\<lambda>_. mountPart ns req))"
| "remaining ns req AtRead = guarded ns req (andThen (with_mgr (\<lambda>m. andThen
     (wrapping ''reading metadata'' (readerReadMetadata (metadataReader m) (VolumeId req)))
       (\<lambda>meta. andThen (getCertificates m meta) (writeCertificates m meta)))) (\<lambda>_. mountPart ns req))"
| "remaining ns req (AtGet meta) = guarded ns req (andThen (with_mgr (\<lambda>m. andThen (getCertificates m meta)
     (writeCertificates m meta))) (\<lambda>_. mountPart ns req))"
| "remaining ns req (AtWrite meta fls) = guarded ns req (andThen (with_mgr (\<lambda>m. writeCertificates m meta fls)) (\<lambda>_. mountPart ns req))"
| "remaining ns req AtTarget = guarded ns req (mountPart ns req)"
| "remaining ns req AtMount = guarded ns req
     (on_env (Mount (nsMounter ns) (sPathForVolume (store ns) (VolumeId req)) (Target req) [] [''bind'', ''ro'']))"
| "remaining ns req (AtUnmanage err) = cleanup ns req err"
| "remaining ns req (AtUnmount err) = andThen (ignoring (on_env (Unmount (nsMounter ns) (Target req)))) (\<lambda>_.
     andThen (ignoring (on_env (sRemoveVolume (store ns) (VolumeId req)))) (\<lambda>_. throw err))"
| "remaining ns req (AtRemove err) = andThen (ignoring (on_env (sRemoveVolume (store ns) (VolumeId req)))) (\<lambda>_. throw err)"
| "remaining ns req (Done r) = lift_res r"

fun unRemaining :: "'e nodeServer \<Rightarrow> NodeUnpublishVolumeRequest \<Rightarrow> unpublishPC \<Rightarrow> ('e, unit) mgr" where
  "unRemaining ns req UnManage = NodeUnpublishVolume ns req"
| "unRemaining ns req UnTarget = andThen (on_env (isMountPointOrFail ns (unTarget req))) (\<lambda>isMnt.
     andThen (if isMnt then on_env (Unmount (nsMounter ns) (unTarget req)) else ret ()) (\<lambda>_.
       on_env (sRemoveVolume (store ns) (unVolumeId req))))"
| "unRemaining ns req UnMount = andThen (on_env (Unmount (nsMounter ns) (unTarget req))) (\<lambda>_.
     on_env (sRemoveVolume (store ns) (unVolumeId req)))"
| "unRemaining ns req UnRemove = on_env (sRemoveVolume (store ns) (unVolumeId req))"
| "unRemaining ns req (UnDone r) = lift_res r"

lemma NodePublishVolume_guarded: "NodePublishVolume ns req = guarded ns req (publishBody ns req)"
  by (simp add: NodePublishVolume_def guarded_def cleanup_def case_sum_if fun_eq_iff attempt_def split: sum.splits prod.splits)

lemma guarded_andThen:
  "guarded ns req (andThen m k) s = (case m s of (Inl err, s') \<Rightarrow> cleanup ns req err s' | (Inr x, s') \<Rightarrow> guarded ns req (k x) s')"
  by (auto simp: guarded_def attempt_def andThen_def split: prod.splits sum.splits)

lemma guarded_throw: "guarded ns req (throw err) s = cleanup ns req err s"
  by (simp add: guarded_def attempt_def throw_def)

lemma guarded_ret: "guarded ns req (ret ()) s = (Inr (), s)"
  by (simp add: guarded_def attempt_def ret_def)

lemma publishBody_parts:
  "publishBody ns req = (if mget (Context req) ephemeralKey \<noteq> Some ''true''
      then throw (Msg ''only ephemeral volume types are supported'')
      else if \<not> Readonly req
      then throw (Status InvalidArgument (''pod.spec.volumes[].csi.readOnly must be set to 'true'' @ [CHR 0x27]))
      else andThen (on_env (sRegisterMetadata (store ns) (FromNodePublishVolumeRequest req))) (\<lambda>_.
        andThen (IsVolumeReady (VolumeId req)) (readyPart ns req)))"
  unfolding publishBody_def managePart_def mountPart_def readyPart_def Let_def by (rule refl)

lemma with_mgr_andThen: "with_mgr (\<lambda>m. andThen (f m) (g m)) s = andThen (with_mgr f) (\<lambda>x. with_mgr (\<lambda>m. g m x)) s"
  by (cases s) (auto simp: with_mgr_def on_env_def andThen_def split: prod.splits sum.splits)

lemma IsVolumeReady_table:
  "IsVolumeReady v s = (if mget (managedVolumes (fst s)) v = None then (Inr False, s)
     else attempt (with_mgr (\<lambda>m. readerReadMetadata (metadataReader m) v)) (case_sum (\<lambda>_. ret False) (\<lambda>_. ret True)) s)"
  by (cases s) (auto simp: IsVolumeReady_def with_mgr_def attempt_def ret_def on_env_def split: prod.splits sum.splits)

lemma managePart_fetch:
  "managePart v s = andThen (on_mgr (manageVolumeIfNotManaged v)) (\<lambda>new. if new then with_mgr (\<lambda>m. andThen
     (wrapping ''reading metadata'' (readerReadMetadata (metadataReader m) v))
       (\<lambda>meta. andThen (getCertificates m meta) (writeCertificates m meta))) else ret ()) s"
proof -
  obtain m e r m1 where s: "s = (m, e)" and mg: "manageVolumeIfNotManaged v m = (r, m1)" by (metis surj_pair)
  then have "on_mgr (manageVolumeIfNotManaged v) s = (r, (m1, e))" by (simp add: on_mgr_run)
  then show ?thesis
    using mg unfolding s
    by (auto simp: managePart_def ManageVolumeImmediate_def andThen_def [of "on_mgr _"] with_mgr_def on_env_def ret_def
        split: prod.splits sum.splits bool.splits)
qed

lemma andThen_ignoring: "andThen (ignoring m) k s = k () (snd (m s))"
  by (simp add: andThen_def ignoring_def attempt_def ret_def split: prod.splits)

text \<open>A step does not change what the call still has to run.\<close>

lemma publish_step_remaining:
  "remaining ns req (fst (publishStep ns req (pc, s))) (snd (publishStep ns req (pc, s))) = remaining ns req pc s"
proof (cases pc)
  case AtRegister
  then show ?thesis
    by (auto simp: NodePublishVolume_guarded publishBody_parts guarded_andThen guarded_throw stepTo_def split: prod.splits sum.splits)
next
  case AtTable
  then show ?thesis by (auto simp: guarded_andThen IsVolumeReady_table readyPart_def split: prod.splits sum.splits)
next
  case AtReady
  then show ?thesis
    by (auto simp: guarded_andThen attempt_def readyPart_def ret_def split: prod.splits sum.splits)
next
  case AtManage
  then show ?thesis
    by (auto simp: guarded_andThen managePart_fetch andThen_def [of "on_mgr _"] stepTo_def ret_def split: prod.splits sum.splits)
next
  case AtRead
  then show ?thesis by (auto simp: guarded_andThen with_mgr_andThen andThen_def [of "with_mgr _"] stepTo_def split: prod.splits sum.splits)
next
  case (AtGet meta)
  then show ?thesis by (auto simp: guarded_andThen with_mgr_andThen andThen_def [of "with_mgr _"] stepTo_def split: prod.splits sum.splits)
next
  case (AtWrite meta fls)
  then show ?thesis by (auto simp: guarded_andThen stepTo_def split: prod.splits sum.splits)
next
  case AtTarget
  then show ?thesis by (auto simp: mountPart_def guarded_andThen guarded_ret lift_res_def stepTo_def split: prod.splits sum.splits)
next
  case AtMount
  then show ?thesis by (auto simp: guarded_def attempt_def stepTo_def lift_res_def ret_def split: prod.splits sum.splits)
next
  case (AtUnmanage err)
  then show ?thesis by (auto simp: cleanup_def andThen_def [of "on_mgr _"] lift_res_def throw_def split: prod.splits sum.splits)
next
  case (AtUnmount err)
  then show ?thesis by (simp add: andThen_ignoring)
next
  case (AtRemove err)
  then show ?thesis by (simp add: andThen_ignoring lift_res_def throw_def)
qed simp

lemma unpublish_step_remaining:
  "unRemaining ns req (fst (unpublishStep ns req (pc, s))) (snd (unpublishStep ns req (pc, s))) = unRemaining ns req pc s"
  by (cases pc)
    (auto simp: NodeUnpublishVolume_def unStepTo_def lift_res_def ret_def andThen_def [of "on_mgr _"] andThen_def [of "on_env _"]
      andThen_def [of "\<lambda>e. (_, e)"] split: prod.splits sum.splits)

fun callRemaining :: "'e nodeServer \<Rightarrow> call \<Rightarrow> ('e, unit) mgr" where
  "callRemaining ns (PublishCall req pc) = remaining ns req pc"
| "callRemaining ns (UnpublishCall req pc) = unRemaining ns req pc"

lemma step_remaining: "callRemaining ns (fst (callStep ns (c, s))) (snd (callStep ns (c, s))) = callRemaining ns c s"
  by (cases c) (simp_all add: map_prod_def publish_step_remaining unpublish_step_remaining split_beta)

lemma callRemaining_result: "callResult c = Some r \<Longrightarrow> callRemaining ns c s = (r, s)"
  by (erule callResult_SomeE) (simp_all add: lift_res_def)

lemma callRemaining_start: "callRemaining ns (startCall q) = nodeStep ns q"
  by (cases q) simp_all

text \<open>Every step that is not idle comes nearer to the end.\<close>

fun publishLeft :: "publishPC \<Rightarrow> nat" where
  "publishLeft AtRegister = 12"
| "publishLeft AtTable = 11"
| "publishLeft AtReady = 10"
| "publishLeft AtManage = 9"
| "publishLeft AtRead = 8"
| "publishLeft (AtGet meta) = 7"
| "publishLeft (AtWrite meta fls) = 6"
| "publishLeft AtTarget = 5"
| "publishLeft AtMount = 4"
| "publishLeft (AtUnmanage err) = 3"
| "publishLeft (AtUnmount err) = 2"
| "publishLeft (AtRemove err) = 1"
| "publishLeft (Done r) = 0"

fun unpublishLeft :: "unpublishPC \<Rightarrow> nat" where
  "unpublishLeft UnManage = 4"
| "unpublishLeft UnTarget = 3"
| "unpublishLeft UnMount = 2"
| "unpublishLeft UnRemove = 1"
| "unpublishLeft (UnDone r) = 0"

fun stepsLeft :: "call \<Rightarrow> nat" where
  "stepsLeft (PublishCall req pc) = publishLeft pc"
| "stepsLeft (UnpublishCall req pc) = unpublishLeft pc"

lemma step_decreases: "stepsLeft (fst (callStep ns (c, s))) \<le> stepsLeft c - 1"
proof (cases c)
  case (PublishCall req pc)
  then show ?thesis by (cases pc) (auto simp: stepTo_def map_prod_def split: prod.splits sum.splits)
next
  case (UnpublishCall req pc)
  then show ?thesis by (cases pc) (auto simp: unStepTo_def map_prod_def split: prod.splits sum.splits)
qed

lemma stepsLeft_0: "stepsLeft c = 0 \<longleftrightarrow> (\<exists>r. callResult c = Some r)"
proof (cases c)
  case (PublishCall req pc)
  then show ?thesis by (cases pc) auto
next
  case (UnpublishCall req pc)
  then show ?thesis by (cases pc) auto
qed

lemma stepsLeft_le: "stepsLeft c \<le> 12"
proof (cases c)
  case (PublishCall req pc)
  then show ?thesis by (cases pc) auto
next
  case (UnpublishCall req pc)
  then show ?thesis by (cases pc) auto
qed

lemma steps_remaining:
  "callRemaining ns (fst ((callStep ns ^^ n) (c, s))) (snd ((callStep ns ^^ n) (c, s))) = callRemaining ns c s \<and>
   stepsLeft (fst ((callStep ns ^^ n) (c, s))) \<le> stepsLeft c - n"
proof (induction n)
  case (Suc n)
  obtain c1 s1 where run: "(callStep ns ^^ n) (c, s) = (c1, s1)" by (meson surj_pair)
  then have "stepsLeft c1 \<le> stepsLeft c - n" "callRemaining ns c1 s1 = callRemaining ns c s" using Suc.IH by simp_all
  with run step_remaining [of ns c1 s1] step_decreases [of ns c1 s1] show ?case by simp
qed simp


section \<open>Schedules\<close>

text \<open>The calls in progress, and the state they share; the schedule names the call that runs its next step.\<close>

fun interleave :: "'e nodeServer \<Rightarrow> nat list \<Rightarrow> call list \<times> 'e Manager \<times> 'e \<Rightarrow> call list \<times> 'e Manager \<times> 'e" where
  "interleave ns [] c = c"
| "interleave ns (i # is) (cs, s) =
     (if i < length cs
      then case callStep ns (cs ! i, s) of (c, s') \<Rightarrow> interleave ns is (cs[i := c], s')
      else interleave ns is (cs, s))"

lemma requests_update:
  assumes "i < length cs" "callStep ns (cs ! i, s) = (c, s')"
  shows "map callRequest (cs[i := c]) = map callRequest cs"
  using assms callRequest_step [of ns "cs ! i" s] by (simp add: list_eq_iff_nth_eq nth_list_update)

lemma interleave_requests: "map callRequest (fst (interleave ns is (cs, s))) = map callRequest cs"
proof (induction "is" arbitrary: cs s)
  case (Cons i "is")
  then show ?case using requests_update [of i cs ns s] by (auto split: prod.splits)
qed simp

lemma interleave_left:
  assumes "i < length cs"
  shows "stepsLeft (fst (interleave ns is (cs, s)) ! i) \<le> stepsLeft (cs ! i) - count_list is i"
  using assms
proof (induction "is" arbitrary: cs s)
  case (Cons j js)
  show ?case
  proof (cases "j < length cs")
    case True
    obtain c s' where st: "callStep ns (cs ! j, s) = (c, s')" by (meson surj_pair)
    then have "stepsLeft c \<le> stepsLeft (cs ! j) - 1" using step_decreases [of ns "cs ! j" s] by simp
    moreover have "stepsLeft (fst (interleave ns (j # js) (cs, s)) ! i) \<le> stepsLeft (cs[j := c] ! i) - count_list js i"
      using Cons.IH [of "cs[j := c]" s'] Cons.prems True st by simp
    ultimately show ?thesis using Cons.prems by (cases "i = j") auto
  qed (use Cons in auto)
qed simp



end
