(* ===== verification/Driver_Interleaving.thy ===== *)
theory Driver_Interleaving
  imports Driver_Calls
begin

text \<open>
  Publish and unpublish calls for different volumes do not disturb each other. The proof gives every point of a call an
  assertion on the volume of that call; a step establishes the assertion of the next point and changes nothing else, so it
  keeps the assertions of the other calls.
\<close>

fun reqVolume :: "nodeRequest \<Rightarrow> string" where
  "reqVolume (Publish req) = VolumeId req"
| "reqVolume (Unpublish req) = unVolumeId req"

fun reqTarget :: "nodeRequest \<Rightarrow> string" where
  "reqTarget (Publish req) = Target req"
| "reqTarget (Unpublish req) = unTarget req"

section \<open>Assertions\<close>

context node_env
begin

definition stored :: "NodePublishVolumeRequest \<Rightarrow> 'e Manager \<times> 'e \<Rightarrow> bool" where
  "stored req s \<longleftrightarrow> (\<exists>meta. metas (snd s) (VolumeId req) = Some meta \<and> map_of (VolumeContext meta) = map_of (Context req))"

definition stored_as :: "NodePublishVolumeRequest \<Rightarrow> Metadata \<Rightarrow> 'e Manager \<times> 'e \<Rightarrow> bool" where
  "stored_as req meta s \<longleftrightarrow> managed (fst s) (VolumeId req) \<and> metas (snd s) (VolumeId req) = Some meta \<and>
     map_of (VolumeContext meta) = map_of (Context req)"

text \<open>What holds of the shared state when a call is at a step, as far as its own volume goes.\<close>

fun pub_ok :: "NodePublishVolumeRequest \<Rightarrow> publishPC \<Rightarrow> 'e Manager \<times> 'e \<Rightarrow> bool" where
  "pub_ok req AtRegister s \<longleftrightarrow> True"
| "pub_ok req AtTable s \<longleftrightarrow> stored req s"
| "pub_ok req AtReady s \<longleftrightarrow> stored req s \<and> managed (fst s) (VolumeId req)"
| "pub_ok req AtManage s \<longleftrightarrow> stored req s"
| "pub_ok req AtRead s \<longleftrightarrow> stored req s \<and> managed (fst s) (VolumeId req)"
| "pub_ok req (AtGet meta) s \<longleftrightarrow> stored_as req meta s"
| "pub_ok req (AtWrite meta fls) s \<longleftrightarrow> stored_as req meta s \<and> fetched (getCertificates (fst s)) meta fls"
| "pub_ok req AtTarget s \<longleftrightarrow> stored req s \<and> managed (fst s) (VolumeId req)"
| "pub_ok req AtMount s \<longleftrightarrow> stored req s \<and> managed (fst s) (VolumeId req)"
| "pub_ok req (AtUnmanage err) s \<longleftrightarrow> True"
| "pub_ok req (AtUnmount err) s \<longleftrightarrow> \<not> managed (fst s) (VolumeId req)"
| "pub_ok req (AtRemove err) s \<longleftrightarrow> \<not> managed (fst s) (VolumeId req)"
| "pub_ok req (Done r) s \<longleftrightarrow> (case r of
     Inr _ \<Rightarrow> served req s
   | Inl _ \<Rightarrow> \<not> managed (fst s) (VolumeId req) \<and> metas (snd s) (VolumeId req) = None)"

fun unpub_ok :: "NodeUnpublishVolumeRequest \<Rightarrow> unpublishPC \<Rightarrow> 'e Manager \<times> 'e \<Rightarrow> bool" where
  "unpub_ok req UnManage s \<longleftrightarrow> True"
| "unpub_ok req UnTarget s \<longleftrightarrow> \<not> managed (fst s) (unVolumeId req)"
| "unpub_ok req UnMount s \<longleftrightarrow> \<not> managed (fst s) (unVolumeId req)"
| "unpub_ok req UnRemove s \<longleftrightarrow> \<not> managed (fst s) (unVolumeId req) \<and> unTarget req \<notin> mnts (snd s)"
| "unpub_ok req (UnDone r) s \<longleftrightarrow> \<not> managed (fst s) (unVolumeId req) \<and>
     (r = Inr () \<longrightarrow> metas (snd s) (unVolumeId req) = None \<and> unTarget req \<notin> mnts (snd s))"

fun call_ok :: "call \<Rightarrow> 'e Manager \<times> 'e \<Rightarrow> bool" where
  "call_ok (PublishCall req pc) s \<longleftrightarrow> pub_ok req pc s"
| "call_ok (UnpublishCall req pc) s \<longleftrightarrow> unpub_ok req pc s"

lemma call_ok_start: "call_ok (startCall q) s"
  by (cases q) simp_all

text \<open>What a step for the volume \<open>v\<close> and the target \<open>t\<close> keeps.\<close>

definition keeps :: "string \<Rightarrow> string \<Rightarrow> 'e Manager \<times> 'e \<Rightarrow> 'e Manager \<times> 'e \<Rightarrow> bool" where
  "keeps v t s s' \<longleftrightarrow> st_ok s' \<and> only_volume v t s s' \<and> getCertificates (fst s') = getCertificates (fst s) \<and>
     writeCertificates (fst s') = writeCertificates (fst s)"

lemma keepsD:
  assumes "keeps v t s s'" "u \<noteq> v"
  shows "metas (snd s') u = metas (snd s) u \<and> (managed (fst s') u \<longleftrightarrow> managed (fst s) u)"
  using assms unfolding keeps_def only_volume_def by (elim conjE) (erule allE, erule mp)

lemma call_ok_frame:
  assumes "call_ok c s" "keeps v t s s'" "v \<noteq> reqVolume (callRequest c)" "t \<noteq> reqTarget (callRequest c)"
  shows "call_ok c s'"
proof -
  note u = keepsD [OF assms(2)]
  have t: "x \<in> mnts (snd s') \<longleftrightarrow> x \<in> mnts (snd s)" if "x \<noteq> t" for x
    using assms(2) that unfolding keeps_def only_volume_def by (elim conjE) (blast dest: equalityD1 equalityD2)
  have g: "getCertificates (fst s') = getCertificates (fst s)" using assms(2) by (simp add: keeps_def)
  show ?thesis
  proof (cases c)
    case (PublishCall req pc)
    then show ?thesis
      using assms(1,3,4) u [of "VolumeId req"] t [of "Target req"] g
      by (cases pc) (auto simp: stored_def stored_as_def served_def split: sum.splits)
  next
    case (UnpublishCall req pc)
    then show ?thesis
      using assms(1,3,4) u [of "unVolumeId req"] t [of "unTarget req"] by (cases pc) auto
  qed
qed

lemma st_okD: "st_ok (m, e) \<Longrightarrow> mgr_ok m" "st_ok (m, e) \<Longrightarrow> ok e" "st_ok (m, e) \<Longrightarrow> managed m u \<Longrightarrow> metas e u \<noteq> None"
  by (simp_all add: st_ok_def del: not_None_eq)

lemma keeps_refl: "st_ok s \<Longrightarrow> keeps v t s s"
  by (simp add: keeps_def only_volume_def)

lemma keeps_env:
  assumes "st_ok (m, e)" "ok e1" "metas e1 = metas e" "mnts e1 - {t} = mnts e - {t}"
  shows "keeps v t (m, e) (m, e1)"
  using assms by (simp add: keeps_def st_ok_def only_volume_def)

lemma keeps_manager:
  assumes "st_ok (m, e)" "mgr_ok m1" "getCertificates m1 = getCertificates m" "writeCertificates m1 = writeCertificates m"
    and "\<And>u. managed m1 u \<Longrightarrow> metas e u \<noteq> None"
    and "\<And>u. u \<noteq> v \<Longrightarrow> managed m1 u \<longleftrightarrow> managed m u"
  shows "keeps v t (m, e) (m1, e)"
  using assms unfolding keeps_def st_ok_def only_volume_def by (simp del: not_None_eq)

lemma keeps_store:
  assumes "st_ok (m, e)" "ok e1" "metas e1 = (metas e)(v := x)" "x = None \<Longrightarrow> \<not> managed m v" "mnts e1 = mnts e"
  shows "keeps v t (m, e) (m, e1)"
proof -
  have "metas e1 u \<noteq> None" if "managed m u" for u
    using that assms(3,4) st_okD(3) [OF assms(1), of u] by (cases "u = v") (auto simp del: not_None_eq)
  then show ?thesis
    using assms(2,3,5) st_okD(1) [OF assms(1)] by (simp add: keeps_def st_ok_def only_volume_def del: not_None_eq)
qed

section \<open>Publishing\<close>

definition pub_step :: "NodePublishVolumeRequest \<Rightarrow> publishPC \<Rightarrow> 'e Manager \<times> 'e \<Rightarrow> bool" where
  "pub_step req pc s \<longleftrightarrow> (case publishStep ns req (pc, s) of (pc', s') \<Rightarrow>
     keeps (VolumeId req) (Target req) s s' \<and> pub_ok req pc' s')"

lemma pub_stepI:
  assumes "publishStep ns req (pc, s) = stepTo k (r, s')" "keeps (VolumeId req) (Target req) s s'"
    and "\<And>x. r = Inr x \<Longrightarrow> pub_ok req (k x) s'"
  shows "pub_step req pc s"
  using assms by (cases r) (auto simp: pub_step_def stepTo_def)

lemma pub_register:
  assumes s: "st_ok (m, e)" and req: "valid_id (VolumeId req)" "meta_ok (FromNodePublishVolumeRequest req)"
  shows "pub_step req AtRegister (m, e)"
proof (cases "mget (Context req) ephemeralKey = Some ''true'' \<and> Readonly req")
  case False
  then show ?thesis using keeps_refl [OF s] by (auto simp: pub_step_def)
next
  case True
  have id: "VolumeID (FromNodePublishVolumeRequest req) = VolumeId req" "VolumeContext (FromNodePublishVolumeRequest req) = Context req"
    by (simp_all add: FromNodePublishVolumeRequest_def)
  obtain r e1 where reg: "registerMetadata (FromNodePublishVolumeRequest req) e = (r, e1)" by fastforce
  obtain b meta where k: "r = Inr b" "ok e1" "mnts e1 = mnts e" "metas e1 = (metas e)(VolumeId req \<mapsto> meta)"
      "map_of (VolumeContext meta) = map_of (Context req)"
    using register_volume [OF st_okD(2) [OF s] _ req(2) reg] req(1) id by auto
  show ?thesis
  proof (rule pub_stepI)
    show "publishStep ns req (AtRegister, (m, e)) = stepTo (\<lambda>_. AtTable) (r, (m, e1))"
      using True reg by (simp add: store_ops on_env_def)
    show "keeps (VolumeId req) (Target req) (m, e) (m, e1)" using k by (intro keeps_store [OF s]) auto
    show "pub_ok req AtTable (m, e1)" using k by (simp add: stored_def)
  qed
qed

lemma reader_ok: "mgr_ok m \<Longrightarrow> metadataReader m = readerOf readMetadata listVolumes"
  by (simp add: mgr_ok_def)

lemma read_stored_step:
  assumes s: "st_ok (m, e)" and p: "stored req (m, e)"
  shows "\<exists>meta e1. metas e (VolumeId req) = Some meta \<and> map_of (VolumeContext meta) = map_of (Context req) \<and>
    readerReadMetadata (metadataReader m) (VolumeId req) e = (Inr meta, e1) \<and> ok e1 \<and> metas e1 = metas e \<and> mnts e1 = mnts e"
proof -
  obtain meta where meta: "metas e (VolumeId req) = Some meta" "map_of (VolumeContext meta) = map_of (Context req)"
    using p by (auto simp: stored_def)
  obtain r e1 where rd: "readMetadata (VolumeId req) e = (r, e1)" by fastforce
  from meta read_stored [OF st_okD(2) [OF s] meta(1) rd] rd reader_ok [OF st_okD(1) [OF s]] show ?thesis
    by (auto simp: readerOf_def)
qed

lemma pub_ready:
  assumes s: "st_ok (m, e)" and p: "stored req (m, e)" "managed m (VolumeId req)"
  shows "pub_step req AtReady (m, e)"
proof -
  obtain meta e1 where "readerReadMetadata (metadataReader m) (VolumeId req) e = (Inr meta, e1)" "ok e1" "metas e1 = metas e" "mnts e1 = mnts e"
    using read_stored_step [OF s p(1)] by blast
  then show ?thesis
    using p keeps_env [OF s, of e1 "Target req" "VolumeId req"] by (auto simp: pub_step_def with_mgr_def on_env_def stored_def)
qed

lemma pub_manage:
  assumes s: "st_ok (m, e)" and p: "stored req (m, e)"
  shows "pub_step req AtManage (m, e)"
proof -
  obtain r m1 where mg: "manageVolumeIfNotManaged (VolumeId req) m = (r, m1)" by fastforce
  note k = mgr_ok_manage [OF st_okD(1) [OF s] mg]
  have "metas e u \<noteq> None" if "managed m1 u" for u using that k p st_okD(3) [OF s, of u] by (auto simp: stored_def)
  then have "keeps (VolumeId req) (Target req) (m, e) (m1, e)"
    using k by (intro keeps_manager [OF s]) (auto simp del: not_None_eq)
  then show ?thesis
    using mg k p by (intro pub_stepI [where r = r and s' = "(m1, e)"]) (auto simp: on_mgr_def stored_def)
qed

lemma pub_read:
  assumes s: "st_ok (m, e)" and p: "stored req (m, e)" "managed m (VolumeId req)"
  shows "pub_step req AtRead (m, e)"
proof -
  obtain meta e1 where k: "metas e (VolumeId req) = Some meta" "map_of (VolumeContext meta) = map_of (Context req)"
      "readerReadMetadata (metadataReader m) (VolumeId req) e = (Inr meta, e1)" "ok e1" "metas e1 = metas e" "mnts e1 = mnts e"
    using read_stored_step [OF s p(1)] by blast
  show ?thesis
  proof (rule pub_stepI)
    show "publishStep ns req (AtRead, (m, e)) = stepTo AtGet (Inr meta, (m, e1))"
      using k(3) by (simp add: with_mgr_def on_env_def wrapping_run)
    show "keeps (VolumeId req) (Target req) (m, e) (m, e1)" using k by (intro keeps_env [OF s]) auto
    show "pub_ok req (AtGet x) (m, e1)" if "Inr meta = Inr x" for x using that k p(2) by (simp add: stored_as_def)
  qed
qed

lemma pub_get:
  assumes s: "st_ok (m, e)" and p: "stored_as req meta (m, e)"
  shows "pub_step req (AtGet meta) (m, e)"
proof -
  obtain r e1 where get: "getCertificates m meta e = (r, e1)" by fastforce
  have "fetch_ok (getCertificates m) (writeCertificates m)" using st_okD(1) [OF s] by (simp add: mgr_ok_def)
  then have k: "ok e1" "metas e1 = metas e" "mnts e1 = mnts e" using get st_okD(2) [OF s] unfolding fetch_ok_def by blast+
  show ?thesis
  proof (rule pub_stepI)
    show "publishStep ns req (AtGet meta, (m, e)) = stepTo (AtWrite meta) (r, (m, e1))" using get by (simp add: with_mgr_def on_env_def)
    show "keeps (VolumeId req) (Target req) (m, e) (m, e1)" using k by (intro keeps_env [OF s]) auto
    show "pub_ok req (AtWrite meta x) (m, e1)" if "r = Inr x" for x using that k p get by (auto simp: stored_as_def fetched_def)
  qed
qed

lemma pub_write:
  assumes s: "st_ok (m, e)" and p: "stored_as req meta (m, e)" "fetched (getCertificates m) meta fls"
  shows "pub_step req (AtWrite meta fls) (m, e)"
proof -
  obtain r e1 where wr: "writeCertificates m meta fls e = (r, e1)" by fastforce
  have "fetch_ok (getCertificates m) (writeCertificates m)" using st_okD(1) [OF s] by (simp add: mgr_ok_def)
  moreover have "metas e (VolumeId req) = Some meta" using p(1) by (simp add: stored_as_def)
  ultimately have k: "ok e1" "metas e1 = metas e" "mnts e1 = mnts e"
    using wr p(2) st_okD(2) [OF s] unfolding fetch_ok_def by blast+
  show ?thesis
  proof (rule pub_stepI)
    show "publishStep ns req (AtWrite meta fls, (m, e)) = stepTo (\<lambda>_. AtTarget) (r, (m, e1))" using wr by (simp add: with_mgr_def on_env_def)
    show "keeps (VolumeId req) (Target req) (m, e) (m, e1)" using k by (intro keeps_env [OF s]) auto
    show "pub_ok req AtTarget (m, e1)" using k p by (auto simp: stored_as_def stored_def)
  qed
qed

lemma pub_target:
  assumes s: "st_ok (m, e)" and p: "stored req (m, e)" "managed m (VolumeId req)"
  shows "pub_step req AtTarget (m, e)"
proof -
  obtain r e1 where en: "ensureMountTarget ns (Target req) e = (r, e1)" by fastforce
  note k = ensure_target [OF st_okD(2) [OF s] en]
  then have "keeps (VolumeId req) (Target req) (m, e) (m, e1)" by (intro keeps_env [OF s]) auto
  then show ?thesis
    using en k p by (intro pub_stepI [where r = r and s' = "(m, e1)"]) (auto simp: on_env_def stored_def served_def)
qed

lemma pub_mount:
  assumes s: "st_ok (m, e)" and p: "stored req (m, e)" "managed m (VolumeId req)"
  shows "pub_step req AtMount (m, e)"
proof -
  obtain r e1 where mo: "Mount (nsMounter ns) (sPathForVolume (store ns) (VolumeId req)) (Target req) [] [''bind'', ''ro''] e = (r, e1)" by fastforce
  note k = mount [OF st_okD(2) [OF s] mo]
  then have "keeps (VolumeId req) (Target req) (m, e) (m, e1)" by (intro keeps_env [OF s]) (auto split: sum.splits)
  then show ?thesis
    using mo k p by (intro pub_stepI [where r = r and s' = "(m, e1)"]) (auto simp: on_env_def stored_def served_def)
qed

lemma unmanage_step:
  assumes s: "st_ok (m, e)" and um: "UnmanageVolume v m = (r, m1)"
  shows "r = Inr () \<and> keeps v t (m, e) (m1, e) \<and> \<not> managed m1 v"
proof -
  note k = mgr_ok_unmanage [OF st_okD(1) [OF s] um]
  then have "keeps v t (m, e) (m1, e)"
    using st_okD(3) [OF s] by (intro keeps_manager [OF s]) (auto simp del: not_None_eq)
  with k show ?thesis by simp
qed

lemma unmount_step:
  assumes s: "st_ok (m, e)" and um: "Unmount (nsMounter ns) t e = (r, e1)"
  shows "keeps v t (m, e) (m, e1) \<and> (r = Inr () \<longrightarrow> t \<notin> mnts e1)"
  using unmount [OF st_okD(2) [OF s] um] keeps_env [OF s, of e1 t v] by (auto split: sum.splits)

lemma remove_step:
  assumes s: "st_ok (m, e)" and v: "valid_id v" "\<not> managed m v" and rm: "removeVolume v e = (r, e1)"
  shows "keeps v t (m, e) (m, e1) \<and> metas e1 v = None \<and> r = Inr () \<and> mnts e1 = mnts e"
proof -
  have k: "r = Inr ()" "ok e1" "metas e1 = (metas e)(v := None)" "mnts e1 = mnts e"
    using remove_volume [OF st_okD(2) [OF s] v(1)] rm store_mnts(3) [OF rm] by auto
  with v(2) show ?thesis using keeps_store [OF s, of e1 v None t] by simp
qed

lemma pub_cleanup:
  assumes s: "st_ok (m, e)" and req: "valid_id (VolumeId req)"
  shows "pub_step req (AtUnmanage err) (m, e)"
    and "\<not> managed m (VolumeId req) \<Longrightarrow> pub_step req (AtUnmount err) (m, e)"
    and "\<not> managed m (VolumeId req) \<Longrightarrow> pub_step req (AtRemove err) (m, e)"
proof -
  obtain r m1 where um: "UnmanageVolume (VolumeId req) m = (r, m1)" by fastforce
  then show "pub_step req (AtUnmanage err) (m, e)"
    using unmanage_step [OF s um, of "Target req"] by (simp add: pub_step_def on_mgr_def)
next
  assume un: "\<not> managed m (VolumeId req)"
  obtain r e1 where um: "Unmount (nsMounter ns) (Target req) e = (r, e1)" by fastforce
  then show "pub_step req (AtUnmount err) (m, e)"
    using unmount_step [OF s um, of "VolumeId req"] un by (simp add: pub_step_def on_env_def)
  obtain r e1 where rm: "removeVolume (VolumeId req) e = (r, e1)" by fastforce
  then show "pub_step req (AtRemove err) (m, e)"
    using remove_step [OF s req un rm, of "Target req"] un by (simp add: pub_step_def store_ops on_env_def)
qed

lemma publish_step_ok:
  assumes s: "st_ok s" "pub_ok req pc s" and req: "valid_id (VolumeId req)" "meta_ok (FromNodePublishVolumeRequest req)"
  shows "pub_step req pc s"
proof -
  obtain m e where se: "s = (m, e)" by fastforce
  note steps = pub_register [OF _ req] pub_ready pub_manage pub_read pub_get pub_write pub_target pub_mount pub_cleanup [OF _ req(1)]
  show ?thesis
  proof (cases pc)
    case AtTable
    then show ?thesis using s keeps_refl [OF s(1)] by (auto simp: pub_step_def)
  next
    case (Done r)
    then show ?thesis using s keeps_refl [OF s(1)] by (auto simp: pub_step_def)
  qed (use s steps [of m e] se in auto)
qed

section \<open>Unpublishing\<close>

lemma unpublish_step_ok:
  assumes s: "st_ok s" "unpub_ok req pc s" and req: "valid_id (unVolumeId req)"
  shows "case unpublishStep ns req (pc, s) of (pc', s') \<Rightarrow> keeps (unVolumeId req) (unTarget req) s s' \<and> unpub_ok req pc' s'"
proof -
  obtain m e where se: "s = (m, e)" by fastforce
  note s' = s(1) [unfolded se]
  show ?thesis
  proof (cases pc)
    case UnManage
    obtain r m1 where um: "UnmanageVolume (unVolumeId req) m = (r, m1)" by fastforce
    then show ?thesis using UnManage se unmanage_step [OF s' um, of "unTarget req"] by (simp add: on_mgr_def unStepTo_def)
  next
    case UnTarget
    obtain b err e1 where im: "IsMountPoint (nsMounter ns) (unTarget req) e = ((b, err), e1)" by (metis surj_pair)
    note k = is_mount [OF st_okD(2) [OF s'] im]
    then have "keeps (unVolumeId req) (unTarget req) (m, e) (m, e1)" by (intro keeps_env [OF s']) auto
    then show ?thesis
      using UnTarget se s(2) im k by (cases err) (auto simp: on_env_def isMountPointOrFail_def unStepTo_def)
  next
    case UnMount
    obtain r e1 where um: "Unmount (nsMounter ns) (unTarget req) e = (r, e1)" by fastforce
    then show ?thesis
      using UnMount se s(2) unmount_step [OF s' um, of "unVolumeId req"] by (cases r) (auto simp: on_env_def unStepTo_def)
  next
    case UnRemove
    obtain r e1 where rm: "removeVolume (unVolumeId req) e = (r, e1)" by fastforce
    then show ?thesis
      using UnRemove se s(2) remove_step [OF s' req _ rm, of "unTarget req"] by (auto simp: store_ops on_env_def unStepTo_def)
  next
    case (UnDone r)
    then show ?thesis using s keeps_refl [OF s(1)] by simp
  qed
qed

lemma step_ok:
  assumes "st_ok s" "call_ok c s" "request_ok valid_id (callRequest c)" "callStep ns (c, s) = (c', s')"
  shows "keeps (reqVolume (callRequest c)) (reqTarget (callRequest c)) s s' \<and> call_ok c' s'"
proof (cases c)
  case (PublishCall req pc)
  then show ?thesis using publish_step_ok [of s req pc] assms by (auto simp: pub_step_def)
next
  case (UnpublishCall req pc)
  then show ?thesis using unpublish_step_ok [of s req pc] assms by auto
qed

section \<open>Calls in progress\<close>

text \<open>The calls with numbers in \<open>L\<close> are for different volumes and different target paths, and each is in order.\<close>

definition calls_ok :: "nat set \<Rightarrow> call list \<Rightarrow> 'e Manager \<times> 'e \<Rightarrow> bool" where
  "calls_ok L cs s \<longleftrightarrow> st_ok s \<and>
     (\<forall>i \<in> L. i < length cs \<and> request_ok valid_id (callRequest (cs ! i)) \<and> call_ok (cs ! i) s) \<and>
     (\<forall>i \<in> L. \<forall>j \<in> L. i \<noteq> j \<longrightarrow> reqVolume (callRequest (cs ! i)) \<noteq> reqVolume (callRequest (cs ! j)) \<and>
        reqTarget (callRequest (cs ! i)) \<noteq> reqTarget (callRequest (cs ! j)))"

lemma call_step:
  assumes cs: "calls_ok L cs s" and i: "i \<in> L" and run: "callStep ns (cs ! i, s) = (c, s')"
  shows "calls_ok L (cs[i := c]) s' \<and> keeps (reqVolume (callRequest (cs ! i))) (reqTarget (callRequest (cs ! i))) s s'"
proof -
  have len: "i < length cs" using cs i by (simp add: calls_ok_def)
  have k: "keeps (reqVolume (callRequest (cs ! i))) (reqTarget (callRequest (cs ! i))) s s'" "call_ok c s'"
    using step_ok [OF _ _ _ run] cs i by (auto simp: calls_ok_def)
  have same: "callRequest (cs[i := c] ! j) = callRequest (cs ! j)" if "j \<in> L" for j
    using callRequest_step [of ns "cs ! i" s] run len cs that by (auto simp: calls_ok_def nth_list_update)
  have "call_ok (cs[i := c] ! j) s'" if j: "j \<in> L" for j
  proof (cases "j = i")
    case False
    then show ?thesis using call_ok_frame [OF _ k(1), of "cs ! j"] cs i j unfolding calls_ok_def by auto
  qed (use k len in simp)
  moreover have "st_ok s'" using k(1) by (simp add: keeps_def)
  ultimately show ?thesis using cs k(1) same unfolding calls_ok_def by simp
qed

lemma interleave_ok:
  assumes "calls_ok {..<length cs} cs s" "interleave ns is (cs, s) = (cs', s')"
  shows "calls_ok {..<length cs} cs' s' \<and> (\<forall>u. u \<notin> (reqVolume \<circ> callRequest) ` set cs \<longrightarrow>
    metas (snd s') u = metas (snd s) u \<and> (managed (fst s') u \<longleftrightarrow> managed (fst s) u))"
  using assms
proof (induction "is" arbitrary: cs s)
  case (Cons i "is")
  show ?case
  proof (cases "i < length cs")
    case True
    obtain c s1 where st: "callStep ns (cs ! i, s) = (c, s1)" by (meson surj_pair)
    let ?cs = "cs[i := c]"
    note k = call_step [OF Cons.prems(1) _ st] requests_update [OF True st]
    have rest: "interleave ns is (?cs, s1) = (cs', s')" using Cons.prems(2) True st by simp
    have same: "(reqVolume \<circ> callRequest) ` set ?cs = (reqVolume \<circ> callRequest) ` set cs"
      using k(2) by (metis list.map_comp set_map)
    have u: "metas (snd s1) u = metas (snd s) u \<and> (managed (fst s1) u \<longleftrightarrow> managed (fst s) u)"
      if "u \<notin> (reqVolume \<circ> callRequest) ` set cs" for u
    proof -
      have "u \<noteq> reqVolume (callRequest (cs ! i))" using that True by auto
      then show ?thesis using keepsD k(1) True by blast
    qed
    have "calls_ok {..<length ?cs} ?cs s1" using k(1) True by simp
    with Cons.IH [OF this rest] same u show ?thesis by (simp del: not_None_eq)
  qed (use Cons in auto)
qed simp

lemma start_calls_ok:
  assumes "st_ok s" "distinct (map reqVolume reqs)" "distinct (map reqTarget reqs)" "\<forall>q \<in> set reqs. request_ok valid_id q"
  shows "calls_ok {..<length (map startCall reqs)} (map startCall reqs) s"
  using assms nth_eq_iff_index_eq [OF assms(2)] nth_eq_iff_index_eq [OF assms(3)]
  by (auto simp: calls_ok_def call_ok_start)

end

section \<open>The driver on the filesystem backend\<close>

text \<open>What a call that has returned the result \<open>r\<close> has done.\<close>

fun fsOutcome :: "Filesystem \<Rightarrow> ('h \<Rightarrow> string set) \<Rightarrow> nodeRequest \<Rightarrow> goerr + unit \<Rightarrow> (world \<times> 'h) Manager \<times> world \<times> 'h \<Rightarrow> bool" where
  "fsOutcome f mnts (Publish req) r (m, w, h) \<longleftrightarrow>
     (case r of
        Inr _ \<Rightarrow> managed m (VolumeId req) \<and> Target req \<in> mnts h \<and>
          (\<exists>meta. fsMetas f w (VolumeId req) = Some meta \<and> map_of (VolumeContext meta) = map_of (Context req))
      | Inl _ \<Rightarrow> \<not> managed m (VolumeId req) \<and> fsMetas f w (VolumeId req) = None)"
| "fsOutcome f mnts (Unpublish req) r (m, w, h) \<longleftrightarrow> \<not> managed m (unVolumeId req) \<and>
     (r = Inr () \<longrightarrow> fsMetas f w (unVolumeId req) = None \<and> unTarget req \<notin> mnts h)"

lemma call_ok_outcome:
  assumes ne: "node_env (fs_ok f \<circ> fst) (fsMetas f \<circ> fst) val rd ls reg rm (mnts \<circ> snd) ns"
    and "node_env.call_ok (fsMetas f \<circ> fst) (mnts \<circ> snd) c s" "callResult c = Some r"
  shows "fsOutcome f mnts (callRequest c) r s"
proof -
  obtain m w h where s: "s = (m, w, h)" by (cases s) auto
  from assms(3) show ?thesis
    by (rule callResult_SomeE)
       (use assms(2) in \<open>auto simp: s node_env.call_ok.simps [OF ne] node_env.pub_ok.simps [OF ne] node_env.unpub_ok.simps [OF ne]
          node_env.served_def [OF ne] split: sum.splits\<close>)
qed

text \<open>
  C6. Calls for different volumes and different target paths do not disturb each other, whatever the number of publish and
  unpublish calls and however their steps interleave. In every state of every schedule the store is in order and every managed
  volume is stored. A publish call that has returned without error has its volume managed, stored with the volume
  context of the request, and mounted; one that has returned an error has left nothing. An unpublish call that has returned has
  its volume unmanaged and, without error, removed and unmounted. Volumes of no call are unchanged.
\<close>

theorem concurrent_calls_independent:
  assumes "deepEqual_ok deepEqual" "host_ok mnts mt mkdirAll" "rehash_ok rehash" "source_ok mnts get"
    and "driver_ok rehash f get (m, w, h)" "distinct (map reqVolume reqs)" "distinct (map reqTarget reqs)"
    and "\<forall>q \<in> set reqs. request_ok pname q"
    and "interleave (nodeOn (fsStorage deepEqual f) mt mkdirAll nid) sched (map startCall reqs, (m, w, h)) = (cs, (m', w', h'))"
  shows "fs_ok f w' \<and> (\<forall>v. managed m' v \<longrightarrow> fsMetas f w' v \<noteq> None) \<and>
    (\<forall>u. u \<notin> reqVolume ` set reqs \<longrightarrow> fsMetas f w' u = fsMetas f w u \<and> (managed m' u \<longleftrightarrow> managed m u)) \<and>
    (\<forall>i < length reqs. \<forall>r. callResult (cs ! i) = Some r \<longrightarrow> fsOutcome f mnts (reqs ! i) r (m', w', h'))"
proof -
  note ne = fs_node [OF assms(1,2), of f]
  let ?cs = "map startCall reqs"
  note start = node_env.start_calls_ok [OF ne driver_st_ok [OF assms(1-5)] assms(6-8)]
  note k = node_env.interleave_ok [OF ne start assms(9)]
  have st: "fs_ok f w'" "\<forall>v. managed m' v \<longrightarrow> fsMetas f w' v \<noteq> None"
    using k unfolding node_env.calls_ok_def [OF ne] node_env.st_ok_def [OF ne] by (auto simp del: not_None_eq)
  have reqs: "map callRequest cs = reqs"
    using interleave_requests [where cs = ?cs] assms(9) by (metis (no_types, lifting) callRequest_start fst_conv map_idI map_map o_apply)
  have "fsOutcome f mnts (reqs ! i) r (m', w', h')" if "i < length reqs" "callResult (cs ! i) = Some r" for i r
  proof -
    have "callRequest (cs ! i) = reqs ! i" using reqs that(1) by (metis length_map nth_map)
    then show ?thesis
      using call_ok_outcome [OF ne _ that(2), of "(m', w', h')"] k that(1) unfolding node_env.calls_ok_def [OF ne] by simp
  qed
  moreover have "(reqVolume \<circ> callRequest) ` set ?cs = reqVolume ` set reqs" by (force simp: image_iff)
  then have "\<forall>u. u \<notin> reqVolume ` set reqs \<longrightarrow> fsMetas f w' u = fsMetas f w u \<and> (managed m' u \<longleftrightarrow> managed m u)"
    using k by simp
  ultimately show ?thesis using st by blast
qed

definition otherRequest :: NodePublishVolumeRequest where
  "otherRequest = \<lparr>VolumeId = ''v2'', Target = ''/u'', Context = [(ephemeralKey, ''true'')], Readonly = True\<rparr>"

lemma meta_ok_other: "meta_ok (FromNodePublishVolumeRequest otherRequest)"
  by code_simp

theorem concurrent_calls_independent_witness:
  "\<exists>cs m' w' h'. interleave sampleNode [0, 1, 1, 0, 0, 1]
      (map startCall [Unpublish \<lparr>unVolumeId = ''v1'', unTarget = ''/t''\<rparr>, Publish otherRequest], sampleState) = (cs, (m', w', h')) \<and>
    fs_ok sampleFSB w' \<and> (\<forall>v. managed m' v \<longrightarrow> fsMetas sampleFSB w' v \<noteq> None)"
proof -
  let ?reqs = "[Unpublish \<lparr>unVolumeId = ''v1'', unTarget = ''/t''\<rparr>, Publish otherRequest]"
  obtain cs m' w' h' where run: "interleave sampleNode [0, 1, 1, 0, 0, 1] (map startCall ?reqs, sampleState) = (cs, (m', w', h'))"
    by (metis surj_pair)
  have "distinct (map reqVolume ?reqs)" "distinct (map reqTarget ?reqs)" by (simp_all add: otherRequest_def)
  moreover have "\<forall>q \<in> set ?reqs. request_ok pname q"
    using meta_ok_other by (simp add: otherRequest_def [THEN arg_cong [where f = VolumeId]] pname_def)
  ultimately have "fs_ok sampleFSB w'" "\<forall>v. managed m' v \<longrightarrow> fsMetas sampleFSB w' v \<noteq> None"
    using concurrent_calls_independent [OF sample_driver _ _ _ run] by blast+
  with run show ?thesis by blast
qed

end
