(* ===== verification/Storage_Orphan.thy ===== *)
theory Storage_Orphan
  imports Storage_Write_Facts Manager_Facts
begin

text \<open>
  Writing the files of a volume that is not stored any more. \<open>WriteFiles\<close> makes the directories of the volume again
  but not its metadata; \<open>ListVolumes\<close> fails on a directory without metadata, and a manager cannot be built on the store then.
\<close>

section \<open>A volume directory without metadata\<close>

definition orphan :: "Filesystem \<Rightarrow> string \<Rightarrow> fs \<Rightarrow> bool" where
  "orphan f v h \<longleftrightarrow> isdir h (troot f) \<and> isdir h (troot f @ [v]) \<and> map_of h (troot f @ [v, ''metadata.json'']) = None \<and>
     aw_inv (dataDir f v) h"

lemma orphan_wf: "orphan f v h \<Longrightarrow> wf_fs h"
  by (simp add: orphan_def aw_inv_def)

lemma orphan_owner: "orphan f v h \<Longrightarrow> upto_owner h h' \<Longrightarrow> orphan f v h'"
  using aw_inv_owner [of h h' "dataDir f v"] upto_owner_isdir [of h h'] upto_owner_None [of h h'] orphan_wf [of f v h]
  by (auto simp: orphan_def)

lemma orphan_inside:
  assumes "orphan f v h" "framed h (inside (dataDir f v)) h'" "aw_inv (dataDir f v) h'"
  shows "orphan f v h'"
proof -
  have "map_of h' (troot f) = map_of h (troot f)" "map_of h' (troot f @ [v]) = map_of h (troot f @ [v])"
    "map_of h' (troot f @ [v, ''metadata.json'']) = map_of h (troot f @ [v, ''metadata.json''])"
    by (rule framed_at [OF assms(2)], simp add: inside_def)+
  with assms(1,3) show ?thesis by (simp add: orphan_def isdir_def)
qed

lemma hoare_chown_orphan:
  "hoare (on_fs w0 (orphan f v)) (osChown p u g) (\<lambda>_. on_fs w0 (orphan f v)) (\<lambda>_. on_fs w0 (orphan f v))"
proof (rule hoare_fix)
  fix h assume h: "orphan f v h"
  then show "hoare (on_fs w0 (\<lambda>g. g = h)) (osChown p u g) (\<lambda>_. on_fs w0 (orphan f v)) (\<lambda>_. on_fs w0 (orphan f v))"
    by (intro hoare_weaken [OF hoare_osChown [OF orphan_wf [OF h], of w0]]) (use h orphan_owner upto_owner_refl [OF orphan_wf [OF h]] in \<open>auto simp: on_fs_def\<close>)
qed

lemma hoare_ensure_orphan:
  assumes f: "base_ok f" "pname v" and w0: "faultfree w0" and g: "tree_ok f g" "volumeMeta f g v = None"
  shows "hoare (exactly w0 g) (ensureVolumeDirectory f v) (\<lambda>_. on_fs w0 (orphan f v)) (\<lambda>_ _. False)"
proof (rule hoare_weaken)
  have wf: "wf_fs g" "isdir g (troot f)" using g by (auto simp: tree_ok_def)
  have no: "map_of g (troot f @ [v]) = None" using volumeMeta_dom [OF g(1)] g(2) by auto
  have below: "map_of g (troot f @ [v, n]) = None" for n
    using leaf_of_nondir [OF wf(1), of "troot f @ [v]" n] no by (simp add: isdir_def)
  show "hoare (exactly w0 g) (ensureVolumeDirectory f v)
    (\<lambda>_. on_fs w0 (\<lambda>g'. wf_fs g' \<and> isdir g' (troot f @ [v]) \<and> isdir g' (dataDir f v) \<and>
       only_changes {troot f @ [v], dataDir f v} g g')) (\<lambda>_ _. False)"
    by (rule hoare_ensureVolumeDirectory [OF w0 f wf]) (use no below in auto)
  have "orphan f v h" if h: "wf_fs h" "isdir h (troot f @ [v])" "isdir h (dataDir f v)" "only_changes {troot f @ [v], dataDir f v} g h" for h
  proof -
    have at: "map_of h (troot f) = map_of g (troot f)" "map_of h (troot f @ [v, ''metadata.json'']) = map_of g (troot f @ [v, ''metadata.json''])"
      by (rule only_changes_at [OF h(4)], simp)+
    have "aw_inv (dataDir f v) h"
      by (rule data_ok_ensured [OF wf(1) _ h(1,3)]) (use below only_changes_at [OF h(4)] in \<open>auto simp: data_ok_def\<close>)
    with at h wf below show ?thesis by (simp add: orphan_def isdir_def)
  qed
  then show "on_fs w0 (orphan f v) w"
    if "on_fs w0 (\<lambda>g'. wf_fs g' \<and> isdir g' (troot f @ [v]) \<and> isdir g' (dataDir f v) \<and>
       only_changes {troot f @ [v], dataDir f v} g g') w" for w
    using that by (auto simp: on_fs_def)
qed auto

text \<open>Whatever the outcome, \<open>WriteFiles\<close> leaves a directory without metadata.\<close>

lemma WriteFiles_orphan:
  fixes meta :: Metadata
  assumes w: "fs_ok f w" "rehash_ok rehash" "fsMetas f w (VolumeID meta) = None" "pname (VolumeID meta)"
    and safe: "\<forall>k \<in> set (mkeys fls). safe_key k" and run: "WriteFiles rehash f meta fls w = (r, w')"
  shows "on_fs w (orphan f (VolumeID meta)) w'"
proof -
  let ?v = "VolumeID meta" and ?O = "on_fs w (orphan f (VolumeID meta))"
  have f: "base_ok f" "faultfree w" "world_ok w" "goos w \<noteq> ''windows''" "tree_ok f (wfs w)"
    using w(1) by (auto simp: fs_ok_def)
  have path: "pcomps (dataPathForVolumeID f ?v) = dataDir f ?v" "nodots (dataPathForVolumeID f ?v)" "dataPathForVolumeID f ?v \<noteq> []"
    using volume_files [OF f(1) w(4), of "''data''"] canon_nodots canon_not_Nil by (auto simp: dataPathForVolumeID_def)
  have wr: "hoare ?O (Write aw (makePayload fls) (DirFuncsForVolume rehash)) (\<lambda>_. ?O) (\<lambda>_. ?O)"
    if "targetDir aw = dataPathForVolumeID f ?v" for aw
  proof (rule hoare_fix)
    fix h assume h: "orphan f ?v h"
    then have inv: "aw_inv (dataDir f ?v) h" by (simp add: orphan_def)
    show "hoare (on_fs w (\<lambda>g. g = h)) (Write aw (makePayload fls) (DirFuncsForVolume rehash)) (\<lambda>_. ?O) (\<lambda>_. ?O)"
      by (rule hoare_weaken [OF hoare_Write [OF path(2) that path(1,3) f(3,4) inv _ dirFuncs_ok [OF w(2)]]])
         (use safe orphan_inside [OF h] in \<open>auto simp: on_fs_def succeeded_def outcome_def\<close>)
  qed
  have h: "hoare (exactly w (wfs w)) (WriteFiles rehash f meta fls) (\<lambda>_. ?O) (\<lambda>_. ?O)"
  proof (rule hoare_WriteFiles_rule [OF f(3) refl])
    show "hoare (exactly w (wfs w)) (ensureVolumeDirectory f ?v) (\<lambda>_. ?O) (\<lambda>_. ?O)"
      by (rule hoare_weaken [OF hoare_ensure_orphan [OF f(1) w(4) f(2,5)]]) (use w(3) in \<open>auto simp: fsMetas_def\<close>)
  qed (use hoare_chown_orphan wr in auto)
  from run show ?thesis
    using hoareD_ok [OF h, of w] hoareD_err [OF h, of w] by (cases r) (auto simp: on_fs_start)
qed

section \<open>Starting on such a store\<close>

lemma hoare_for_acc_fails:
  assumes "x \<in> set xs" "\<And>y a. y \<in> set xs \<Longrightarrow> hoare P (g y a) (\<lambda>_. P) E" "\<And>a. hoare P (g x a) (\<lambda>_ _. False) E"
  shows "hoare P (for_acc g xs a) (\<lambda>_ _. False) E"
  using assms(1,2)
proof (induction xs arbitrary: a)
  case (Cons y ys)
  show ?case
  proof (cases "x = y")
    case True
    have "hoare P (andThen (g x a) (for_acc g ys)) (\<lambda>_ _. False) E"
      by (rule hoare_andThen [OF assms(3)]) (simp add: hoare_def)
    with True show ?thesis by simp
  next
    case False
    then have "hoare P (for_acc g ys b) (\<lambda>_ _. False) E" for b using Cons by auto
    then have "hoare P (andThen (g y a) (for_acc g ys)) (\<lambda>_ _. False) E"
      by (intro hoare_andThen [OF Cons.prems(2)]) auto
    then show ?thesis by simp
  qed
qed simp

lemma ListVolumes_orphan:
  assumes f: "base_ok f" "pname v" and o: "orphan f v (wfs w)" and run: "ListVolumes f w = (r, w')"
  shows "\<exists>err. r = Inl err"
proof -
  let ?g = "wfs w" and ?I = "on_fs w (\<lambda>g. g = wfs w)"
  have wf: "wf_fs ?g" and T: "isdir ?g (troot f)" using o orphan_wf by (auto simp: orphan_def)
  obtain a where a: "map_of ?g (troot f) = Some (Dir a)" using T by (auto simp: isdir_def)
  have tp: "canon (tempfsPath f)" "\<not> isAbs (tempfsPath f)" "pcomps (tempfsPath f) = troot f" by (rule tempfsPath_facts [OF f(1)])+
  have res: "resolve ?g True (sep # tempfsPath f) = Inr (troot f)"
    by (rule resolve_existing [OF wf a]) (use a tp in \<open>auto simp: pcomps_sep_Cons islink_def\<close>)
  have rd: "hoare ?I (wrapping ''listing volumes'' (dirfsReadDir (tempfsPath f))) (\<lambda>ds w'. ?I w' \<and> ds = children ?g (troot f)) (\<lambda>_. ?I)"
  proof (rule hoare_wrapping)
    have "hoare ?I (pathcall True (sep # tempfsPath f) k_readdir)
        (\<lambda>ds. on_fs w (\<lambda>g. g = wfs w \<and> ds = children ?g (troot f))) (\<lambda>_. ?I)"
      by (rule hoare_pathcall) (use res a in \<open>auto simp: k_readdir_def\<close>)
    then show "hoare ?I (dirfsReadDir (tempfsPath f)) (\<lambda>ds w'. ?I w' \<and> ds = children ?g (troot f)) (\<lambda>_. ?I)"
      using canon_rel_valid [OF tp(1,2)] by (simp add: dirfsReadDir_def osReadDir_def, elim hoare_weaken) (auto simp: on_fs_def)
  qed
  have p: "canon (metadataPathForVolumeID f v)" "\<not> isAbs (metadataPathForVolumeID f v)"
      "pcomps (metadataPathForVolumeID f v) = troot f @ [v, ''metadata.json'']"
    using volume_files [OF f, of "''metadata.json''"] by (auto simp: metadataPathForVolumeID_def)
  have v: "v \<in> set (children ?g (troot f))" using o by (auto simp: set_children orphan_def isdir_def)
  let ?body = "\<lambda>dir vols. andThen (dirfsOpen (metadataPathForVolumeID f dir)) (\<lambda>_. ret (vols @ [dir]))"
  have any: "hoare ?I (?body d vols) (\<lambda>_. ?I) (\<lambda>_. ?I)" for d vols
    by (rule hoare_andThen [where R = "\<lambda>_. ?I"]) (use stays_dirfsReads(2) in \<open>auto simp: stays_def hoare_def [of _ "ret _"] ret_def\<close>)
  have miss: "hoare ?I (?body v vols) (\<lambda>_ _. False) (\<lambda>_. ?I)" for vols
  proof -
    have "resolve ?g True (sep # metadataPathForVolumeID f v) = Inr (troot f @ [v, ''metadata.json''])"
      using resolve_child [OF wf, of "troot f @ [v]" "sep # metadataPathForVolumeID f v" "''metadata.json''" True] o p
      by (simp add: orphan_def islink_def pcomps_sep_Cons)
    then have "hoare ?I (osStat (sep # metadataPathForVolumeID f v)) (\<lambda>_. on_fs w (\<lambda>_. False)) (\<lambda>_. ?I)"
      unfolding osStat_def by (intro hoare_pathcall) (use o in \<open>auto simp: k_lstat_def orphan_def\<close>)
    then have "hoare ?I (dirfsOpen (metadataPathForVolumeID f v)) (\<lambda>_. on_fs w (\<lambda>_. False)) (\<lambda>_. ?I)"
      using canon_rel_valid [OF p(1,2)] by (simp add: dirfsOpen_def)
    then show ?thesis by (rule hoare_andThen) (simp add: hoare_def on_fs_def)
  qed
  have h: "hoare ?I (ListVolumes f) (\<lambda>_ _. False) (\<lambda>_. ?I)"
    unfolding ListVolumes_def
    by (rule hoare_andThen [OF rd], rule hoare_assume, hypsubst)
       (rule hoare_for_acc_fails [where g = ?body, OF v], rule any, rule miss)
  from run show ?thesis using hoareD_ok [OF h, of w] by (cases r) (auto simp: on_fs_start)
qed

text \<open>A manager that is built on the store then is refused, and the driver does not start.\<close>

lemma NewManager_fails:
  assumes "optMetadataReader opts = Some rd" "\<And>r e'. readerListVolumes rd e = (r, e') \<Longrightarrow> \<exists>err. r = Inl err"
  shows "\<exists>err e'. NewManager enc opts e = (Inl err, e')"
proof -
  obtain err e' where "readerListVolumes rd e = (Inl err, e')" using assms(2) by (metis surj_pair)
  then show ?thesis
    using assms(1) by (auto simp: NewManager_def throw_def andThen_def wrapping_def attempt_def split: option.splits)
qed

lemma NewManagerOrDie_panics:
  "NewManager enc opts e = (Inl err, e') \<Longrightarrow> NewManagerOrDie enc opts e = (Inl (Panic ''failed to start manager''), e')"
  by (simp add: NewManagerOrDie_def attempt_def throw_def)

end
