(* ===== verification/Driver_Races.thy ===== *)
theory Driver_Races
  imports Driver_Interleaving Storage_Orphan
begin

text \<open>
  Calls for the same volume at the same time. Two schedules are followed to their ends: a second publish call while the first
  waits for certificates that it will not get, and an unpublish call while a publish call waits for its certificates.
\<close>

section \<open>Runs of steps\<close>

lemma funpow_numerals: "(f ^^ 2) x = f (f x)" "(f ^^ 3) x = f (f (f x))" "(f ^^ 4) x = f (f (f (f x)))"
  by (simp_all add: numeral_eq_Suc)

lemma interleave_run:
  assumes "i < length cs"
  shows "interleave ns (replicate n i @ is) (cs, s) =
    (case (callStep ns ^^ n) (cs ! i, s) of (c, s') \<Rightarrow> interleave ns is (cs[i := c], s'))"
  using assms
proof (induction n arbitrary: cs s)
  case (Suc n)
  obtain c s1 where st: "callStep ns (cs ! i, s) = (c, s1)" by (meson surj_pair)
  have "(callStep ns ^^ Suc n) (cs ! i, s) = (callStep ns ^^ n) (c, s1)" by (simp add: funpow_swap1 st)
  with Suc.IH [of "cs[i := c]" s1] Suc.prems st show ?case by simp
qed simp

lemma publish_run: "(callStep ns ^^ n) (PublishCall req pc, s) = map_prod (PublishCall req) id ((publishStep ns req ^^ n) (pc, s))"
  by (induction n) (auto simp: map_prod_def split: prod.splits)

lemma unpublish_run: "(callStep ns ^^ n) (UnpublishCall req pc, s) = map_prod (UnpublishCall req) id ((unpublishStep ns req ^^ n) (pc, s))"
  by (induction n) (auto simp: map_prod_def split: prod.splits)

context node_env
begin

definition accepted :: "NodePublishVolumeRequest \<Rightarrow> bool" where
  "accepted req \<longleftrightarrow> mget (Context req) ephemeralKey = Some ''true'' \<and> Readonly req \<and>
     valid_id (VolumeId req) \<and> meta_ok (FromNodePublishVolumeRequest req)"

lemma keeps_trans: "keeps v t s s' \<Longrightarrow> keeps v t s' s'' \<Longrightarrow> keeps v t s s''"
  unfolding keeps_def only_volume_def by (elim conjE, intro conjI allI impI) (simp_all del: not_None_eq)

lemma keeps_st: "keeps v t s s' \<Longrightarrow> st_ok s'"
  by (simp add: keeps_def)

lemma pub_stepD: "pub_step req pc s \<Longrightarrow> publishStep ns req (pc, s) = (pc', s') \<Longrightarrow>
    keeps (VolumeId req) (Target req) s s' \<and> pub_ok req pc' s'"
  by (simp add: pub_step_def)

lemma register_step:
  assumes "st_ok (m, e)" "accepted req"
  shows "\<exists>e'. publishStep ns req (AtRegister, (m, e)) = (AtTable, (m, e')) \<and> keeps (VolumeId req) (Target req) (m, e) (m, e') \<and> stored req (m, e')"
proof -
  obtain r e1 where reg: "registerMetadata (FromNodePublishVolumeRequest req) e = (r, e1)" by fastforce
  then obtain b where "r = Inr b"
    using register_meta [OF st_okD(2) [OF assms(1)], of "FromNodePublishVolumeRequest req"] assms(2)
    by (auto simp: accepted_def FromNodePublishVolumeRequest_def)
  then have st: "publishStep ns req (AtRegister, (m, e)) = (AtTable, (m, e1))"
    using reg assms(2) by (simp add: accepted_def store_ops on_env_def stepTo_def)
  with pub_stepD [OF pub_register [OF assms(1)] st] assms(2) show ?thesis by (auto simp: accepted_def)
qed

text \<open>A publish call of a new volume, up to where it waits for the certificates.\<close>

lemma start_fetch:
  assumes s: "st_ok (m, e)" and new: "\<not> managed m (VolumeId req)" and acc: "accepted req"
  shows "\<exists>meta m1 e1. (publishStep ns req ^^ 4) (AtRegister, (m, e)) = (AtGet meta, (m1, e1)) \<and>
    keeps (VolumeId req) (Target req) (m, e) (m1, e1) \<and> stored_as req meta (m1, e1)"
proof -
  obtain e1 where e1: "publishStep ns req (AtRegister, (m, e)) = (AtTable, (m, e1))" "keeps (VolumeId req) (Target req) (m, e) (m, e1)"
      "stored req (m, e1)" using register_step [OF s acc] by blast
  have r2: "publishStep ns req (AtTable, (m, e1)) = (AtManage, (m, e1))" using new by simp
  obtain r m1 where mg: "manageVolumeIfNotManaged (VolumeId req) m = (r, m1)" by fastforce
  have r3: "publishStep ns req (AtManage, (m, e1)) = (AtRead, (m1, e1))"
    using mg mgr_ok_manage [OF st_okD(1) [OF s] mg] new by (simp add: on_mgr_def stepTo_def)
  note k3 = pub_stepD [OF pub_manage [OF keeps_st [OF e1(2)] e1(3)] r3]
  then have s3: "st_ok (m1, e1)" "stored req (m1, e1)" "managed m1 (VolumeId req)" by (auto simp: keeps_def)
  obtain meta e2 where "readerReadMetadata (metadataReader m1) (VolumeId req) e1 = (Inr meta, e2)"
    using read_stored_step [OF s3(1,2)] by blast
  then have r4: "publishStep ns req (AtRead, (m1, e1)) = (AtGet meta, (m1, e2))"
    by (simp add: with_mgr_def on_env_def wrapping_run stepTo_def)
  note k4 = pub_stepD [OF pub_read [OF s3] r4]
  have "(publishStep ns req ^^ 4) (AtRegister, (m, e)) = (AtGet meta, (m1, e2))"
    unfolding funpow_numerals e1(1) r2 r3 r4 by (rule refl)
  moreover have "keeps (VolumeId req) (Target req) (m, e) (m1, e2)" using keeps_trans e1(2) k3 k4 by blast
  ultimately show ?thesis using k4 by auto
qed

text \<open>A publish call of a managed volume, up to where it looks at its target.\<close>

lemma find_ready:
  assumes s: "st_ok (m, e)" and old: "managed m (VolumeId req)" and acc: "accepted req"
  shows "\<exists>e1. (publishStep ns req ^^ 3) (AtRegister, (m, e)) = (AtTarget, (m, e1)) \<and> keeps (VolumeId req) (Target req) (m, e) (m, e1)"
proof -
  obtain e1 where e1: "publishStep ns req (AtRegister, (m, e)) = (AtTable, (m, e1))" "keeps (VolumeId req) (Target req) (m, e) (m, e1)"
      "stored req (m, e1)" using register_step [OF s acc] by blast
  have r2: "publishStep ns req (AtTable, (m, e1)) = (AtReady, (m, e1))" using old by simp
  obtain meta e2 where "readerReadMetadata (metadataReader m) (VolumeId req) e1 = (Inr meta, e2)"
    using read_stored_step [OF keeps_st [OF e1(2)] e1(3)] by blast
  then have r3: "publishStep ns req (AtReady, (m, e1)) = (AtTarget, (m, e2))" by (simp add: with_mgr_def on_env_def)
  note k3 = pub_stepD [OF pub_ready [OF keeps_st [OF e1(2)] e1(3) old] r3]
  have "(publishStep ns req ^^ 3) (AtRegister, (m, e)) = (AtTarget, (m, e2))" unfolding funpow_numerals e1(1) r2 r3 by (rule refl)
  then show ?thesis using keeps_trans e1(2) k3 by blast
qed

text \<open>The cleanup of a call, to its end.\<close>

lemma cleanup_run:
  assumes s: "st_ok (m, e)" and v: "valid_id (VolumeId req)"
  shows "\<exists>m1 e1. (publishStep ns req ^^ 3) (AtUnmanage err, (m, e)) = (Done (Inl err), (m1, e1)) \<and>
    keeps (VolumeId req) (Target req) (m, e) (m1, e1) \<and> \<not> managed m1 (VolumeId req) \<and> metas e1 (VolumeId req) = None"
proof -
  obtain r m1 where um: "UnmanageVolume (VolumeId req) m = (r, m1)" by fastforce
  note k1 = unmanage_step [OF s um, of "Target req"]
  have r1: "publishStep ns req (AtUnmanage err, (m, e)) = (AtUnmount err, (m1, e))" using um k1 by (simp add: on_mgr_def)
  have s1: "st_ok (m1, e)" "\<not> managed m1 (VolumeId req)" using k1 by (auto simp: keeps_def)
  obtain e1 where r2: "publishStep ns req (AtUnmount err, (m1, e)) = (AtRemove err, (m1, e1))"
    by (cases "Unmount (nsMounter ns) (Target req) e") (simp add: on_env_def)
  note k2 = pub_stepD [OF pub_cleanup(2) [OF s1(1) v s1(2)] r2]
  obtain e2 where r3: "publishStep ns req (AtRemove err, (m1, e1)) = (Done (Inl err), (m1, e2))"
    by (cases "sRemoveVolume (store ns) (VolumeId req) e1") (simp add: on_env_def)
  have "st_ok (m1, e1)" using k2 keeps_st by blast
  note k3 = pub_stepD [OF pub_cleanup(3) [OF this v s1(2)] r3]
  have "(publishStep ns req ^^ 3) (AtUnmanage err, (m, e)) = (Done (Inl err), (m1, e2))" unfolding funpow_numerals r1 r2 r3 by (rule refl)
  moreover have "keeps (VolumeId req) (Target req) (m, e) (m1, e2)" using keeps_trans k1 k2 k3 by blast
  ultimately show ?thesis using k3 by auto
qed

lemma failing_fetch:
  assumes s: "st_ok (m, e)" and v: "valid_id (VolumeId req)" and get: "\<And>meta e. getCertificates m meta e = (Inl err, e)"
  shows "\<exists>m1 e1. (publishStep ns req ^^ 4) (AtGet meta, (m, e)) = (Done (Inl err), (m1, e1)) \<and>
    keeps (VolumeId req) (Target req) (m, e) (m1, e1) \<and> \<not> managed m1 (VolumeId req) \<and> metas e1 (VolumeId req) = None"
proof -
  have r1: "publishStep ns req (AtGet meta, (m, e)) = (AtUnmanage err, (m, e))"
    using get by (simp add: with_mgr_def on_env_def stepTo_def)
  have "(publishStep ns req ^^ 4) (AtGet meta, (m, e)) = (publishStep ns req ^^ 3) (AtUnmanage err, (m, e))"
    unfolding funpow_numerals r1 by (rule refl)
  then show ?thesis using cleanup_run [OF s v] by simp
qed

text \<open>An unpublish call, to its end.\<close>

lemma unpublish_run_ok:
  assumes s: "st_ok s" "unpub_ok req pc s" and v: "valid_id (unVolumeId req)"
  shows "keeps (unVolumeId req) (unTarget req) s (snd ((unpublishStep ns req ^^ n) (pc, s))) \<and>
    unpub_ok req (fst ((unpublishStep ns req ^^ n) (pc, s))) (snd ((unpublishStep ns req ^^ n) (pc, s)))"
proof (induction n)
  case (Suc n)
  obtain pc1 s1 where run: "(unpublishStep ns req ^^ n) (pc, s) = (pc1, s1)" by (meson surj_pair)
  then have k: "keeps (unVolumeId req) (unTarget req) s s1" "unpub_ok req pc1 s1" using Suc.IH by simp_all
  from unpublish_step_ok [OF keeps_st [OF k(1)] k(2) v] show ?case
    using run keeps_trans [OF k(1)] by (auto split: prod.splits)
qed (use s keeps_refl in simp)

text \<open>The schedule of the race: the second call runs between the first call's entry in the table and its failure.\<close>

lemma race:
  assumes s: "st_ok (m, e)" and new: "\<not> managed m (VolumeId req0)" and acc: "accepted req0" "accepted req1" and v: "VolumeId req1 = VolumeId req0"
    and get: "\<And>meta e. getCertificates m meta e = (Inl err, e)"
    and mnt: "\<And>m e. \<exists>e'. (publishStep ns req1 ^^ 2) (AtTarget, (m, e)) = (Done (Inr ()), (m, e')) \<and> metas e' = metas e \<and> Target req1 \<in> mnts e'"
  shows "\<exists>m' e'. interleave ns (replicate 4 0 @ replicate 3 1 @ replicate 4 0 @ replicate 2 1)
      (map startCall [Publish req0, Publish req1], (m, e)) =
      ([PublishCall req0 (Done (Inl err)), PublishCall req1 (Done (Inr ()))], (m', e')) \<and>
    \<not> managed m' (VolumeId req0) \<and> metas e' (VolumeId req0) = None \<and> Target req1 \<in> mnts e'"
proof -
  obtain meta m1 e1 where p1: "(publishStep ns req0 ^^ 4) (AtRegister, (m, e)) = (AtGet meta, (m1, e1))"
      "keeps (VolumeId req0) (Target req0) (m, e) (m1, e1)" "stored_as req0 meta (m1, e1)"
    using start_fetch [OF s new acc(1)] by blast
  have "managed m1 (VolumeId req1)" using p1(3) v by (simp add: stored_as_def)
  then obtain e2 where p2: "(publishStep ns req1 ^^ 3) (AtRegister, (m1, e1)) = (AtTarget, (m1, e2))"
      "keeps (VolumeId req1) (Target req1) (m1, e1) (m1, e2)"
    using find_ready [OF keeps_st [OF p1(2)] _ acc(2)] by blast
  have "getCertificates m1 meta e = (Inl err, e)" for meta e using p1(2) get by (simp add: keeps_def)
  then obtain m3 e3 where p3: "(publishStep ns req0 ^^ 4) (AtGet meta, (m1, e2)) = (Done (Inl err), (m3, e3))"
      "\<not> managed m3 (VolumeId req0)" "metas e3 (VolumeId req0) = None"
    using failing_fetch [OF keeps_st [OF p2(2)]] acc(1) unfolding accepted_def by blast
  obtain e4 where p4: "(publishStep ns req1 ^^ 2) (AtTarget, (m3, e3)) = (Done (Inr ()), (m3, e4))" "metas e4 = metas e3" "Target req1 \<in> mnts e4"
    using mnt by blast
  have "interleave ns (replicate 4 0 @ replicate 3 1 @ replicate 4 0 @ replicate 2 1 @ []) (map startCall [Publish req0, Publish req1], (m, e)) =
      ([PublishCall req0 (Done (Inl err)), PublishCall req1 (Done (Inr ()))], (m3, e4))"
    by (simp add: interleave_run publish_run p1(1) p2(1) p3(1) p4(1) del: append_Nil2 publishStep.simps)
  with p3 p4 show ?thesis by auto
qed

end

section \<open>Two publish calls for one volume\<close>

lemma mount_run:
  fixes mt :: "'h mounter" and mkdirAll :: "string \<Rightarrow> mode \<Rightarrow> ('h, unit) io"
  assumes "host_ok mnts mt mkdirAll" "\<And>t h. \<exists>b h'. IsMountPoint mt t h = ((b, None), h')" "\<And>src t ty os h. \<exists>h'. Mount mt src t ty os h = (Inr (), h')"
  shows "\<exists>e'. (publishStep (nodeOn st mt mkdirAll nid) req ^^ 2) (AtTarget, (m, e)) = (Done (Inr ()), (m, e')) \<and> fst e' = fst e \<and>
    Target req \<in> mnts (snd e')"
proof -
  obtain w h where e: "e = (w, h)" by fastforce
  obtain b h1 where im: "IsMountPoint mt (Target req) h = ((b, None), h1)" using assms(2) by blast
  have h1: "mnts h1 = mnts h" "b \<longleftrightarrow> Target req \<in> mnts h"
    using assms(1) [unfolded host_ok_def, THEN conjunct1, rule_format, OF im] by simp_all
  obtain h2 where mo: "Mount mt (sPathForVolume st (VolumeId req)) (Target req) [] [''bind'', ''ro''] h1 = (Inr (), h2)" using assms(3) by blast
  have "mnts h2 = insert (Target req) (mnts h1)"
    using assms(1) [unfolded host_ok_def, THEN conjunct2, THEN conjunct1, rule_format, OF mo] by simp
  with im h1 mo show ?thesis
    by (cases b) (simp_all add: e funpow_numerals stepTo_def nodeOn_def hostMounter_def ensureMountTarget_def on_env_def on_snd_def)
qed


definition downManager :: "(world \<times> string list) Manager" where
  "downManager = sampleManager\<lparr>getCertificates := (\<lambda>meta. on_snd (throw (Msg ''no route to host'')))\<rparr>"


section \<open>An unpublish call while a publish call waits\<close>

text \<open>A call that has failed does not return success.\<close>

fun failing :: "publishPC \<Rightarrow> bool" where
  "failing (AtUnmanage err) = True"
| "failing (AtUnmount err) = True"
| "failing (AtRemove err) = True"
| "failing (Done (Inl err)) = True"
| "failing _ = False"

lemma failing_step: "failing pc \<Longrightarrow> failing (fst (publishStep ns req (pc, s)))"
  by (cases pc rule: failing.cases) (auto split: prod.splits sum.splits)

lemma failing_stepTo: "stepTo k (r, s) = (pc, s') \<Longrightarrow> \<not> failing pc \<Longrightarrow> \<exists>x. r = Inr x \<and> pc = k x \<and> s' = s"
  by (auto simp: stepTo_def split: sum.splits)

text \<open>The end of a publish call that succeeds: the certificates were written, and nothing after that changes the store.\<close>

lemma late_write:
  assumes m: "getCertificates m = (\<lambda>meta. on_snd (get meta))" "writeCertificates m = (\<lambda>meta fls. on_fst (WriteFiles rehash f meta fls))"
    and run: "(publishStep (nodeOn st mt mkdirAll nid) req ^^ 4) (AtGet meta, (m, w, h)) = (Done (Inr ()), (m', w', h'))"
  shows "m' = m \<and> (\<exists>fls h1. get meta h = (Inr fls, h1) \<and> WriteFiles rehash f meta fls w = (Inr (), w'))"
proof -
  let ?step = "publishStep (nodeOn st mt mkdirAll nid) req"
  obtain pc1 s1 where r1: "?step (AtGet meta, (m, w, h)) = (pc1, s1)" by (meson surj_pair)
  obtain pc2 s2 where r2: "?step (pc1, s1) = (pc2, s2)" by (meson surj_pair)
  obtain pc3 s3 where r3: "?step (pc2, s2) = (pc3, s3)" by (meson surj_pair)
  have r4: "?step (pc3, s3) = (Done (Inr ()), (m', w', h'))" using run by (simp add: funpow_numerals r1 r2 r3 del: publishStep.simps)
  have n: "\<not> failing pc1" "\<not> failing pc2" "\<not> failing pc3"
    using failing_step [of pc1 "nodeOn st mt mkdirAll nid" req s1] failing_step [of pc2 "nodeOn st mt mkdirAll nid" req s2]
      failing_step [of pc3 "nodeOn st mt mkdirAll nid" req s3] r2 r3 r4 by (auto simp del: publishStep.simps)
  obtain rg h1 where get: "get meta h = (rg, h1)" by fastforce
  obtain fls where fls: "rg = Inr fls" "pc1 = AtWrite meta fls" "s1 = (m, w, h1)"
    using r1 failing_stepTo [OF _ n(1), of _ rg "(m, w, h1)" s1] get by (auto simp: m with_mgr_def on_env_def on_snd_def)
  obtain rw w1 where wr: "WriteFiles rehash f meta fls w = (rw, w1)" by fastforce
  have s2: "rw = Inr ()" "pc2 = AtTarget" "s2 = (m, w1, h1)"
    using r2 fls failing_stepTo [OF _ n(2), of _ rw "(m, w1, h1)" s2] wr by (auto simp: m with_mgr_def on_env_def on_fst_def)
  obtain rt h2 where tg: "ensureMountTarget (nodeOn st mt mkdirAll nid) (Target req) (w1, h1) = (rt, (w1, h2))"
    using ensure_world [of st mt mkdirAll nid "Target req" w1 h1] by (metis fst_conv surj_pair)
  have s3: "(pc3 = Done (Inr ()) \<or> pc3 = AtMount) \<and> s3 = (m, w1, h2)"
    using r3 s2 failing_stepTo [OF _ n(3), of "\<lambda>isMnt. if isMnt then Done (Inr ()) else AtMount" rt "(m, w1, h2)" s3] tg
    by (auto simp: on_env_def split: if_splits)
  then have "m' = m \<and> w' = w1"
    using r4 failing_stepTo [of _ _ _ "Done (Inr ())"] by (auto simp: on_env_def nodeOn_def hostMounter_def on_snd_def stepTo_def split: prod.splits sum.splits)
  with get fls wr s2 show ?thesis by auto
qed

text \<open>
  C9. An unpublish call during a publish call can keep the driver from ever starting again. While a publish call of a new volume
  waits for its certificates, an unpublish call for the volume runs and removes it. If the publish call then gets the
  certificates, it writes them to a directory it makes again, mounts that and reports success. Both calls have
  returned without error, the volume is not managed and has no metadata, and from then on the driver panics when
  it builds a manager on this store.
\<close>

theorem unpublish_during_fetch:
  assumes "deepEqual_ok deepEqual" "host_ok mnts mt mkdirAll" "rehash_ok rehash" "source_ok mnts get" "driver_ok rehash f get (m, w, h)"
    and "unVolumeId ureq = VolumeId req" "pname (VolumeId req)" "\<not> managed m (VolumeId req)"
    and "mget (Context req) ephemeralKey = Some ''true''" "Readonly req" "meta_ok (FromNodePublishVolumeRequest req)"
    and "interleave (nodeOn (fsStorage deepEqual f) mt mkdirAll nid) (replicate 4 0 @ replicate 4 1 @ replicate 4 0)
      (map startCall [Publish req, Unpublish ureq], (m, w, h)) = ([c0, c1], (m', w', h'))"
    and "callResult c0 = Some (Inr ())" "callResult c1 = Some (Inr ())"
    and "optMetadataReader opts = Some (readerOf (ReadMetadata f) (ListVolumes f))"
  shows "\<not> managed m' (VolumeId req) \<and> fsMetas f w' (VolumeId req) = None \<and> isdir (wfs w') (troot f @ [VolumeId req]) \<and>
    (\<exists>w2. NewManagerOrDie enc opts w' = (Inl (Panic ''failed to start manager''), w2))"
proof -
  let ?ns = "nodeOn (fsStorage deepEqual f) mt mkdirAll nid" and ?v = "VolumeId req"
  note ne = fs_node [OF assms(1,2), of f nid]
  note st = driver_st_ok [OF assms(1-5)]
  have "node_env.accepted pname req" using assms(7,9-11) by (simp add: node_env.accepted_def [OF ne])
  from node_env.start_fetch [OF ne st assms(8) this] obtain meta m1 w1 h1 where
    p1: "(publishStep ?ns req ^^ 4) (AtRegister, (m, w, h)) = (AtGet meta, (m1, w1, h1))" and
    k1: "node_env.keeps (fs_ok f \<circ> fst) (fsMetas f \<circ> fst) (\<lambda>v. on_fst (ReadMetadata f v)) (on_fst (ListVolumes f)) (mnts \<circ> snd)
      ?v (Target req) (m, w, h) (m1, w1, h1)" and
    a1: "node_env.stored_as (fsMetas f \<circ> fst) req meta (m1, w1, h1)" by (metis surj_pair)
  obtain pc2 m2 w2 h2 where p2: "(unpublishStep ?ns ureq ^^ 4) (UnManage, (m1, w1, h1)) = (pc2, (m2, w2, h2))" by (metis surj_pair)
  have "pname (unVolumeId ureq)" using assms(6,7) by simp
  note k2 = node_env.unpublish_run_ok [OF ne node_env.keeps_st [OF ne k1] _ this, where pc = UnManage and n = 4, unfolded p2 fst_conv snd_conv]
  obtain pc3 s3 where p3: "(publishStep ?ns req ^^ 4) (AtGet meta, (m2, w2, h2)) = (pc3, s3)" by (meson surj_pair)
  have "interleave ?ns (replicate 4 0 @ replicate 4 1 @ replicate 4 0 @ []) (map startCall [Publish req, Unpublish ureq], (m, w, h)) =
      ([PublishCall req pc3, UnpublishCall ureq pc2], s3)"
    by (simp add: interleave_run publish_run unpublish_run p1 p2 p3 del: append_Nil2 publishStep.simps unpublishStep.simps)
  then have s3: "c0 = PublishCall req pc3" "c1 = UnpublishCall ureq pc2" "s3 = (m', w', h')" using assms(12) by simp_all
  have fin: "pc3 = Done (Inr ())" "pc2 = UnDone (Inr ())"
    using assms(13,14) s3 by (auto elim: callResult_SomeE)
  have gone: "fs_ok f w2" "\<not> managed m2 ?v" "fsMetas f w2 ?v = None"
      "getCertificates m2 = getCertificates m" "writeCertificates m2 = writeCertificates m"
    using k1 k2 assms(6) unfolding node_env.keeps_def [OF ne] node_env.st_ok_def [OF ne] fin node_env.unpub_ok.simps [OF ne] by auto
  have funs: "getCertificates m2 = (\<lambda>meta. on_snd (get meta))" "writeCertificates m2 = (\<lambda>meta fls. on_fst (WriteFiles rehash f meta fls))"
    using assms(5) gone(4,5) by (auto simp: driver_ok_def managerOf_def)
  obtain fls h3 where late: "m' = m2" "get meta h2 = (Inr fls, h3)" "WriteFiles rehash f meta fls w2 = (Inr (), w')"
    using late_write [OF funs p3 [unfolded fin s3]] by blast
  have safe: "\<forall>k \<in> set (mkeys fls). safe_key k" using assms(4) late(2) unfolding source_ok_def by blast
  have id: "VolumeID meta = ?v"
    using volumeMeta_some(4) k1 a1 unfolding node_env.keeps_def [OF ne] node_env.st_ok_def [OF ne] node_env.stored_as_def [OF ne]
    by (auto simp: fs_ok_def fsMetas_def)
  have o: "orphan f ?v (wfs w')"
    using WriteFiles_orphan [OF gone(1) assms(3) _ _ safe late(3)] gone(3) assms(7) id by (simp add: on_fs_def)
  have "base_ok f" using gone(1) by (simp add: fs_ok_def)
  then have "\<exists>err. r = Inl err" if "ListVolumes f w' = (r, e')" for r e' using ListVolumes_orphan [OF _ assms(7) o that] by blast
  then obtain err w3 where "NewManager enc opts w' = (Inl err, w3)"
    using NewManager_fails [OF assms(15), of w' enc] by (auto simp: readerOf_def)
  then have "NewManagerOrDie enc opts w' = (Inl (Panic ''failed to start manager''), w3)" by (rule NewManagerOrDie_panics)
  moreover have "fsMetas f w' ?v = None" "isdir (wfs w') (troot f @ [?v])" using o by (simp_all add: orphan_def fsMetas_def volumeMeta_def)
  ultimately show ?thesis using gone(2) late(1) by auto
qed

lemma unpublish_during_fetch_sample:
  "map callResult (fst (interleave sampleNode (replicate 4 0 @ replicate 4 1 @ replicate 4 0)
     (map startCall [Publish sampleRequest, Unpublish \<lparr>unVolumeId = ''v1'', unTarget = ''/t''\<rparr>], sampleState))) = [Some (Inr ()), Some (Inr ())]"
  by code_simp

theorem unpublish_during_fetch_witness:
  "\<exists>c0 c1 m' w' h' w2. interleave sampleNode (replicate 4 0 @ replicate 4 1 @ replicate 4 0)
      (map startCall [Publish sampleRequest, Unpublish \<lparr>unVolumeId = ''v1'', unTarget = ''/t''\<rparr>], sampleState) = ([c0, c1], (m', w', h')) \<and>
    callResult c0 = Some (Inr ()) \<and> callResult c1 = Some (Inr ()) \<and> isdir (wfs w') [''b'', ''inmemfs'', ''v1''] \<and>
    NewManagerOrDie id sampleOptions w' = (Inl (Panic ''failed to start manager''), w2)"
proof -
  let ?ureq = "\<lparr>unVolumeId = ''v1'', unTarget = ''/t''\<rparr>"
  let ?run = "interleave sampleNode (replicate 4 0 @ replicate 4 1 @ replicate 4 0) (map startCall [Publish sampleRequest, Unpublish ?ureq], sampleState)"
  obtain cs m' w' h' where run: "?run = (cs, (m', w', h'))" by (metis surj_pair)
  have res: "map callResult cs = [Some (Inr ()), Some (Inr ())]" using unpublish_during_fetch_sample unfolding run by simp
  then obtain c0 c1 where cs: "cs = [c0, c1]" by (auto simp: map_eq_Cons_conv)
  have acc: "mget (Context sampleRequest) ephemeralKey = Some ''true''" "Readonly sampleRequest" by (simp_all add: sampleRequest_def)
  have v: "unVolumeId ?ureq = VolumeId sampleRequest" by (simp add: sample_requests)
  have new: "\<not> managed sampleManager (VolumeId sampleRequest)" using sample_requests(2,3) by simp
  have rd: "optMetadataReader sampleOptions = Some (readerOf (ReadMetadata sampleFSB) (ListVolumes sampleFSB))" by (simp add: sampleOptions_def)
  have ok: "callResult c0 = Some (Inr ())" "callResult c1 = Some (Inr ())" using res cs by simp_all
  note k = unpublish_during_fetch [OF sample_driver v sample_requests(1) new acc meta_ok_sample run [unfolded cs] ok rd, of id]
  then have "isdir (wfs w') (troot sampleFSB @ [VolumeId sampleRequest])"
      "\<exists>w2. NewManagerOrDie id sampleOptions w' = (Inl (Panic ''failed to start manager''), w2)" by blast+
  then show ?thesis using run cs res by (auto simp: troot_sample sample_requests simp del: interleave.simps)
qed

end
