(* ===== verification/Registry.thy ===== *)
theory Registry
  imports Go_Path
begin

text \<open>
  Model of \<^verbatim>\<open>pkg/registry\<close>: the client of OCI registries. The environment \<open>'e\<close> is what the network, the
  docker credentials and the output act on. Code outside the repository is an argument: \<^verbatim>\<open>auth.Client\<close> as
  a record of its methods, resolvers as values of a type \<open>'r\<close>, and the functions of \<^verbatim>\<open>oras\<close>,
  \<^verbatim>\<open>gzip\<close> and \<^verbatim>\<open>tar\<close> that \<open>Pull\<close> calls as the record \<open>orasLib\<close>.
\<close>

section \<open>Strings\<close>

text \<open>\<^verbatim>\<open>strings.ReplaceAll\<close> for a non-empty \<open>old\<close>: occurrences are replaced from the left and do not overlap.\<close>

function replaceAll :: "string \<Rightarrow> string \<Rightarrow> string \<Rightarrow> string" where
  "replaceAll s old new =
     (if s = [] \<or> old = [] then s
      else if hasPrefix s old then new @ replaceAll (drop (length old) s) old new
      else hd s # replaceAll (tl s) old new)"
  by pat_completeness auto
termination
  by (relation "measure (\<lambda>(s, _, _). length s)") auto

declare replaceAll.simps [simp del]

section \<open>References\<close>

definition ContainsTag :: "string list \<Rightarrow> string \<Rightarrow> bool" where
  "ContainsTag tags tag \<longleftrightarrow> list_ex (\<lambda>t. tag = t) tags"

text \<open>The reference that is handed to the parser.\<close>

definition cleanReference :: "string \<Rightarrow> string" where
  "cleanReference raw =
     (let parts = splitc CHR '':'' raw
      in if length parts > 1 \<and> sep \<notin> set (last parts)
         then let tag = last parts
              in if tag \<noteq> [] then replaceAll raw tag (replaceAll tag ''+'' ''_'') else raw
         else raw)"

text \<open>The argument \<open>parser\<close> stands for \<^verbatim>\<open>registry.ParseReference\<close> of oras.\<close>

definition parseReference :: "(string \<Rightarrow> goerr + 'p) \<Rightarrow> string \<Rightarrow> goerr + 'p" where
  "parseReference parser raw = parser (cleanReference raw)"

section \<open>Client\<close>

definition userAgent :: string where
  "userAgent = ''csi-driver-trusted-ca/v1alpha1''"

record loginSettings =
  loginHostname :: string
  loginUsername :: string
  loginSecret :: string
  loginUserAgent :: string
  loginInsecure :: bool

text \<open>
  The methods of \<^verbatim>\<open>auth.Client\<close>; \<open>dockerCredential\<close> is the method \<^verbatim>\<open>Credential\<close> when the dynamic type is
  \<^verbatim>\<open>*dockerauth.Client\<close>.
\<close>

record ('e, 'r) authClient =
  loginWithOpts :: "loginSettings \<Rightarrow> ('e, unit) io"
  authLogout :: "string \<Rightarrow> ('e, unit) io"
  resolverWithOpts :: "(string \<times> string) list \<Rightarrow> ('e, 'r) io"
  dockerCredential :: "(string \<Rightarrow> ('e, string \<times> string) io) option"

record Credential =
  Username :: string
  Password :: string
  RefreshToken :: string

definition EmptyCredential :: Credential where
  "EmptyCredential = \<lparr>Username = [], Password = [], RefreshToken = []\<rparr>"

text \<open>\<open>raCache\<close>: whether the client has the default cache.\<close>

record 'e registryauthClient =
  raHeader :: "(string \<times> string) list"
  raCache :: bool
  raCredential :: "string \<Rightarrow> ('e, Credential) io"

record ('e, 'r) Client =
  debug :: bool
  enableCache :: bool
  credentialsFile :: string
  out :: "string \<Rightarrow> ('e, unit) io"
  authorizer :: "('e, 'r) authClient option"
  registryAuthorizer :: "'e registryauthClient option"
  resolver :: "'r option"

type_synonym ('e, 'r) ClientOption = "('e, 'r) Client \<Rightarrow> ('e, 'r) Client"

definition ClientOptDebug :: "bool \<Rightarrow> ('e, 'r) ClientOption" where
  "ClientOptDebug b client = client\<lparr>debug := b\<rparr>"

definition ClientOptEnableCache :: "bool \<Rightarrow> ('e, 'r) ClientOption" where
  "ClientOptEnableCache b client = client\<lparr>enableCache := b\<rparr>"

definition ClientOptWriter :: "(string \<Rightarrow> ('e, unit) io) \<Rightarrow> ('e, 'r) ClientOption" where
  "ClientOptWriter wr client = client\<lparr>out := wr\<rparr>"

definition ClientOptCredentialsFile :: "string \<Rightarrow> ('e, 'r) ClientOption" where
  "ClientOptCredentialsFile p client = client\<lparr>credentialsFile := p\<rparr>"

definition ClientOptResolver :: "'r \<Rightarrow> ('e, 'r) ClientOption" where
  "ClientOptResolver r client = client\<lparr>resolver := Some r\<rparr>"

definition defaultClient :: "('e, 'r) Client" where
  "defaultClient =
     \<lparr>debug = False, enableCache = False, credentialsFile = [], out = (\<lambda>_. ret ()), authorizer = None,
      registryAuthorizer = None, resolver = None\<rparr>"

text \<open>The credentials of the default registry client: a password without a user name is a bearer token.\<close>

definition dockerCredentials :: "('e, 'r) authClient \<Rightarrow> string \<Rightarrow> ('e, Credential) io" where
  "dockerCredentials a reg =
     (case dockerCredential a of
        None \<Rightarrow> throw (Msg ''unable to obtain docker client'')
      | Some cred \<Rightarrow> attempt (cred reg) (\<lambda>r. case r of
          Inl _ \<Rightarrow> throw (Msg ''unable to retrieve credentials'')
        | Inr (username, password) \<Rightarrow>
            if username = [] \<and> password \<noteq> [] then ret (EmptyCredential\<lparr>RefreshToken := password\<rparr>)
            else ret (EmptyCredential\<lparr>Username := username, Password := password\<rparr>)))"

text \<open>The argument \<open>newAuth\<close> stands for \<^verbatim>\<open>dockerauth.NewClient\<close>.\<close>

definition NewClient :: "('e, ('e, 'r) authClient) io \<Rightarrow> ('e, 'r) ClientOption list \<Rightarrow> ('e, ('e, 'r) Client) io" where
  "NewClient newAuth options =
     (let client = fold (\<lambda>option client. option client) options defaultClient
      in andThen (case authorizer client of None \<Rightarrow> newAuth | Some a \<Rightarrow> ret a) (\<lambda>a.
         andThen (case resolver client of
             None \<Rightarrow> resolverWithOpts a [(''User-Agent'', userAgent)]
           | Some r \<Rightarrow> ret r) (\<lambda>r.
         let ra = (case registryAuthorizer client of
             None \<Rightarrow> \<lparr>raHeader = [(''User-Agent'', userAgent)], raCache = enableCache client, raCredential = dockerCredentials a\<rparr>
           | Some ra \<Rightarrow> ra)
         in ret (client\<lparr>authorizer := Some a, resolver := Some r, registryAuthorizer := Some ra\<rparr>))))"

section \<open>Login and logout\<close>

record loginOperation =
  username :: string
  password :: string
  insecure :: bool

type_synonym LoginOption = "loginOperation \<Rightarrow> loginOperation"

definition LoginOptBasicAuth :: "string \<Rightarrow> string \<Rightarrow> LoginOption" where
  "LoginOptBasicAuth u p operation = operation\<lparr>username := u, password := p\<rparr>"

definition LoginOptInsecure :: "bool \<Rightarrow> LoginOption" where
  "LoginOptInsecure b operation = operation\<lparr>insecure := b\<rparr>"

text \<open>Calling a method of a \<^verbatim>\<open>nil\<close> authorizer panics.\<close>

definition Login :: "('e, 'r) Client \<Rightarrow> string \<Rightarrow> LoginOption list \<Rightarrow> ('e, unit) io" where
  "Login c host options =
     (let operation = fold (\<lambda>option op. option op) options \<lparr>username = [], password = [], insecure = False\<rparr>
      in case authorizer c of
           None \<Rightarrow> throw (Panic ''nil pointer dereference'')
         | Some a \<Rightarrow>
             andThen (loginWithOpts a \<lparr>loginHostname = host, loginUsername = username operation,
                 loginSecret = password operation, loginUserAgent = userAgent, loginInsecure = insecure operation\<rparr>) (\<lambda>_.
               ignoring (out c (''Login Succeeded'' @ [CHR 0x0A]))))"

definition Logout :: "('e, 'r) Client \<Rightarrow> string \<Rightarrow> ('e, unit) io" where
  "Logout c host =
     (case authorizer c of
        None \<Rightarrow> throw (Panic ''nil pointer dereference'')
      | Some a \<Rightarrow>
          andThen (authLogout a host) (\<lambda>_.
            ignoring (out c (''Removing login credentials for '' @ host @ [CHR 0x0A]))))"

section \<open>Pull\<close>

record Descriptor =
  MediaType :: string
  Digest :: string

definition MediaTypeImageLayer :: string where
  "MediaTypeImageLayer = ''application/vnd.oci.image.layer.v1.tar''"

definition MediaTypeImageLayerGzip :: string where
  "MediaTypeImageLayerGzip = ''application/vnd.oci.image.layer.v1.tar+gzip''"

text \<open>
  What a \<^verbatim>\<open>tar.Reader\<close> gives: for every entry its name, whether it is a directory and the outcome of copying
  its content, or an error of \<^verbatim>\<open>Next\<close>. The end of the list is \<^verbatim>\<open>io.EOF\<close>.
\<close>

datatype tarItem = TarEntry string bool "goerr + string" | TarError goerr

text \<open>
  The library functions of \<open>Pull\<close>: \<open>orasParse\<close> and \<open>orasString\<close> for references, \<open>orasCopy\<close> with the manifest,
  the layers its callback was given and the filled memory store, \<open>orasFetch\<close> from that store,
  \<open>closeReader\<close>, \<open>gzipNewReader\<close>, \<open>tarItems\<close> for \<^verbatim>\<open>tar.NewReader\<close>, \<open>multierrCombine\<close>.
\<close>

record ('e, 'r, 'p, 's, 'b) orasLib =
  orasParse :: "string \<Rightarrow> goerr + 'p"
  orasString :: "'p \<Rightarrow> string"
  orasCopy :: "'r option \<Rightarrow> string \<Rightarrow> ('e, Descriptor \<times> Descriptor list \<times> 's) io"
  orasFetch :: "'s \<Rightarrow> Descriptor \<Rightarrow> ('e, 'b) io"
  closeReader :: "'b \<Rightarrow> ('e, unit) io"
  gzipNewReader :: "'b \<Rightarrow> ('e, 'b) io"
  tarItems :: "'b \<Rightarrow> tarItem list"
  multierrCombine :: "goerr \<Rightarrow> goerr \<Rightarrow> goerr"

definition isTarball :: "Descriptor \<Rightarrow> bool" where
  "isTarball d \<longleftrightarrow> MediaType d = MediaTypeImageLayer \<or> MediaType d = MediaTypeImageLayerGzip"

text \<open>The reader for a fetched blob; the blob is closed when its compression header is bad.\<close>

definition openTarball :: "('e, 'r, 'p, 's, 'b) orasLib \<Rightarrow> Descriptor \<Rightarrow> 'b \<Rightarrow> ('e, tarItem list) io" where
  "openTarball lib d dataReader =
     (if MediaType d = MediaTypeImageLayer then ret (tarItems lib dataReader)
      else if MediaType d = MediaTypeImageLayerGzip
      then attempt (gzipNewReader lib dataReader) (\<lambda>r. case r of
          Inr gz \<Rightarrow> ret (tarItems lib gz)
        | Inl err \<Rightarrow> attempt (closeReader lib dataReader) (\<lambda>r'. case r' of
            Inl closeErr \<Rightarrow> throw (multierrCombine lib err closeErr)
          | Inr _ \<Rightarrow> throw err))
      else ret [])"

definition Pull :: "('e, 'r, 'p, 's, 'b) orasLib \<Rightarrow> ('e, 'r) Client \<Rightarrow> string \<Rightarrow> ('e, tarItem list \<times> ('e, unit) io) io" where
  "Pull lib c ref =
     andThen (lift_res (parseReference (orasParse lib) ref)) (\<lambda>parsedRef.
     andThen (orasCopy lib (resolver c) (orasString lib parsedRef)) (\<lambda>(manifest, layers, memoryStore).
       let descriptors = manifest # layers
       in if length descriptors < 1
          then throw (Msg ''manifest does not contain minimum number of descriptors'')
          else (case find isTarball descriptors of
              None \<Rightarrow> throw (Msg ''could not load config with one of mediatypes'')
            | Some tarballDescriptor \<Rightarrow>
                andThen (wrapping ''unable to retrieve blob with digest'' (orasFetch lib memoryStore tarballDescriptor)) (\<lambda>dataReader.
                andThen (openTarball lib tarballDescriptor dataReader) (\<lambda>r.
                  ret (r, closeReader lib dataReader))))))"

end
