(* ===== verification/Source.thy ===== *)
theory Source
  imports Registry Metadata
begin

text \<open>
  Model of \<^verbatim>\<open>pkg/source\<close>: where the certificates come from. Arguments stand for code outside the repository: a
  record for the Kubernetes client, \<open>newForConfig\<close> for \<^verbatim>\<open>kubernetes.NewForConfig\<close>, \<open>parseNamed\<close> for
  \<^verbatim>\<open>reference.ParseNormalizedNamed\<close>, \<open>newResolver\<close> for \<^verbatim>\<open>docker.NewResolver\<close> with a TLS configuration, and
  the record \<open>orasLib\<close> of the theory of the registry client.
\<close>

section \<open>Kubernetes objects\<close>

record ConfigMap =
  cmData :: "string gomap"
  cmBinaryData :: "string gomap"

record Secret =
  secretData :: "string gomap"

text \<open>\<^verbatim>\<open>CoreV1().ConfigMaps(namespace).Get(name)\<close> and the same of secrets.\<close>

record 'e KubernetesClient =
  getConfigMap :: "string \<Rightarrow> string \<Rightarrow> ('e, ConfigMap) io"
  getSecret :: "string \<Rightarrow> string \<Rightarrow> ('e, Secret) io"

section \<open>Sources\<close>

text \<open>\<open>kc\<close> is \<open>None\<close> until a client is injected. \<open>'n\<close> is the type of parsed image names.\<close>

record 'e objectSource =
  srcNamespace :: string
  srcName :: string
  kc :: "'e KubernetesClient option"

datatype ('e, 'n) Source =
    testSource
  | configmapSource "'e objectSource"
  | secretSource "'e objectSource"
  | ociSource 'n

definition newTestSource :: "string \<Rightarrow> goerr + ('e, 'n) Source" where
  "newTestSource cfg = Inr testSource"

definition newConfigmapSource :: "string \<Rightarrow> goerr + ('e, 'n) Source" where
  "newConfigmapSource cfg =
     (let cm = splitc CHR ''/'' cfg
      in if length cm \<noteq> 2 then Inl (Msg ''invalid configmap source config'')
         else Inr (configmapSource \<lparr>srcNamespace = cm ! 0, srcName = cm ! 1, kc = None\<rparr>))"

definition newSecretSource :: "string \<Rightarrow> goerr + ('e, 'n) Source" where
  "newSecretSource cfg =
     (let cm = splitc CHR ''/'' cfg
      in if length cm \<noteq> 2 then Inl (Msg ''invalid configmap source config'')
         else Inr (secretSource \<lparr>srcNamespace = cm ! 0, srcName = cm ! 1, kc = None\<rparr>))"

definition newOCISource :: "(string \<Rightarrow> goerr + 'n) \<Rightarrow> string \<Rightarrow> goerr + ('e, 'n) Source" where
  "newOCISource parseNamed cfg =
     (case parseNamed cfg of
        Inl err \<Rightarrow> Inl (Wrap ''invalid OCI reference'' err)
      | Inr ref \<Rightarrow> Inr (ociSource ref))"

section \<open>Selection\<close>

definition isAlnum :: "char \<Rightarrow> bool" where
  "isAlnum c \<longleftrightarrow> between 0x41 c 0x5A \<or> between 0x61 c 0x7A \<or> between 0x30 c 0x39"

text \<open>
  The submatches of \<^verbatim>\<open>^([A-Za-z0-9]+)::(.+)$\<close>. A colon is not in the first class, so the first group is
  the longest run of letters and digits; a dot matches everything but a newline.
\<close>

definition getSource :: "string \<Rightarrow> string \<times> string" where
  "getSource src =
     (let name = takeWhile isAlnum src;
          rest = dropWhile isAlnum src;
          cfg = drop 2 rest
      in if name \<noteq> [] \<and> hasPrefix rest ''::'' \<and> cfg \<noteq> [] \<and> CHR 0x0A \<notin> set cfg then (name, cfg) else ([], []))"

definition getters :: "(string \<Rightarrow> goerr + 'n) \<Rightarrow> (string \<Rightarrow> goerr + ('e, 'n) Source) gomap" where
  "getters parseNamed =
     [(''test'', newTestSource), (''configmap'', newConfigmapSource), (''secret'', newSecretSource),
      (''oci'', newOCISource parseNamed)]"

text \<open>The config map and the secret source have the method \<^verbatim>\<open>InjectKubernetesClient\<close>; no source has \<^verbatim>\<open>InjectRESTConfig\<close>.\<close>

fun InjectKubernetesClient :: "'e KubernetesClient \<Rightarrow> ('e, 'n) Source \<Rightarrow> ('e, 'n) Source" where
  "InjectKubernetesClient c (configmapSource s) = configmapSource (s\<lparr>kc := Some c\<rparr>)"
| "InjectKubernetesClient c (secretSource s) = secretSource (s\<lparr>kc := Some c\<rparr>)"
| "InjectKubernetesClient c s = s"

fun withKubernetesClient :: "('e, 'n) Source \<Rightarrow> bool" where
  "withKubernetesClient (configmapSource s) = True"
| "withKubernetesClient (secretSource s) = True"
| "withKubernetesClient s = False"

definition newSource ::
  "(string \<Rightarrow> goerr + 'n) \<Rightarrow> ('c \<Rightarrow> goerr + 'e KubernetesClient) \<Rightarrow> string \<Rightarrow> 'c \<Rightarrow> goerr + ('e, 'n) Source" where
  "newSource parseNamed newForConfig src restCfg =
     (let (getterName, getterConfig) = getSource src
      in case mget (getters parseNamed) getterName of
           None \<Rightarrow> Inl (Msg (''unsupported source: '' @ src))
         | Some getterFunc \<Rightarrow>
             (case getterFunc getterConfig of
                Inl err \<Rightarrow> Inl err
              | Inr getter \<Rightarrow>
                  if withKubernetesClient getter
                  then (case newForConfig restCfg of
                      Inl err \<Rightarrow> Inl err
                    | Inr c \<Rightarrow> Inr (InjectKubernetesClient c getter))
                  else Inr getter))"

section \<open>Files\<close>

text \<open>Entries of a map are copied into another; the order of the entries of a map is not specified.\<close>

definition copyInto :: "string gomap \<Rightarrow> string gomap \<Rightarrow> string gomap" where
  "copyInto m fs = fold (\<lambda>(k, v) fs. mput k v fs) m fs"

definition configmapGetFiles :: "'e objectSource \<Rightarrow> ('e, string gomap) io" where
  "configmapGetFiles s =
     (case kc s of
        None \<Rightarrow> throw (Panic ''nil pointer dereference'')
      | Some c \<Rightarrow>
          andThen (wrapping ''failed to read files from configmap source'' (getConfigMap c (srcNamespace s) (srcName s))) (\<lambda>cm.
            ret (copyInto (cmBinaryData cm) (copyInto (cmData cm) []))))"

definition secretGetFiles :: "'e objectSource \<Rightarrow> ('e, string gomap) io" where
  "secretGetFiles s =
     (case kc s of
        None \<Rightarrow> throw (Panic ''nil pointer dereference'')
      | Some c \<Rightarrow>
          andThen (wrapping ''failed to read files from secret source'' (getSecret c (srcNamespace s) (srcName s))) (\<lambda>secret.
            ret (copyInto (secretData secret) [])))"

text \<open>The loop over the tarball: directories are skipped, an entry replaces an earlier one of the same name.\<close>

fun readTar :: "tarItem list \<Rightarrow> string gomap \<Rightarrow> goerr + string gomap" where
  "readTar [] fs = Inr fs"
| "readTar (TarError err # items) fs = Inl (Wrap ''failed to read tarball'' err)"
| "readTar (TarEntry name isDir body # items) fs =
     (if isDir then readTar items fs
      else case body of
          Inl err \<Rightarrow> Inl (Wrap ''failed to read tarball'' err)
        | Inr content \<Rightarrow> readTar items (mput name content fs))"

text \<open>
  The resolver is made with a TLS configuration that skips verification (the first argument of
  \<open>newResolver\<close>). The deferred close runs on every path after the pull and its error is dropped.
\<close>

definition ociGetFiles ::
  "('e, 'r, 'p, 's, 'b) orasLib \<Rightarrow> ('e, ('e, 'r) authClient) io \<Rightarrow> (bool \<Rightarrow> 'r) \<Rightarrow> ('n \<Rightarrow> string) \<Rightarrow> 'n \<Rightarrow>
   ('e, string gomap) io" where
  "ociGetFiles lib newAuth newResolver nameString ref =
     andThen (wrapping ''failed to create OCI registry client''
         (NewClient newAuth [ClientOptResolver (newResolver True)])) (\<lambda>ociClient.
     andThen (wrapping ''failed to read bundle from OCI registry'' (Pull lib ociClient (nameString ref))) (\<lambda>(items, closeFn).
     attempt (lift_res (readTar items [])) (\<lambda>r.
     andThen (ignoring closeFn) (\<lambda>_. lift_res r))))"

fun GetFiles ::
  "('e, 'r, 'p, 's, 'b) orasLib \<Rightarrow> ('e, ('e, 'r) authClient) io \<Rightarrow> (bool \<Rightarrow> 'r) \<Rightarrow> ('n \<Rightarrow> string) \<Rightarrow>
   ('e, 'n) Source \<Rightarrow> Metadata \<Rightarrow> ('e, string gomap) io" where
  "GetFiles lib newAuth newResolver nameString testSource meta = ret [(''a'', ''b'')]"
| "GetFiles lib newAuth newResolver nameString (configmapSource s) meta = configmapGetFiles s"
| "GetFiles lib newAuth newResolver nameString (secretSource s) meta = secretGetFiles s"
| "GetFiles lib newAuth newResolver nameString (ociSource ref) meta = ociGetFiles lib newAuth newResolver nameString ref"

end
