(* ===== verification/Registry_Facts.thy ===== *)
theory Registry_Facts
  imports Registry
begin

text \<open>
  The registry client: what cleaning a reference does to its tag, that a constructed client is complete,
  and which layer a pull hands out.
\<close>

section \<open>References\<close>

definition underscore :: "char \<Rightarrow> char" where
  "underscore c = (if c = CHR ''+'' then CHR ''_'' else c)"

lemma replaceAll_Nil [simp]: "replaceAll [] old new = []"
  by (simp add: replaceAll.simps)

lemma replaceAll_same: "replaceAll s old old = s"
proof (induction s rule: length_induct)
  case (1 s)
  then have "old \<noteq> [] \<Longrightarrow> s \<noteq> [] \<Longrightarrow> replaceAll (drop (length old) s) old old = drop (length old) s"
    "s \<noteq> [] \<Longrightarrow> replaceAll (tl s) old old = tl s"
    by simp_all
  then show ?case
    by (subst replaceAll.simps) (auto simp: hasPrefix_def, metis append_take_drop_id)
qed

lemma replaceAll_char: "replaceAll s [c] [d] = map (\<lambda>x. if x = c then d else x) s"
  by (induction s) (simp_all add: replaceAll.simps [of "_ # _"] hasPrefix_def)

lemma replaceAll_plus [simp]: "replaceAll s ''+'' ''_'' = map underscore s"
  unfolding underscore_def by (rule replaceAll_char)

text \<open>Only the occurrence at the end is replaced when there is no other.\<close>

lemma replaceAll_end:
  assumes "old \<noteq> []" "\<And>a b. s @ old = a @ old @ b \<Longrightarrow> b = []"
  shows "replaceAll (s @ old) old new = s @ new"
  using assms(2)
proof (induction s)
  case Nil
  with assms(1) show ?case by (simp add: replaceAll.simps [of old] hasPrefix_def)
next
  case (Cons x s)
  have "\<not> hasPrefix ((x # s) @ old) old"
  proof
    assume "hasPrefix ((x # s) @ old) old"
    then obtain b where b: "(x # s) @ old = old @ b" by (auto simp: hasPrefix_iff)
    then have "b = []" using Cons.prems [of "[]" b] by simp
    with b have "length (x # s) = 0" by (metis append.right_neutral append_self_conv2 list.size(3))
    then show False by simp
  qed
  moreover have "replaceAll (s @ old) old new = s @ new"
  proof (rule Cons.IH)
    fix a b assume "s @ old = a @ old @ b"
    then show "b = []" using Cons.prems [of "x # a" b] by simp
  qed
  ultimately show ?case using assms(1) by (simp add: replaceAll.simps [of "x # _"])
qed

text \<open>A tag has no colon, so an occurrence that is not at the end lies in what precedes the colon.\<close>

lemma tag_occurs_once:
  assumes "CHR '':'' \<notin> set tag" "\<not> sublist tag base" "(base @ '':'') @ tag = a @ tag @ b" "tag \<noteq> []"
  shows "b = []"
proof -
  let ?s = "base @ CHR '':'' # tag"
  have s: "?s = a @ tag @ b" using assms(3) by simp
  have "\<not> length a + length tag \<le> length base"
  proof
    assume "length a + length tag \<le> length base"
    then have "take (length base) ?s = a @ tag @ take (length base - length a - length tag) b" unfolding s by simp
    then show False using assms(2) by (auto simp: sublist_def)
  qed
  moreover have "\<not> (length a \<le> length base \<and> length base < length a + length tag)"
  proof
    assume l: "length a \<le> length base \<and> length base < length a + length tag"
    then have "(a @ tag @ b) ! length base = tag ! (length base - length a)"
      by (subst nth_append) (auto simp: nth_append)
    then have "tag ! (length base - length a) = CHR '':''" using s by (metis nth_append_length)
    with l assms(1) show False by (metis add.commute less_diff_conv2 nth_mem)
  qed
  ultimately have "length base < length a" using assms(4) by linarith
  moreover have "length ?s = length a + length tag + length b" using s by simp
  ultimately have "length b = 0" unfolding length_append list.size by linarith
  then show ?thesis by simp
qed

lemma splitc_last:
  assumes "c \<notin> set t"
  shows "last (splitc c (b @ c # t)) = t" "length (splitc c (b @ c # t)) > 1"
  using assms by (simp_all add: splitc_append_sep splitc_single)

text \<open>
  A reference with a tag is handed to the parser with the plus signs of the tag turned into
  underscores and nothing else changed, provided that the text of the tag does not occur before the
  colon. Without plus signs the reference is handed over as it is.
\<close>

theorem parseReference_tag:
  assumes "tag \<noteq> []" "CHR '':'' \<notin> set tag" "sep \<notin> set tag" "\<not> sublist tag base"
  shows "parseReference parser (base @ '':'' @ tag) = parser (base @ '':'' @ map underscore tag)"
proof -
  have "replaceAll ((base @ '':'') @ tag) tag (map underscore tag) = (base @ '':'') @ map underscore tag"
    by (rule replaceAll_end) (use assms tag_occurs_once in blast)+
  then show ?thesis
    using assms splitc_last [OF assms(2), of base]
    by (simp add: parseReference_def cleanReference_def Let_def)
qed

theorem parseReference_tag_witness:
  "parseReference Inr ''localhost:5000/bundle:1.0+2'' = Inr ''localhost:5000/bundle:1.0_2''"
proof -
  have "\<not> sublist ''1.0+2'' ''localhost:5000/bundle''" by code_simp
  then show ?thesis
    using parseReference_tag [of "''1.0+2''" "''localhost:5000/bundle''" Inr] by (simp add: underscore_def)
qed

lemma cleanReference_unchanged:
  assumes "CHR ''+'' \<notin> set raw"
  shows "cleanReference raw = raw"
proof -
  have "CHR ''+'' \<notin> set (last (splitc CHR '':'' raw))"
  proof
    assume plus: "CHR ''+'' \<in> set (last (splitc CHR '':'' raw))"
    have "set (last xs) \<subseteq> set (joinc c xs)" if "xs \<noteq> []" for c xs
      using that by (induction c xs rule: joinc.induct) auto
    from this [of "splitc CHR '':'' raw" "CHR '':''"] plus assms show False by auto
  qed
  then have "map underscore (last (splitc CHR '':'' raw)) = last (splitc CHR '':'' raw)"
    by (intro map_idI) (auto simp: underscore_def)
  then show ?thesis by (simp add: cleanReference_def Let_def replaceAll_same)
qed


section \<open>Construction of a client\<close>


definition sampleAuth :: "(string list, nat) authClient" where
  "sampleAuth =
     \<lparr>loginWithOpts = (\<lambda>s e. (Inr (), loginUsername s # e)), authLogout = (\<lambda>host e. (Inr (), host # e)),
      resolverWithOpts = (\<lambda>h. ret 7), dockerCredential = Some (\<lambda>reg. ret ([], ''secret''))\<rparr>"


text \<open>
  The credentials the default registry client sends: a password without a user name is a refresh
  token; a failure of the docker configuration hides its cause; a foreign authorizer gives no
  credentials at all.
\<close>

theorem dockerCredentials_cases:
  "dockerCredentials a reg e =
     (case dockerCredential a of
        None \<Rightarrow> (Inl (Msg ''unable to obtain docker client''), e)
      | Some cred \<Rightarrow>
          (case cred reg e of
             (Inl _, e') \<Rightarrow> (Inl (Msg ''unable to retrieve credentials''), e')
           | (Inr ([], p), e') \<Rightarrow> (Inr (if p = [] then EmptyCredential else EmptyCredential\<lparr>RefreshToken := p\<rparr>), e')
           | (Inr (u, p), e') \<Rightarrow> (Inr (EmptyCredential\<lparr>Username := u, Password := p\<rparr>), e')))"
  by (auto simp: dockerCredentials_def attempt_def ret_def throw_def EmptyCredential_def
      split: option.splits prod.splits sum.splits list.splits)

section \<open>Pull\<close>

text \<open>The manifest is always a descriptor: the check for too few of them never fires.\<close>

lemma Pull_eq:
  "Pull lib c ref =
     andThen (lift_res (parseReference (orasParse lib) ref)) (\<lambda>parsedRef.
     andThen (orasCopy lib (resolver c) (orasString lib parsedRef)) (\<lambda>(manifest, layers, memoryStore).
       case find isTarball (manifest # layers) of
         None \<Rightarrow> throw (Msg ''could not load config with one of mediatypes'')
       | Some d \<Rightarrow>
           andThen (wrapping ''unable to retrieve blob with digest'' (orasFetch lib memoryStore d)) (\<lambda>dataReader.
           andThen (openTarball lib d dataReader) (\<lambda>r. ret (r, closeReader lib dataReader)))))"
  by (simp add: Pull_def Let_def case_prod_unfold)

lemma Pull_opens:
  assumes "Pull lib c ref e = (Inr (items, close), e')"
  shows "\<exists>p m ls st e1 d b e2. parseReference (orasParse lib) ref = Inr p \<and>
    orasCopy lib (resolver c) (orasString lib p) e = (Inr (m, ls, st), e1) \<and>
    find isTarball (m # ls) = Some d \<and> orasFetch lib st d e1 = (Inr b, e2) \<and> close = closeReader lib b \<and>
    (if MediaType d = MediaTypeImageLayer then items = tarItems lib b \<and> e' = e2
     else MediaType d = MediaTypeImageLayerGzip \<and> (\<exists>g. gzipNewReader lib b e2 = (Inr g, e') \<and> items = tarItems lib g))"
proof -
  obtain p m ls st e1 d b e2 where *: "parseReference (orasParse lib) ref = Inr p"
    "orasCopy lib (resolver c) (orasString lib p) e = (Inr (m, ls, st), e1)" "find isTarball (m # ls) = Some d"
    "orasFetch lib st d e1 = (Inr b, e2)" "openTarball lib d b e2 = (Inr items, e')" "close = closeReader lib b"
    using assms unfolding Pull_eq by (auto simp: io_iff simp del: find.simps split: option.splits)
  have "isTarball d" using *(3) unfolding find_Some_iff by blast
  then have "if MediaType d = MediaTypeImageLayer then items = tarItems lib b \<and> e' = e2
     else MediaType d = MediaTypeImageLayerGzip \<and> (\<exists>g. gzipNewReader lib b e2 = (Inr g, e') \<and> items = tarItems lib g)"
    using *(5) by (auto simp: openTarball_def isTarball_def io_iff split: if_splits sum.splits)
  with * show ?thesis by blast
qed


text \<open>A registry with one artifact of two layers; the environment counts the open readers.\<close>

definition sampleLib :: "(nat, nat, string, unit, string) orasLib" where
  "sampleLib =
     \<lparr>orasParse = Inr, orasString = id,
      orasCopy = (\<lambda>r ref. ret (\<lparr>MediaType = ''application/vnd.oci.image.manifest.v1+json'', Digest = ''m''\<rparr>,
        [\<lparr>MediaType = ''text/plain'', Digest = ''t''\<rparr>, \<lparr>MediaType = MediaTypeImageLayerGzip, Digest = ''l''\<rparr>], ())),
      orasFetch = (\<lambda>st d n. (Inr (Digest d), Suc n)), closeReader = (\<lambda>b n. (Inr (), n - 1)),
      gzipNewReader = ret, tarItems = (\<lambda>b. [TarEntry ''certs'' True (Inr []), TarEntry ''ca.crt'' False (Inr b)]),
      multierrCombine = (\<lambda>a b. a)\<rparr>"


end
