(* ===== verification/Source_Facts.thy ===== *)
theory Source_Facts
  imports Source Registry_Facts
begin

text \<open>
  The certificate sources: the source expressions that are accepted, the files each source returns, and
  that a pulled artifact is closed.
\<close>

section \<open>Source expressions\<close>

lemma not_isAlnum_colon [simp]: "\<not> isAlnum CHR '':''"
  by (simp add: isAlnum_def between_def)

lemma getSource_iff:
  "getSource src = (n, c) \<and> n \<noteq> [] \<longleftrightarrow>
     src = n @ ''::'' @ c \<and> n \<noteq> [] \<and> list_all isAlnum n \<and> c \<noteq> [] \<and> CHR 0x0A \<notin> set c"
proof
  assume l: "getSource src = (n, c) \<and> n \<noteq> []"
  then have "n = takeWhile isAlnum src" "c = drop 2 (dropWhile isAlnum src)" "hasPrefix (dropWhile isAlnum src) ''::''"
    "c \<noteq> []" "CHR 0x0A \<notin> set c"
    by (auto simp: getSource_def Let_def split: if_splits)
  moreover have "dropWhile isAlnum src = ''::'' @ drop 2 (dropWhile isAlnum src)"
    using calculation(3) by (auto simp: hasPrefix_iff)
  ultimately show "src = n @ ''::'' @ c \<and> n \<noteq> [] \<and> list_all isAlnum n \<and> c \<noteq> [] \<and> CHR 0x0A \<notin> set c"
    using l by (metis list_all_iff set_takeWhileD takeWhile_dropWhile_id)
next
  assume r: "src = n @ ''::'' @ c \<and> n \<noteq> [] \<and> list_all isAlnum n \<and> c \<noteq> [] \<and> CHR 0x0A \<notin> set c"
  then have "takeWhile isAlnum src = n" "dropWhile isAlnum src = ''::'' @ c"
    by (auto simp: list_all_iff)
  with r show "getSource src = (n, c) \<and> n \<noteq> []"
    by (simp add: getSource_def hasPrefix_def)
qed

text \<open>
  \<open>getSource\<close> decides the regular expression of a source: it splits \<open>n::c\<close> into its two groups
  exactly when \<open>n\<close> is a non-empty word of letters and digits and \<open>c\<close> is a non-empty text on one line, and
  gives two empty strings for every other text.
\<close>

theorem getSource_matches:
  "getSource src = (n, c) \<and> n \<noteq> [] \<longleftrightarrow>
     src = n @ ''::'' @ c \<and> n \<noteq> [] \<and> list_all isAlnum n \<and> c \<noteq> [] \<and> CHR 0x0A \<notin> set c"
  by (rule getSource_iff)

lemma split_two:
  "length (splitc c s) = 2 \<longleftrightarrow> (\<exists>a b. s = a @ c # b \<and> c \<notin> set a \<and> c \<notin> set b)"
proof
  assume "length (splitc c s) = 2"
  then obtain a b where ab: "splitc c s = [a, b]" by (auto simp: length_Suc_conv numeral_2_eq_2)
  then have "s = joinc c [a, b]" "c \<notin> set a" "c \<notin> set b"
    using splitc_no_sep [of _ c s] joinc_splitc [of c s] by auto
  then show "\<exists>a b. s = a @ c # b \<and> c \<notin> set a \<and> c \<notin> set b" by auto
next
  assume "\<exists>a b. s = a @ c # b \<and> c \<notin> set a \<and> c \<notin> set b"
  then show "length (splitc c s) = 2" by (auto simp: splitc_append_sep splitc_single)
qed

text \<open>
  C33. A config map source is made from exactly the expressions \<^verbatim>\<open>configmap::namespace/name\<close> with one slash;
  the source reads that object with the client made from the REST configuration.
\<close>

theorem newSource_configmap:
  fixes s :: "'e objectSource" and parseNamed :: "string \<Rightarrow> goerr + 'n"
  shows "newSource parseNamed newForConfig src restCfg = Inr (configmapSource s) \<longleftrightarrow>
     (\<exists>ns nm c. src = ''configmap::'' @ ns @ ''/'' @ nm \<and> sep \<notin> set ns \<and> sep \<notin> set nm \<and>
        CHR 0x0A \<notin> set (ns @ nm) \<and> newForConfig restCfg = Inr c \<and>
        s = \<lparr>srcNamespace = ns, srcName = nm, kc = Some c\<rparr>)"
    (is "_ \<longleftrightarrow> ?source")
proof -
  obtain n cfg where g: "getSource src = (n, cfg)" by fastforce
  have k: "newSource parseNamed newForConfig src restCfg = Inr (configmapSource s) \<longleftrightarrow>
      n = ''configmap'' \<and> length (splitc sep cfg) = 2 \<and> (\<exists>c. newForConfig restCfg = Inr c \<and>
        s = \<lparr>srcNamespace = splitc sep cfg ! 0, srcName = splitc sep cfg ! 1, kc = Some c\<rparr>)"
    (is "_ \<longleftrightarrow> ?made")
  proof -
    consider "n = ''test''" | "n = ''configmap''" | "n = ''secret''" | "n = ''oci''"
      | "mget (getters parseNamed :: (string \<Rightarrow> goerr + ('e, 'n) Source) gomap) n = None"
      by (cases "mget (getters parseNamed :: (string \<Rightarrow> goerr + ('e, 'n) Source) gomap) n")
         (auto simp: getters_def split: if_splits)
    then show ?thesis
    proof cases
      case 2
      show ?thesis
        by (simp add: newSource_def g 2 getters_def newConfigmapSource_def Let_def split: sum.splits) blast
    next
      case 5
      then show ?thesis by (auto simp: newSource_def g getters_def)
    qed (simp_all add: newSource_def g getters_def newTestSource_def newSecretSource_def newOCISource_def Let_def split: sum.splits, auto)
  qed
  show ?thesis
  proof
    assume "newSource parseNamed newForConfig src restCfg = Inr (configmapSource s)"
    then obtain a b c where "n = ''configmap''" "cfg = a @ sep # b" "sep \<notin> set a" "sep \<notin> set b"
      "newForConfig restCfg = Inr c" "s = \<lparr>srcNamespace = splitc sep cfg ! 0, srcName = splitc sep cfg ! 1, kc = Some c\<rparr>"
      unfolding k split_two by blast
    with g getSource_iff [of src n cfg] show ?source
      by (intro exI [of _ a] exI [of _ b] exI [of _ c]) (simp add: splitc_append_sep splitc_single)
  next
    assume ?source
    then obtain ns nm c where o: "src = ''configmap'' @ ''::'' @ ns @ sep # nm" "sep \<notin> set ns" "sep \<notin> set nm"
      "CHR 0x0A \<notin> set (ns @ nm)" "newForConfig restCfg = Inr c" "s = \<lparr>srcNamespace = ns, srcName = nm, kc = Some c\<rparr>"
      by auto
    then have "getSource src = (''configmap'', ns @ sep # nm)"
      using getSource_iff [of src "''configmap''" "ns @ sep # nm"] by (simp add: isAlnum_def between_def)
    with g o show "newSource parseNamed newForConfig src restCfg = Inr (configmapSource s)"
      unfolding k by (simp add: splitc_append_sep splitc_single)
  qed
qed

section \<open>Files\<close>

lemma copyInto_get: "mget (copyInto m fs) k = (case map_of (rev m) k of None \<Rightarrow> mget fs k | Some v \<Rightarrow> Some v)"
  by (induction m arbitrary: fs) (auto simp: copyInto_def map_add_def split: option.splits)

lemma copyInto_map: "distinct (mkeys m) \<Longrightarrow> map_of (copyInto m fs) = map_of fs ++ map_of m"
  using map_of_inject_set [of "rev m" m] by (auto simp: fun_eq_iff copyInto_get map_add_def rev_map [symmetric])

text \<open>
  The files of a config map: its data and its binary data, the binary data where both have a key;
  nothing else. Reading the object is the only effect.
\<close>

theorem configmapGetFiles_content:
  assumes "kc s = Some c" "getConfigMap c (srcNamespace s) (srcName s) e = (Inr cm, e')"
    and "distinct (mkeys (cmData cm))" "distinct (mkeys (cmBinaryData cm))"
  shows "\<exists>fls. configmapGetFiles s e = (Inr fls, e') \<and> map_of fls = map_of (cmData cm) ++ map_of (cmBinaryData cm)"
  using assms by (auto simp: configmapGetFiles_def andThen_def wrapping_def attempt_def ret_def copyInto_map)

definition sampleKube :: "nat KubernetesClient" where
  "sampleKube =
     \<lparr>getConfigMap = (\<lambda>ns n reads. (Inr \<lparr>cmData = [(''a'', ''1''), (''b'', ''2'')], cmBinaryData = [(''a'', ''3'')]\<rparr>, Suc reads)),
      getSecret = (\<lambda>ns n. throw (Msg ''secrets not found''))\<rparr>"

theorem configmapGetFiles_content_witness:
  "\<exists>fls. configmapGetFiles \<lparr>srcNamespace = ''kube-system'', srcName = ''ca-certs'', kc = Some sampleKube\<rparr> 0 = (Inr fls, 1) \<and>
     map_of fls ''a'' = Some ''3'' \<and> map_of fls ''b'' = Some ''2'' \<and> map_of fls ''c'' = None"
  using configmapGetFiles_content
    [of "\<lparr>srcNamespace = ''kube-system'', srcName = ''ca-certs'', kc = Some sampleKube\<rparr>" sampleKube 0
      "\<lparr>cmData = [(''a'', ''1''), (''b'', ''2'')], cmBinaryData = [(''a'', ''3'')]\<rparr>" 1]
  by (auto simp: sampleKube_def)

text \<open>The regular files of a tarball that can be read, in its order.\<close>

fun tarFiles :: "tarItem list \<Rightarrow> string gomap" where
  "tarFiles (TarEntry name False (Inr content) # items) = (name, content) # tarFiles items"
| "tarFiles (_ # items) = tarFiles items"
| "tarFiles [] = []"

fun tarItem_ok :: "tarItem \<Rightarrow> bool" where
  "tarItem_ok (TarEntry name isDir body) \<longleftrightarrow> isDir \<or> isl body = False"
| "tarItem_ok (TarError err) \<longleftrightarrow> False"

lemma readTar_spec:
  "(list_all tarItem_ok items \<longrightarrow> readTar items fs = Inr (copyInto (tarFiles items) fs)) \<and>
   (\<not> list_all tarItem_ok items \<longrightarrow> (\<exists>err. readTar items fs = Inl (Wrap ''failed to read tarball'' err)))"
proof (induction items fs rule: readTar.induct)
  case (3 name isDir body items fs)
  then show ?case by (cases body; cases isDir) (auto simp: copyInto_def)
qed (auto simp: copyInto_def)

section \<open>Artifacts from a registry\<close>

text \<open>
  What the code relies on of the registry libraries: fetching a blob opens one reader, closing closes one,
  and nothing else opens or closes a reader (\<open>opened\<close> counts the open ones).
\<close>

definition reader_laws ::
  "('e \<Rightarrow> nat) \<Rightarrow> ('e, 'r, 'p, 's, 'b) orasLib \<Rightarrow> ('e, ('e, 'r) authClient) io \<Rightarrow> bool" where
  "reader_laws opened lib newAuth \<longleftrightarrow>
     (\<forall>e r e'. newAuth e = (r, e') \<longrightarrow> opened e' = opened e) \<and>
     (\<forall>rs ref e r e'. orasCopy lib rs ref e = (r, e') \<longrightarrow> opened e' = opened e) \<and>
     (\<forall>st d e b e'. orasFetch lib st d e = (Inr b, e') \<longrightarrow> opened e' = Suc (opened e)) \<and>
     (\<forall>st d e err e'. orasFetch lib st d e = (Inl err, e') \<longrightarrow> opened e' = opened e) \<and>
     (\<forall>b e r e'. gzipNewReader lib b e = (r, e') \<longrightarrow> opened e' = opened e) \<and>
     (\<forall>b e r e'. closeReader lib b e = (r, e') \<longrightarrow> opened e' = opened e - 1)"

lemma Pull_opened:
  assumes "reader_laws opened lib newAuth" "Pull lib c ref e = (r, e')"
  shows "case r of Inl _ \<Rightarrow> opened e' = opened e
    | Inr (items, close) \<Rightarrow> opened e' = Suc (opened e) \<and> (\<exists>b. close = closeReader lib b)"
proof (cases r)
  case (Inr ic)
  obtain items close where ic: "ic = (items, close)" by fastforce
  show ?thesis
    using Pull_opens [of lib c ref e items close e'] assms unfolding Inr ic
    by (fastforce simp: reader_laws_def split: if_splits)
next
  case (Inl err)
  have "opened e' = opened e1 - 1" if "openTarball lib d b e1 = (Inl x, e')" for d b e1 x
    using assms(1) that by (auto simp: openTarball_def io_iff reader_laws_def split: if_splits sum.splits)
  then show ?thesis
    using assms unfolding Inl Pull_eq
    by (auto simp: io_iff reader_laws_def simp del: find.simps split: option.splits)
qed


definition anonymousAuth :: "(nat, nat) authClient" where
  "anonymousAuth =
     \<lparr>loginWithOpts = (\<lambda>s. ret ()), authLogout = (\<lambda>host. ret ()), resolverWithOpts = (\<lambda>h. ret 7), dockerCredential = None\<rparr>"


end
