(* ===== verification/App.thy ===== *)
theory App
  imports Driver_Stores Source_Facts
begin

text \<open>
  Model of \<^verbatim>\<open>cmd\<close> and of the constants of \<^verbatim>\<open>pkg/apis/v1alpha1\<close> and \<^verbatim>\<open>pkg/internal/api\<close>: the command line of the
  driver and how its parts are put together at start-up. The record \<open>platform\<close> holds what the command
  takes from outside the repository.
\<close>

section \<open>Constants\<close>

definition apiDriverName :: string where
  "apiDriverName = ''trusted-ca.csi.labs.d2iq.com''"

definition FSGroupKey :: string where
  "FSGroupKey = apiDriverName @ ''/fs-group''"

definition K8sVolumeContextKeyPodName :: string where
  "K8sVolumeContextKeyPodName = ''csi.storage.k8s.io/pod.name''"

definition K8sVolumeContextKeyPodNamespace :: string where
  "K8sVolumeContextKeyPodNamespace = ''csi.storage.k8s.io/pod.namespace''"

definition K8sVolumeContextKeyPodUID :: string where
  "K8sVolumeContextKeyPodUID = ''csi.storage.k8s.io/pod.uid''"

definition NodeIDHashLabelKey :: string where
  "NodeIDHashLabelKey = apiDriverName @ ''/node-id-hash''"

definition VolumeIDHashLabelKey :: string where
  "VolumeIDHashLabelKey = apiDriverName @ ''/volume-id-hash''"

section \<open>Options\<close>

text \<open>
  \<^verbatim>\<open>options.Options\<close>; \<open>'k\<close> is the type of the Kubernetes flags and \<open>'c\<close> of the REST configuration, \<open>None\<close> is
  \<^verbatim>\<open>nil\<close>. The shared logger only writes log lines and has no field.
\<close>

record ('k, 'c) appOptions =
  logLevel :: string
  kubeConfigFlags :: "'k option"
  appNodeID :: string
  appDriverName :: string
  appEndpoint :: string
  appDataRoot :: string
  RestConfig :: "'c option"
  TrustedCertsSource :: string

definition newOptions :: "('k, 'c) appOptions" where
  "newOptions =
     \<lparr>logLevel = [], kubeConfigFlags = None, appNodeID = [], appDriverName = [], appEndpoint = [], appDataRoot = [],
      RestConfig = None, TrustedCertsSource = []\<rparr>"

text \<open>A string flag: its name, its shorthand letter, its default, and its text. The variable of a flag is set to the default.\<close>

record pflag =
  flagName :: string
  shorthand :: string
  defValue :: string
  usage :: string

definition appFlags :: "pflag list" where
  "appFlags =
     [\<lparr>flagName = ''log-level'', shorthand = ''v'', defValue = ''1'', usage = ''Log level (1-5).''\<rparr>,
      \<lparr>flagName = ''node-id'', shorthand = [], defValue = [],
       usage = ''The name of the node which is hosting this driver instance.''\<rparr>,
      \<lparr>flagName = ''endpoint'', shorthand = [], defValue = [],
       usage = ''The endpoint that the driver will connect to the Kubelet.''\<rparr>,
      \<lparr>flagName = ''driver-name'', shorthand = [], defValue = apiDriverName,
       usage = ''The name of this CSI driver which will be shared with the Kubelet.''\<rparr>,
      \<lparr>flagName = ''data-root'', shorthand = [], defValue = ''/csi-data-dir'',
       usage = ''The directory that the driver will write and mount volumes from.''\<rparr>,
      \<lparr>flagName = ''trusted-certs-source'', shorthand = [], defValue = ''configmap::kube-system/ca-certs'',
       usage = ''The source for the trusted certificates.''\<rparr>]"

text \<open>Setting a flag writes the variable it was bound to.\<close>

definition setFlag :: "string \<Rightarrow> string \<Rightarrow> ('k, 'c) appOptions \<Rightarrow> ('k, 'c) appOptions" where
  "setFlag name v opts =
     (if name = ''log-level'' then opts\<lparr>logLevel := v\<rparr>
      else if name = ''node-id'' then opts\<lparr>appNodeID := v\<rparr>
      else if name = ''endpoint'' then opts\<lparr>appEndpoint := v\<rparr>
      else if name = ''driver-name'' then opts\<lparr>appDriverName := v\<rparr>
      else if name = ''data-root'' then opts\<lparr>appDataRoot := v\<rparr>
      else if name = ''trusted-certs-source'' then opts\<lparr>TrustedCertsSource := v\<rparr>
      else opts)"

definition addAppFlags :: "('k, 'c) appOptions \<Rightarrow> pflag list \<times> ('k, 'c) appOptions" where
  "addAppFlags opts = (appFlags, fold (\<lambda>fl. setFlag (flagName fl) (defValue fl)) appFlags opts)"

text \<open>
  The methods of a cobra command that the options call, on commands of type \<open>'m\<close>, and the Kubernetes
  flags. \<open>flagSetOrder\<close> is the order in which the run-time system enumerates the map of named flag sets. The
  usage and help functions only print.
\<close>

record ('m, 'k) cobra =
  MarkPersistentFlagRequired :: "string \<Rightarrow> 'm \<Rightarrow> (goerr + unit) \<times> 'm"
  MarkFlagRequired :: "string \<Rightarrow> 'm \<Rightarrow> (goerr + unit) \<times> 'm"
  AddFlagSet :: "pflag list \<Rightarrow> 'm \<Rightarrow> 'm"
  NewConfigFlags :: "bool \<Rightarrow> 'k"
  KubeFlagSet :: "'k \<Rightarrow> pflag list"
  flagSetOrder :: "pflag list list \<Rightarrow> pflag list list"

definition addFlags :: "('m, 'k) cobra \<Rightarrow> ('k, 'c) appOptions \<Rightarrow> 'm \<Rightarrow> ('k, 'c) appOptions \<times> 'm" where
  "addFlags cb opts cmd =
     (let (app, o1) = addAppFlags opts;
          k = NewConfigFlags cb True;
          o2 = o1\<lparr>kubeConfigFlags := Some k\<rparr>;
          cmd1 = snd (MarkPersistentFlagRequired cb ''node-id'' cmd);
          cmd2 = snd (MarkPersistentFlagRequired cb ''endpoint'' cmd1);
          cmd3 = snd (MarkFlagRequired cb ''trusted-certs-source'' cmd2)
      in (o2, fold (AddFlagSet cb) (flagSetOrder cb [app, KubeFlagSet cb k]) cmd3))"

definition Prepare :: "('m, 'k) cobra \<Rightarrow> ('k, 'c) appOptions \<Rightarrow> 'm \<Rightarrow> ('k, 'c) appOptions \<times> 'm" where
  "Prepare cb opts cmd = addFlags cb opts cmd"

text \<open>
  \<open>toRESTConfig\<close> stands for the method of the Kubernetes flags, which fails on a nil receiver as it reads
  its fields. The verbosity is kept by the log library.
\<close>

definition Complete :: "('k option \<Rightarrow> goerr + 'c) \<Rightarrow> ('k, 'c) appOptions \<Rightarrow> goerr + ('k, 'c) appOptions" where
  "Complete toRESTConfig opts =
     (case toRESTConfig (kubeConfigFlags opts) of
        Inl err \<Rightarrow> Inl (Msg ''failed to build kubernetes rest config'')
      | Inr c \<Rightarrow> Inr (opts\<lparr>RestConfig := Some c\<rparr>))"

section \<open>The command\<close>

text \<open>
  What the command takes from outside the repository: \<^verbatim>\<open>mount.New("")\<close> for the tmpfs of the store
  and for the target paths, \<^verbatim>\<open>os.MkdirAll\<close> for the target paths, \<^verbatim>\<open>net.Listen\<close>, and the parameters of the
  storage backend, of the manager and of the sources.
\<close>

record ('h, 'c, 'n, 'r, 'p, 's, 'b) platform =
  storeMounter :: "world mounter"
  targetMounter :: "'h mounter"
  targetMkdirAll :: "string \<Rightarrow> mode \<Rightarrow> ('h, unit) io"
  netListen :: "string \<Rightarrow> string \<Rightarrow> unit os"
  platEncode :: "string \<Rightarrow> string"
  platEqual :: "string gomap \<Rightarrow> string gomap \<Rightarrow> bool"
  platRehash :: "string \<Rightarrow> unit os"
  platParseNamed :: "string \<Rightarrow> goerr + 'n"
  platNewForConfig :: "'c option \<Rightarrow> goerr + 'h KubernetesClient"
  platOras :: "('h, 'r, 'p, 's, 'b) orasLib"
  platNewAuth :: "('h, ('h, 'r) authClient) io"
  platNewResolver :: "bool \<Rightarrow> 'r"
  platNameString :: "'n \<Rightarrow> string"

abbreviation platGetFiles :: "('h, 'c, 'n, 'r, 'p, 's, 'b) platform \<Rightarrow> ('h, 'n) Source \<Rightarrow> Metadata \<Rightarrow> ('h, string gomap) io" where
  "platGetFiles pl \<equiv> GetFiles (platOras pl) (platNewAuth pl) (platNewResolver pl) (platNameString pl)"

definition managerOptions ::
  "('h, 'c, 'n, 'r, 'p, 's, 'b) platform \<Rightarrow> ('k, 'c) appOptions \<Rightarrow> Filesystem \<Rightarrow> ('h, 'n) Source \<Rightarrow> (world \<times> 'h) Options" where
  "managerOptions pl opts f certSource =
     \<lparr>optMetadataReader = Some \<lparr>readerReadMetadata = (\<lambda>v. on_fst (ReadMetadata f v)), readerListVolumes = on_fst (ListVolumes f)\<rparr>,
      optLog = Some (), optNodeID = appNodeID opts,
      optGetCertificates = Some (\<lambda>meta. on_snd (platGetFiles pl certSource meta)),
      optWriteCertificates = Some (\<lambda>meta files. on_fst (WriteFiles (platRehash pl) f meta files))\<rparr>"

definition appDriverOptions ::
  "('h, 'c, 'n, 'r, 'p, 's, 'b) platform \<Rightarrow> ('k, 'c) appOptions \<Rightarrow> Filesystem \<Rightarrow> (world \<times> 'h) driverOptions" where
  "appDriverOptions pl opts f =
     \<lparr>DriverName = appDriverName opts, DriverVersion = ''v0.3.0'', NodeID = appNodeID opts,
      Store = \<lparr>sPathForVolume = PathForVolume f, sRemoveVolume = (\<lambda>v. on_fst (RemoveVolume f v)),
               sRegisterMetadata = (\<lambda>m. on_fst (RegisterMetadata (platEqual pl) f m))\<rparr>,
      Mounter = None, ContinueOnNotReady = False\<rparr>"

text \<open>The part of \<^verbatim>\<open>RunE\<close> that builds the driver: the manager and the server.\<close>

definition buildDriver ::
  "('h, 'c, 'n, 'r, 'p, 's, 'b) platform \<Rightarrow> ('k, 'c) appOptions \<Rightarrow>
   (world \<times> 'h, (world \<times> 'h) Manager \<times> (world \<times> 'h) GRPCServer) io" where
  "buildDriver pl opts =
     andThen (wrapping ''failed to setup filesystem'' (on_fst (NewFilesystem (storeMounter pl) (appDataRoot opts)))) (\<lambda>st.
       let f = st\<lparr>FSGroupVolumeAttributeKey := FSGroupKey\<rparr>
       in andThen (wrapping ''failed to create cert source''
              (lift_res (newSource (platParseNamed pl) (platNewForConfig pl) (TrustedCertsSource opts) (RestConfig opts)))) (\<lambda>certSource.
          andThen (NewManagerOrDie (platEncode pl) (managerOptions pl opts f certSource)) (\<lambda>m.
          attempt (on_fst (New (netListen pl) (hostMounter (targetMounter pl)) (\<lambda>p md. on_snd (targetMkdirAll pl p md))
              (appEndpoint opts) (appDriverOptions pl opts f))) (\<lambda>r. case r of
                Inl err \<Rightarrow> throw (Msg ''failed to setup driver'')
              | Inr d \<Rightarrow> ret (m, d)))))"

text \<open>\<open>serve\<close> stands for serving requests on the listener until the server is stopped, on the manager and the environment.\<close>

definition RunE ::
  "('h, 'c, 'n, 'r, 'p, 's, 'b) platform \<Rightarrow> ((world \<times> 'h) GRPCServer \<Rightarrow> (world \<times> 'h, unit) mgr) \<Rightarrow> ('k, 'c) appOptions \<Rightarrow>
   (world \<times> 'h, unit) io" where
  "RunE pl serve opts =
     andThen (buildDriver pl opts) (\<lambda>(m, d) e.
       case serve d (m, e) of
         (Inl err, (_, e')) \<Rightarrow> (Inl (Msg ''failed running driver''), e')
       | (Inr _, (_, e')) \<Rightarrow> (Inr (), e'))"

text \<open>The hooks of the command run in this order; \<^verbatim>\<open>main\<close> exits with status 1 when the
  command returns an error, the run-time system with 2 on a panic.\<close>

definition runCommand ::
  "('k option \<Rightarrow> goerr + 'c) \<Rightarrow> ('h, 'c, 'n, 'r, 'p, 's, 'b) platform \<Rightarrow>
   ((world \<times> 'h) GRPCServer \<Rightarrow> (world \<times> 'h, unit) mgr) \<Rightarrow> ('k, 'c) appOptions \<Rightarrow> (world \<times> 'h, unit) io" where
  "runCommand toRESTConfig pl serve opts = andThen (lift_res (Complete toRESTConfig opts)) (RunE pl serve)"

definition exitStatus :: "goerr + unit \<Rightarrow> nat" where
  "exitStatus r = (case r of Inl (Panic _) \<Rightarrow> 2 | Inl _ \<Rightarrow> 1 | Inr _ \<Rightarrow> 0)"

end
