(* ===== verification/Server.thy ===== *)
theory Server
  imports Driver_Interleaving App
begin

text \<open>
  The driver while it runs: \<^verbatim>\<open>Run\<close>, \<^verbatim>\<open>Stop\<close> and \<^verbatim>\<open>ForceStop\<close> of \<^verbatim>\<open>pkg/driver\<close>, and the end of \<^verbatim>\<open>RunE\<close> of \<^verbatim>\<open>cmd/app\<close>, where one goroutine
  waits for the signal and stops the server while the main one serves. The gRPC library is a record of functions on its own
  state; a call that blocks is made in one step, and a later step observes that it has returned.
\<close>

section \<open>The gRPC library\<close>

text \<open>
  \<open>grpcStart i\<close> is a remote call with the number \<open>i\<close> that arrives, \<open>None\<close> when it is refused; \<open>grpcFinish i\<close> is the return of its
  handler; \<open>grpcAcceptFails\<close> a listener that gives an error for good.
\<close>

record 'g grpcLib =
  grpcServe :: "string \<times> string \<Rightarrow> 'g \<Rightarrow> 'g"
  grpcServeResult :: "'g \<Rightarrow> (goerr + unit) option"
  grpcGracefulStop :: "'g \<Rightarrow> 'g"
  grpcStopReturned :: "'g \<Rightarrow> bool"
  grpcStop :: "'g \<Rightarrow> 'g"
  grpcStart :: "nat \<Rightarrow> 'g \<Rightarrow> 'g option"
  grpcFinish :: "nat \<Rightarrow> 'g \<Rightarrow> 'g"
  grpcAcceptFails :: "goerr \<Rightarrow> 'g \<Rightarrow> 'g"

definition serverRun :: "'g grpcLib \<Rightarrow> 'e GRPCServer \<Rightarrow> 'g \<Rightarrow> 'g" where
  "serverRun lib s = grpcServe lib (lis s)"

definition serverStop :: "'g grpcLib \<Rightarrow> 'g \<Rightarrow> 'g" where
  "serverStop lib = grpcGracefulStop lib"

definition ForceStop :: "'g grpcLib \<Rightarrow> 'g \<Rightarrow> 'g" where
  "ForceStop lib = grpcStop lib"

text \<open>A driver is its server.\<close>

type_synonym 'e Driver = "'e GRPCServer"

definition driverRun :: "'g grpcLib \<Rightarrow> 'e Driver \<Rightarrow> 'g \<Rightarrow> 'g" where
  "driverRun lib d = serverRun lib d"

definition driverStop :: "'g grpcLib \<Rightarrow> 'g \<Rightarrow> 'g" where
  "driverStop lib = serverStop lib"

section \<open>The process\<close>

datatype mainPC = AtRun | Serving | Returned "goerr + unit"

datatype stopPC = AwaitSignal | Stopping | Stopped

text \<open>The two goroutines of \<^verbatim>\<open>RunE\<close>, the calls the server has accepted, and the state they share.\<close>

record ('g, 'e) process =
  grpc :: 'g
  calls :: "call list"
  mainAt :: mainPC
  stopAt :: stopPC
  ctxDone :: bool
  shared :: "'e Manager \<times> 'e"

definition startProcess :: "'g \<Rightarrow> 'e Manager \<times> 'e \<Rightarrow> ('g, 'e) process" where
  "startProcess g s = \<lparr>grpc = g, calls = [], mainAt = AtRun, stopAt = AwaitSignal, ctxDone = False, shared = s\<rparr>"

datatype event = Signal | MainStep | StopperStep | Arrive nodeRequest | CallStep nat | AcceptFails goerr

definition mainStep :: "'g grpcLib \<Rightarrow> 'e GRPCServer \<Rightarrow> ('g, 'e) process \<Rightarrow> ('g, 'e) process option" where
  "mainStep lib d p =
     (case mainAt p of
        AtRun \<Rightarrow> Some (p\<lparr>grpc := driverRun lib d (grpc p), mainAt := Serving\<rparr>)
      | Serving \<Rightarrow>
          (case grpcServeResult lib (grpc p) of
             None \<Rightarrow> None
           | Some (Inl err) \<Rightarrow> Some (p\<lparr>mainAt := Returned (Inl (Msg ''failed running driver''))\<rparr>)
           | Some (Inr _) \<Rightarrow> Some (p\<lparr>mainAt := Returned (Inr ())\<rparr>))
      | Returned _ \<Rightarrow> None)"

definition stopperStep :: "'g grpcLib \<Rightarrow> ('g, 'e) process \<Rightarrow> ('g, 'e) process option" where
  "stopperStep lib p =
     (case stopAt p of
        AwaitSignal \<Rightarrow> if ctxDone p then Some (p\<lparr>grpc := driverStop lib (grpc p), stopAt := Stopping\<rparr>) else None
      | Stopping \<Rightarrow> if grpcStopReturned lib (grpc p) then Some (p\<lparr>stopAt := Stopped\<rparr>) else None
      | Stopped \<Rightarrow> None)"

text \<open>A call that is accepted runs its handler; the library learns when the handler has returned.\<close>

definition arrive :: "'g grpcLib \<Rightarrow> nodeRequest \<Rightarrow> ('g, 'e) process \<Rightarrow> ('g, 'e) process option" where
  "arrive lib q p = map_option (\<lambda>g. p\<lparr>grpc := g, calls := calls p @ [startCall q]\<rparr>) (grpcStart lib (length (calls p)) (grpc p))"

definition handlerStep :: "'g grpcLib \<Rightarrow> 'e nodeServer \<Rightarrow> nat \<Rightarrow> ('g, 'e) process \<Rightarrow> ('g, 'e) process option" where
  "handlerStep lib ns i p =
     (if i < length (calls p) \<and> callResult (calls p ! i) = None
      then case callStep ns (calls p ! i, shared p) of (c, s') \<Rightarrow>
        Some (p\<lparr>calls := (calls p)[i := c], shared := s',
          grpc := if callResult c = None then grpc p else grpcFinish lib i (grpc p)\<rparr>)
      else None)"

text \<open>
  The signal that cancels the context is the first one; a second one makes the signal library exit the process at once. When
  \<^verbatim>\<open>RunE\<close> has returned the process ends, whatever still runs.
\<close>

fun procStep :: "'g grpcLib \<Rightarrow> 'e GRPCServer \<Rightarrow> event \<Rightarrow> ('g, 'e) process \<Rightarrow> ('g, 'e) process option" where
  "procStep lib d ev p =
     (case mainAt p of
        Returned _ \<Rightarrow> None
      | _ \<Rightarrow>
        (case ev of
           Signal \<Rightarrow> if ctxDone p then None else Some (p\<lparr>ctxDone := True\<rparr>)
         | MainStep \<Rightarrow> mainStep lib d p
         | StopperStep \<Rightarrow> stopperStep lib p
         | Arrive q \<Rightarrow> (case srvNode d of None \<Rightarrow> None | Some ns \<Rightarrow> arrive lib q p)
         | CallStep i \<Rightarrow> (case srvNode d of None \<Rightarrow> None | Some ns \<Rightarrow> handlerStep lib ns i p)
         | AcceptFails err \<Rightarrow> Some (p\<lparr>grpc := grpcAcceptFails lib err (grpc p)\<rparr>)))"

fun runEvents :: "'g grpcLib \<Rightarrow> 'e GRPCServer \<Rightarrow> event list \<Rightarrow> ('g, 'e) process \<Rightarrow> ('g, 'e) process option" where
  "runEvents lib d [] p = Some p"
| "runEvents lib d (ev # evs) p = (case procStep lib d ev p of None \<Rightarrow> None | Some p' \<Rightarrow> runEvents lib d evs p')"

text \<open>The processes that events allowed by \<open>allowed\<close> lead to.\<close>

inductive proc_reach ::
  "'g grpcLib \<Rightarrow> 'e GRPCServer \<Rightarrow> (event \<Rightarrow> ('g, 'e) process \<Rightarrow> bool) \<Rightarrow> ('g, 'e) process \<Rightarrow> ('g, 'e) process \<Rightarrow> bool"
  for lib d allowed p0 where
  proc_start: "proc_reach lib d allowed p0 p0"
| proc_step: "proc_reach lib d allowed p0 p \<Longrightarrow> allowed ev p \<Longrightarrow> procStep lib d ev p = Some p' \<Longrightarrow> proc_reach lib d allowed p0 p'"

text \<open>
  How the kubelet calls the driver: with valid requests, and with one call at a time for a volume and a target path.
\<close>

fun kubelet_ok :: "(string \<Rightarrow> bool) \<Rightarrow> event \<Rightarrow> ('g, 'e) process \<Rightarrow> bool" where
  "kubelet_ok valid_id (Arrive q) p \<longleftrightarrow> request_ok valid_id q \<and>
     (\<forall>c \<in> set (calls p). callResult c = None \<longrightarrow> reqVolume (callRequest c) \<noteq> reqVolume q \<and> reqTarget (callRequest c) \<noteq> reqTarget q)"
| "kubelet_ok valid_id _ p \<longleftrightarrow> True"

section \<open>What is relied on of the library\<close>

text \<open>
  The documentation of \<^verbatim>\<open>grpc.Server\<close> in terms of what can be observed: \<^verbatim>\<open>Serve\<close> on a server that was stopped fails with
  \<^verbatim>\<open>ErrServerStopped\<close>; \<^verbatim>\<open>GracefulStop\<close> refuses new calls and waits for those in progress; \<^verbatim>\<open>Serve\<close> returns nil when that is
  done, and an error when accepting fails.
\<close>

record grpcView =
  vServing :: bool
  vStopping :: bool
  vPending :: "nat set"
  vResult :: "(goerr + unit) option"

definition ErrServerStopped :: goerr where
  "ErrServerStopped = Msg ''grpc: the server has been stopped''"

definition freshView :: grpcView where
  "freshView = \<lparr>vServing = False, vStopping = False, vPending = {}, vResult = None\<rparr>"

text \<open>A server that was stopped while it served is done when no call is in progress.\<close>

definition settle :: "grpcView \<Rightarrow> grpcView" where
  "settle v = (if vServing v \<and> vStopping v \<and> vPending v = {} \<and> vResult v = None then v\<lparr>vResult := Some (Inr ())\<rparr> else v)"

definition grpc_ok :: "'g grpcLib \<Rightarrow> ('g \<Rightarrow> grpcView) \<Rightarrow> bool" where
  "grpc_ok lib view \<longleftrightarrow>
     (\<forall>g. grpcServeResult lib g = vResult (view g)) \<and>
     (\<forall>a g. \<not> vServing (view g) \<longrightarrow> view (grpcServe lib a g) =
        (if vStopping (view g) then (view g)\<lparr>vResult := Some (Inl ErrServerStopped)\<rparr> else (view g)\<lparr>vServing := True\<rparr>)) \<and>
     (\<forall>g. view (grpcGracefulStop lib g) = settle ((view g)\<lparr>vStopping := True\<rparr>)) \<and>
     (\<forall>i g g'. grpcStart lib i g = Some g' \<longrightarrow> vServing (view g) \<and> \<not> vStopping (view g) \<and> vResult (view g) = None \<and>
        view g' = (view g)\<lparr>vPending := insert i (vPending (view g))\<rparr>) \<and>
     (\<forall>i g. view (grpcFinish lib i g) = settle ((view g)\<lparr>vPending := vPending (view g) - {i}\<rparr>)) \<and>
     (\<forall>err g. view (grpcAcceptFails lib err g) =
        (if vServing (view g) \<and> \<not> vStopping (view g) \<and> vResult (view g) = None then (view g)\<lparr>vResult := Some (Inl err)\<rparr> else view g))"

end
