(* ===== verification/Driver_Store_Facts.thy ===== *)
theory Driver_Store_Facts
  imports Driver_Stores
begin

text \<open>
  What publishing and unpublishing do on the filesystem backend, and what a restart of the driver finds
  after any sequence of calls.
\<close>

section \<open>Publishing on the sample driver\<close>

abbreviation samplePublished :: "(world \<times> string list) Manager \<times> world \<times> string list" where
  "samplePublished \<equiv> snd (NodePublishVolume sampleNode sampleRequest sampleState)"

lemma publish_sample: "fst (NodePublishVolume sampleNode sampleRequest sampleState) = Inr ()"
  by code_simp

lemma publish_sample_run:
  "NodePublishVolume sampleNode sampleRequest sampleState = (Inr (), (fst samplePublished, fst (snd samplePublished), snd (snd samplePublished)))"
  using publish_sample by (simp add: prod_eq_iff)

lemma sample_managed: "managed (fst samplePublished) ''v1''"
  using fsn.publish_volume [OF driver_st_ok [OF sample_driver] sample_requests(1) meta_ok_sample publish_sample_run]
  by (simp add: fsn.served_def sample_requests)



lemma mount_on_host:
  assumes "andThen (ensureMountTarget (nodeOn st mt mkdirAll nid) t) (\<lambda>isMnt. if isMnt then ret () else
      Mount (nsMounter (nodeOn st mt mkdirAll nid)) src t ty os) (w, h) = (Inr (), (w', h'))"
  shows "w' = w"
  using assms ensure_world [of st mt mkdirAll nid t w h]
  by (fastforce simp: io_iff nodeOn_def hostMounter_def on_snd_iff split: if_splits)





text \<open>
  After any sequence of publish and unpublish calls, whatever their outcome, the store is intact and
  every managed volume is stored; so a driver that restarts then, with a new manager on the same store,
  manages every volume that was managed.
\<close>

theorem managed_volumes_survive_restart:
  assumes "deepEqual_ok deepEqual" "host_ok mnts mt mkdirAll" "rehash_ok rehash" "source_ok mnts get"
    and "driver_ok rehash f get s0" "node_reach (nodeOn (fsStorage deepEqual f) mt mkdirAll nid) pname s0 (m, w, h)"
    and opts: "optLog opts \<noteq> None" "optNodeID opts \<noteq> []" "optGetCertificates opts \<noteq> None" "optWriteCertificates opts \<noteq> None"
      "optMetadataReader opts = Some (readerOf (ReadMetadata f) (ListVolumes f))"
  shows "fs_ok f w \<and> (\<exists>m1 w1. NewManager safeEncodeString opts w = (Inr m1, w1) \<and> (\<forall>v. managed m v \<longrightarrow> managed m1 v))"
proof -
  note ne = fs_node [OF assms(1,2), of f]
  have "node_env.st_ok (fs_ok f \<circ> fst) (fsMetas f \<circ> fst) (\<lambda>v. on_fst (ReadMetadata f v)) (on_fst (ListVolumes f)) (mnts \<circ> snd) (m, w, h)"
    by (rule node_env.reach_ok [OF ne assms(6) driver_st_ok [OF assms(1-5)]])
  then have "fs_ok f w" "\<And>v. managed m v \<Longrightarrow> fsMetas f w v \<noteq> None" by (auto simp: node_env.st_ok_def [OF ne])
  with fsb.new_manager_resumes [of f w opts safeEncodeString] opts show ?thesis by (auto simp del: not_None_eq)
qed

theorem managed_volumes_survive_restart_witness:
  "\<exists>m1 w1. NewManager id sampleOptions (fst (snd samplePublished)) = (Inr m1, w1) \<and> managed m1 ''v1''"
proof -
  have step: "nodeStep sampleNode (Publish sampleRequest) sampleState = (Inr (), samplePublished)"
    unfolding nodeStep.simps by (metis publish_sample prod.collapse)
  have "request_ok pname (Publish sampleRequest)" by (simp only: request_ok.simps sample_requests(1) meta_ok_sample simp_thms)
  from node_step [OF node_start this step]
  have "node_reach sampleNode pname sampleState (fst samplePublished, fst (snd samplePublished), snd (snd samplePublished))"
    by (simp only: prod.collapse)
  from managed_volumes_survive_restart [OF sample_driver this, of sampleOptions id] sample_managed show ?thesis
    by (auto simp: sampleOptions_def)
qed

end
