(* ===== verification/Server_Facts.thy ===== *)
theory Server_Facts
  imports Server Driver_Store_Facts
begin

text \<open>
  The life of the driver's process: the calls it has accepted when it ends, what a signal does, and that the state of the node
  service is in order at every moment.
\<close>

section \<open>Steps\<close>

lemma procStepE:
  assumes "procStep lib d ev p = Some p'"
  obtains
    (signal) "ev = Signal" "p' = p\<lparr>ctxDone := True\<rparr>"
  | (serve) "ev = MainStep" "mainAt p = AtRun" "p' = p\<lparr>grpc := grpcServe lib (lis d) (grpc p), mainAt := Serving\<rparr>"
  | (result) r where "ev = MainStep" "mainAt p = Serving" "grpcServeResult lib (grpc p) = Some r"
      "p' = p\<lparr>mainAt := Returned (case r of Inl _ \<Rightarrow> Inl (Msg ''failed running driver'') | Inr _ \<Rightarrow> Inr ())\<rparr>"
  | (stop) "ev = StopperStep" "stopAt p = AwaitSignal" "ctxDone p" "p' = p\<lparr>grpc := grpcGracefulStop lib (grpc p), stopAt := Stopping\<rparr>"
  | (stopped) "ev = StopperStep" "stopAt p = Stopping" "p' = p\<lparr>stopAt := Stopped\<rparr>"
  | (arrive) q ns g where "ev = Arrive q" "srvNode d = Some ns" "grpcStart lib (length (calls p)) (grpc p) = Some g"
      "p' = p\<lparr>grpc := g, calls := calls p @ [startCall q]\<rparr>"
  | (handler) i ns c s' where "ev = CallStep i" "srvNode d = Some ns" "i < length (calls p)" "callResult (calls p ! i) = None"
      "callStep ns (calls p ! i, shared p) = (c, s')"
      "p' = p\<lparr>calls := (calls p)[i := c], shared := s', grpc := if callResult c = None then grpc p else grpcFinish lib i (grpc p)\<rparr>"
  | (fails) err where "ev = AcceptFails err" "p' = p\<lparr>grpc := grpcAcceptFails lib err (grpc p)\<rparr>"
  using assms
  by (cases ev)
    (auto simp: mainStep_def stopperStep_def arrive_def handlerStep_def driverRun_def driverStop_def serverRun_def serverStop_def
      split: mainPC.splits stopPC.splits option.splits sum.splits if_splits prod.splits)

lemma procStep_running: "procStep lib d ev p = Some p' \<Longrightarrow> mainAt p \<noteq> Returned r"
  by (auto split: mainPC.splits)

text \<open>A reachable process is one that some sequence of events leads to.\<close>

lemma runEvents_snoc: "runEvents lib d (evs @ [ev]) p = (case runEvents lib d evs p of None \<Rightarrow> None | Some p' \<Rightarrow> procStep lib d ev p')"
  by (induction evs arbitrary: p) (auto split: option.splits)

lemma reach_runEvents: "proc_reach lib d (\<lambda>_ _. True) p0 p \<longleftrightarrow> (\<exists>evs. runEvents lib d evs p0 = Some p)"
proof
  assume "proc_reach lib d (\<lambda>_ _. True) p0 p"
  then show "\<exists>evs. runEvents lib d evs p0 = Some p"
  proof induction
    case proc_start
    show ?case by (rule exI [of _ "[]"]) simp
  next
    case (proc_step p ev p')
    then show ?case by (metis option.simps(5) runEvents_snoc)
  qed
next
  assume "\<exists>evs. runEvents lib d evs p0 = Some p"
  then obtain evs where "runEvents lib d evs p0 = Some p" by blast
  then show "proc_reach lib d (\<lambda>_ _. True) p0 p"
    by (induction evs arbitrary: p rule: rev_induct)
      (auto simp: runEvents_snoc simp del: procStep.simps split: option.splits intro: proc_start proc_step)
qed

section \<open>The server and the two goroutines\<close>

definition inProgress :: "('g, 'e) process \<Rightarrow> nat set" where
  "inProgress p = {i. i < length (calls p) \<and> callResult (calls p ! i) = None}"

definition srv_inv :: "('g \<Rightarrow> grpcView) \<Rightarrow> ('g, 'e) process \<Rightarrow> bool" where
  "srv_inv view p \<longleftrightarrow> (let v = view (grpc p) in
     vPending v = inProgress p \<and> (vStopping v \<longleftrightarrow> stopAt p \<noteq> AwaitSignal) \<and> (stopAt p \<noteq> AwaitSignal \<longrightarrow> ctxDone p) \<and>
     (vServing v \<longrightarrow> mainAt p \<noteq> AtRun) \<and> (mainAt p = AtRun \<longrightarrow> vResult v = None) \<and>
     (mainAt p = Serving \<longrightarrow> vServing v \<or> vResult v \<noteq> None) \<and>
     (vResult v = Some (Inr ()) \<longrightarrow> vServing v \<and> vStopping v \<and> vPending v = {}) \<and>
     (vServing v \<and> vStopping v \<and> vPending v = {} \<longrightarrow> vResult v \<noteq> None) \<and>
     (mainAt p = Returned (Inr ()) \<longrightarrow> vResult v = Some (Inr ())))"

lemma srv_inv_start: "view g = freshView \<Longrightarrow> srv_inv view (startProcess g s)"
  by (simp add: srv_inv_def startProcess_def freshView_def inProgress_def)

lemma inProgress_others [simp]:
  "inProgress (p\<lparr>grpc := g\<rparr>) = inProgress p" "inProgress (p\<lparr>mainAt := a\<rparr>) = inProgress p"
  "inProgress (p\<lparr>stopAt := b\<rparr>) = inProgress p" "inProgress (p\<lparr>ctxDone := x\<rparr>) = inProgress p"
  by (simp_all add: inProgress_def)

lemma inProgress_arrive: "inProgress (p\<lparr>grpc := g, calls := calls p @ [startCall q]\<rparr>) = insert (length (calls p)) (inProgress p)"
  by (cases q) (auto simp: inProgress_def nth_append less_Suc_eq)

lemma inProgress_handler:
  assumes "i < length (calls p)" "callResult (calls p ! i) = None"
  shows "inProgress (p\<lparr>calls := (calls p)[i := c], shared := s', grpc := g\<rparr>) = (if callResult c = None then inProgress p else inProgress p - {i})"
  using assms by (auto simp: inProgress_def nth_list_update split: if_splits)

lemma srv_inv_step:
  assumes ok: "grpc_ok lib view" and inv: "srv_inv view p" and step: "procStep lib d ev p = Some p'"
  shows "srv_inv view p'"
proof -
  note run = procStep_running [OF step]
  from step show ?thesis
  proof (cases rule: procStepE)
    case signal
    then show ?thesis using inv by (auto simp: srv_inv_def Let_def)
  next
    case serve
    then have "\<not> vServing (view (grpc p))" using inv by (auto simp: srv_inv_def Let_def)
    with ok have v: "view (grpcServe lib (lis d) (grpc p)) = (if vStopping (view (grpc p))
        then (view (grpc p))\<lparr>vResult := Some (Inl ErrServerStopped)\<rparr> else (view (grpc p))\<lparr>vServing := True\<rparr>)"
      unfolding grpc_ok_def by blast
    show ?thesis using inv serve(2,3) by (auto simp: v srv_inv_def Let_def)
  next
    case (result r)
    then have "vResult (view (grpc p)) = Some r" using ok by (simp add: grpc_ok_def)
    then show ?thesis using inv result(2,4) by (auto simp: srv_inv_def Let_def split: sum.splits)
  next
    case stop
    have v: "view (grpcGracefulStop lib (grpc p)) = settle ((view (grpc p))\<lparr>vStopping := True\<rparr>)" using ok by (simp add: grpc_ok_def)
    show ?thesis using inv run stop(2-4) by (auto simp: v srv_inv_def Let_def settle_def)
  next
    case stopped
    then show ?thesis using inv by (auto simp: srv_inv_def Let_def)
  next
    case (arrive q ns g)
    have v: "vServing (view (grpc p))" "\<not> vStopping (view (grpc p))" "vResult (view (grpc p)) = None"
        "view g = (view (grpc p))\<lparr>vPending := insert (length (calls p)) (vPending (view (grpc p)))\<rparr>"
      using ok arrive(3) unfolding grpc_ok_def by blast+
    then show ?thesis using inv run unfolding arrive(4) srv_inv_def Let_def inProgress_arrive by auto
  next
    case (handler i ns c s')
    have v: "view (grpcFinish lib i (grpc p)) = settle ((view (grpc p))\<lparr>vPending := vPending (view (grpc p)) - {i}\<rparr>)"
      using ok by (simp add: grpc_ok_def)
    show ?thesis
      using inv run unfolding handler(6) srv_inv_def Let_def inProgress_handler [OF handler(3,4)] by (auto simp: v settle_def)
  next
    case (fails err)
    have v: "view (grpcAcceptFails lib err (grpc p)) = (if vServing (view (grpc p)) \<and> \<not> vStopping (view (grpc p)) \<and> vResult (view (grpc p)) = None
        then (view (grpc p))\<lparr>vResult := Some (Inl err)\<rparr> else view (grpc p))" using ok by (simp add: grpc_ok_def)
    show ?thesis using inv run fails(2) by (auto simp: v srv_inv_def Let_def)
  qed
qed

lemma srv_inv_reach:
  assumes "grpc_ok lib view" "view g = freshView" "proc_reach lib d allowed (startProcess g s) p"
  shows "srv_inv view p"
  using assms(3)
proof (induction rule: proc_reach.induct)
  case proc_start
  show ?case by (rule srv_inv_start [of view g, OF assms(2)])
next
  case (proc_step p ev p')
  from srv_inv_step [OF assms(1) proc_step.IH proc_step.hyps(3)] show ?case .
qed

text \<open>A server that shows its whole state satisfies what is relied on.\<close>

definition viewLib :: "grpcView grpcLib" where
  "viewLib =
     \<lparr>grpcServe = (\<lambda>a v. if vServing v then v else if vStopping v then v\<lparr>vResult := Some (Inl ErrServerStopped)\<rparr> else v\<lparr>vServing := True\<rparr>),
      grpcServeResult = vResult,
      grpcGracefulStop = (\<lambda>v. settle (v\<lparr>vStopping := True\<rparr>)),
      grpcStopReturned = (\<lambda>v. vStopping v \<and> vPending v = {}),
      grpcStop = (\<lambda>v. v\<lparr>vStopping := True, vResult := Some (Inr ())\<rparr>),
      grpcStart = (\<lambda>i v. if vServing v \<and> \<not> vStopping v \<and> vResult v = None then Some (v\<lparr>vPending := insert i (vPending v)\<rparr>) else None),
      grpcFinish = (\<lambda>i v. settle (v\<lparr>vPending := vPending v - {i}\<rparr>)),
      grpcAcceptFails = (\<lambda>err v. if vServing v \<and> \<not> vStopping v \<and> vResult v = None then v\<lparr>vResult := Some (Inl err)\<rparr> else v)\<rparr>"

lemma grpc_ok_view: "grpc_ok viewLib id"
  by (auto simp: grpc_ok_def viewLib_def)

definition sampleServer :: "(world \<times> string list) GRPCServer" where
  "sampleServer = NewGRPCServerWithListener (''unix'', ''/s'') None None (Some sampleNode)"

definition sampleProcess :: "(grpcView, world \<times> string list) process" where
  "sampleProcess = startProcess freshView sampleState"

section \<open>Stopping\<close>

text \<open>
  C11. The driver ends without error only after a signal, and it loses no call: every call that the server
  accepted has returned by then.
\<close>

theorem graceful_exit_drains:
  assumes "grpc_ok lib view" "view g = freshView" "runEvents lib d evs (startProcess g s) = Some p" "mainAt p = Returned (Inr ())"
  shows "ctxDone p \<and> stopAt p \<noteq> AwaitSignal \<and> (\<forall>c \<in> set (calls p). callResult c \<noteq> None)"
proof -
  have "proc_reach lib d (\<lambda>_ _. True) (startProcess g s) p" using assms(3) by (auto simp: reach_runEvents)
  from srv_inv_reach [OF assms(1,2) this] assms(4)
  have "inProgress p = {}" "ctxDone p" "stopAt p \<noteq> AwaitSignal" by (auto simp: srv_inv_def Let_def)
  then show ?thesis by (auto simp: inProgress_def in_set_conv_nth simp del: not_None_eq)
qed

definition sampleEvents :: "event list" where
  "sampleEvents =
     [MainStep, Arrive (Unpublish \<lparr>unVolumeId = ''v1'', unTarget = ''/t''\<rparr>), CallStep 0, Signal, StopperStep,
      CallStep 0, CallStep 0, MainStep]"

lemma graceful_exit_sample:
  "map_option (\<lambda>p. (mainAt p, map callResult (calls p)))
     (runEvents viewLib sampleServer sampleEvents sampleProcess) = Some (Returned (Inr ()), [Some (Inr ())])"
  by code_simp

theorem graceful_exit_drains_witness:
  "\<exists>p. runEvents viewLib sampleServer sampleEvents sampleProcess = Some p \<and> length (calls p) = 1 \<and> (\<forall>c \<in> set (calls p). callResult c \<noteq> None)"
proof -
  obtain p where p: "runEvents viewLib sampleServer sampleEvents sampleProcess = Some p" "mainAt p = Returned (Inr ())" "map callResult (calls p) = [Some (Inr ())]"
    using graceful_exit_sample by auto
  then have "length (calls p) = 1" by (metis length_map length_Cons list.size(3) One_nat_def)
  with p(1) graceful_exit_drains [OF grpc_ok_view id_apply p(1) [unfolded sampleProcess_def] p(2)] show ?thesis by blast
qed

text \<open>
  C13. A signal that comes when the driver is built but does not serve yet makes it fail: the goroutine stops a server
  that was not started, \<^verbatim>\<open>Serve\<close> then refuses, and the process exits with status 1.
\<close>

theorem early_signal_fails:
  assumes "grpc_ok lib view" "view g = freshView"
  shows "\<exists>p. runEvents lib d [Signal, StopperStep, MainStep, MainStep] (startProcess g s) = Some p \<and>
    (\<exists>r. mainAt p = Returned r \<and> r = Inl (Msg ''failed running driver'') \<and> exitStatus r = 1)"
proof -
  let ?g1 = "grpcGracefulStop lib g"
  have v1: "view ?g1 = settle (freshView\<lparr>vStopping := True\<rparr>)" using assms by (simp add: grpc_ok_def)
  then have "\<not> vServing (view ?g1)" "vStopping (view ?g1)" by (simp_all add: freshView_def settle_def)
  then have "view (grpcServe lib (lis d) ?g1) = (view ?g1)\<lparr>vResult := Some (Inl ErrServerStopped)\<rparr>"
    using assms(1) unfolding grpc_ok_def by (elim conjE) metis
  then have "grpcServeResult lib (grpcServe lib (lis d) ?g1) = Some (Inl ErrServerStopped)" using assms(1) by (simp add: grpc_ok_def)
  then show ?thesis
    by (simp add: startProcess_def mainStep_def stopperStep_def driverRun_def driverStop_def serverRun_def serverStop_def exitStatus_def)
qed

theorem early_signal_fails_witness:
  "\<exists>p. runEvents viewLib sampleServer [Signal, StopperStep, MainStep, MainStep] sampleProcess = Some p \<and>
     mainAt p = Returned (Inl (Msg ''failed running driver''))"
  using early_signal_fails [OF grpc_ok_view id_apply, of sampleServer sampleState] unfolding sampleProcess_def by blast

section \<open>The end of the process\<close>

text \<open>The steps the process can still take when the server has been stopped.\<close>

fun mainLeft :: "mainPC \<Rightarrow> nat" where
  "mainLeft AtRun = 2"
| "mainLeft Serving = 1"
| "mainLeft (Returned r) = 0"

definition procLeft :: "('g, 'e) process \<Rightarrow> nat" where
  "procLeft p = (\<Sum>c\<leftarrow>calls p. stepsLeft c) + mainLeft (mainAt p) + (if stopAt p = Stopped then 0 else 1)"

definition stopping :: "('g \<Rightarrow> grpcView) \<Rightarrow> ('g, 'e) process \<Rightarrow> bool" where
  "stopping view p \<longleftrightarrow> srv_inv view p \<and> stopAt p \<noteq> AwaitSignal"

lemma sum_update_less:
  fixes f :: "'a \<Rightarrow> nat"
  assumes "i < length xs" "f c < f (xs ! i)"
  shows "(\<Sum>x\<leftarrow>xs[i := c]. f x) < (\<Sum>x\<leftarrow>xs. f x)"
  using assms by (induction xs arbitrary: i) (auto split: nat.splits)

lemma stopping_step:
  assumes ok: "grpc_ok lib view" and st: "stopping view p" and step: "procStep lib d ev p = Some p'"
    and ev: "\<And>err. ev \<noteq> AcceptFails err"
  shows "stopping view p' \<and> procLeft p' < procLeft p"
proof -
  have inv: "srv_inv view p'" using srv_inv_step [OF ok _ step] st by (simp add: stopping_def)
  have sig: "ctxDone p" "vStopping (view (grpc p))" "stopAt p \<noteq> AwaitSignal" using st by (auto simp: stopping_def srv_inv_def Let_def)
  from step show ?thesis
  proof (cases rule: procStepE)
    case signal
    then show ?thesis using sig step by (auto split: mainPC.splits)
  next
    case (arrive q ns g)
    then show ?thesis using ok sig(2) unfolding grpc_ok_def by blast
  next
    case (handler i ns c s')
    have "0 < stepsLeft (calls p ! i)" using handler(4) stepsLeft_0 [of "calls p ! i"] by (cases "stepsLeft (calls p ! i)") auto
    then have "stepsLeft c < stepsLeft (calls p ! i)" using step_decreases [of ns "calls p ! i" "shared p"] handler(5) by simp
    from sum_update_less [OF handler(3) this] show ?thesis using inv sig(3) handler(6) by (simp add: stopping_def procLeft_def)
  qed (use inv sig ev in \<open>auto simp: stopping_def procLeft_def\<close>)
qed

lemma stopping_not_stuck:
  assumes ok: "grpc_ok lib view" and st: "stopping view p" and ns: "srvNode d = Some ns" and run: "\<And>r. mainAt p \<noteq> Returned r"
  shows "\<exists>ev. (\<forall>err. ev \<noteq> AcceptFails err) \<and> procStep lib d ev p \<noteq> None"
proof (cases "mainAt p = Serving \<and> vResult (view (grpc p)) = None")
  case True
  then obtain i where i: "i \<in> inProgress p" using st by (auto simp: stopping_def srv_inv_def Let_def)
  then have "procStep lib d (CallStep i) p \<noteq> None"
    using True ns by (auto simp: inProgress_def handlerStep_def split: prod.splits)
  then show ?thesis by blast
next
  case False
  then have "procStep lib d MainStep p \<noteq> None"
    using ok run by (cases "mainAt p") (auto simp: mainStep_def grpc_ok_def split: sum.splits)
  then show ?thesis by blast
qed

lemma stopping_run:
  assumes "grpc_ok lib view" "stopping view p" "runEvents lib d evs p = Some p'" "\<forall>ev \<in> set evs. \<forall>err. ev \<noteq> AcceptFails err"
  shows "stopping view p' \<and> procLeft p' + length evs \<le> procLeft p"
  using assms(2-4)
proof (induction evs arbitrary: p)
  case (Cons ev evs)
  then obtain q where q: "procStep lib d ev p = Some q" "runEvents lib d evs q = Some p'"
    by (auto simp del: procStep.simps split: option.splits)
  then have "stopping view q" "procLeft q < procLeft p" using stopping_step [OF assms(1) Cons.prems(1) q(1)] Cons.prems(3) by auto
  with Cons.IH [OF _ q(2)] Cons.prems(3) show ?case by auto
qed simp

text \<open>
  C12. Stopping ends. Once the goroutine has stopped the server, a process runs at most twelve more events for every call
  and three for its goroutines, in whatever order they come, and it is never stuck: until \<^verbatim>\<open>RunE\<close> has
  returned there is always a goroutine that can go on.
\<close>

theorem stopping_ends:
  assumes "grpc_ok lib view" "view g = freshView" "srvNode d = Some ns"
    and "runEvents lib d before (startProcess g s) = Some p" "stopAt p \<noteq> AwaitSignal"
    and "runEvents lib d evs p = Some p'" "\<forall>ev \<in> set evs. \<forall>err. ev \<noteq> AcceptFails err"
  shows "length evs \<le> 12 * length (calls p) + 3 \<and>
    ((\<exists>r. mainAt p' = Returned r) \<or> (\<exists>ev. (\<forall>err. ev \<noteq> AcceptFails err) \<and> procStep lib d ev p' \<noteq> None))"
proof -
  have "proc_reach lib d (\<lambda>_ _. True) (startProcess g s) p" using assms(4) by (auto simp: reach_runEvents)
  from srv_inv_reach [OF assms(1,2) this] have st: "stopping view p" using assms(5) by (simp add: stopping_def)
  note k = stopping_run [OF assms(1) st assms(6,7)]
  have "(\<Sum>c\<leftarrow>cs. stepsLeft c) \<le> 12 * length cs" for cs
  proof (induction cs)
    case (Cons c cs)
    then show ?case using stepsLeft_le [of c] by simp
  qed simp
  from this [of "calls p"] have "procLeft p \<le> 12 * length (calls p) + 3" by (cases "mainAt p") (auto simp: procLeft_def)
  with k have "length evs \<le> 12 * length (calls p) + 3" by linarith
  moreover have "\<exists>ev. (\<forall>err. ev \<noteq> AcceptFails err) \<and> procStep lib d ev p' \<noteq> None" if "\<nexists>r. mainAt p' = Returned r"
    using stopping_not_stuck [OF assms(1) conjunct1 [OF k] assms(3)] that by blast
  ultimately show ?thesis by blast
qed

theorem stopping_ends_witness:
  "\<exists>p ev. runEvents viewLib sampleServer
      [MainStep, Arrive (Unpublish \<lparr>unVolumeId = ''v1'', unTarget = ''/t''\<rparr>), Signal, StopperStep] sampleProcess = Some p \<and>
    procStep viewLib sampleServer ev p \<noteq> None"
proof -
  let ?evs = "[MainStep, Arrive (Unpublish \<lparr>unVolumeId = ''v1'', unTarget = ''/t''\<rparr>), Signal, StopperStep]"
  have node: "srvNode sampleServer = Some sampleNode" by (simp add: sampleServer_def NewGRPCServerWithListener_def)
  have "map_option (\<lambda>p. (mainAt p, stopAt p)) (runEvents viewLib sampleServer ?evs sampleProcess) = Some (Serving, Stopping)"
    by code_simp
  then obtain p where p: "runEvents viewLib sampleServer ?evs sampleProcess = Some p" "mainAt p = Serving" "stopAt p = Stopping" by auto
  have "runEvents viewLib sampleServer [] p = Some p" "\<forall>ev \<in> set []. \<forall>err. ev \<noteq> AcceptFails err" "stopAt p \<noteq> AwaitSignal"
    using p by simp_all
  from stopping_ends [OF grpc_ok_view id_apply node p(1) [unfolded sampleProcess_def] this(3,1,2)]
  obtain ev where "procStep viewLib sampleServer ev p \<noteq> None" unfolding p(2) using mainPC.distinct(5) by blast
  with p(1) show ?thesis by blast
qed

section \<open>The state of the node service\<close>

context node_env
begin

lemma calls_ok_mono: "calls_ok L cs s \<Longrightarrow> L' \<subseteq> L \<Longrightarrow> calls_ok L' cs s"
  unfolding calls_ok_def by blast

lemma process_step:
  assumes node: "srvNode d = Some ns" and inv: "calls_ok (inProgress p) (calls p) (shared p)"
    and allowed: "kubelet_ok valid_id ev p" and step: "procStep lib d ev p = Some p'"
  shows "calls_ok (inProgress p') (calls p') (shared p')"
  using step
proof (cases rule: procStepE)
  case (arrive q n g)
  have other: "reqVolume (callRequest (calls p ! j)) \<noteq> reqVolume q" "reqTarget (callRequest (calls p ! j)) \<noteq> reqTarget q"
    if "j \<in> inProgress p" for j
    using allowed arrive(1) that by (auto simp: inProgress_def)
  have "calls_ok (insert (length (calls p)) (inProgress p)) (calls p @ [startCall q]) (shared p)"
    using inv allowed arrive(1) other other [symmetric]
    by (auto simp: calls_ok_def nth_append call_ok_start)
  then show ?thesis unfolding arrive(4) inProgress_arrive by simp
next
  case (handler i n c s')
  have i: "i \<in> inProgress p" using handler(3,4) by (simp add: inProgress_def)
  have "calls_ok (inProgress p) ((calls p)[i := c]) s'" using call_step [OF inv i] handler(2,5) node by auto
  then have "calls_ok (inProgress p') ((calls p)[i := c]) s'"
    using calls_ok_mono unfolding handler(6) inProgress_handler [OF handler(3,4)] by auto
  then show ?thesis unfolding handler(6) by simp
qed (use inv in \<open>simp_all\<close>)

lemma process_ok:
  assumes "srvNode d = Some ns" "st_ok s" "proc_reach lib d (kubelet_ok valid_id) (startProcess g s) p"
  shows "calls_ok (inProgress p) (calls p) (shared p)"
  using assms(3)
proof (induction rule: proc_reach.induct)
  case proc_start
  show ?case using assms(2) by (simp add: startProcess_def inProgress_def calls_ok_def)
next
  case (proc_step p ev p')
  from process_step [OF assms(1) proc_step.IH proc_step.hyps(2,3)] show ?case .
qed

end

lemma process_store:
  assumes "deepEqual_ok deepEqual" "host_ok mnts mt mkdirAll" "rehash_ok rehash" "source_ok mnts get"
    and "driver_ok rehash f get s0" "srvNode d = Some (nodeOn (fsStorage deepEqual f) mt mkdirAll nid)"
    and "proc_reach lib d (kubelet_ok pname) (startProcess g s0) p" "shared p = (m, w, h)"
  shows "fs_ok f w \<and> (\<forall>v. managed m v \<longrightarrow> fsMetas f w v \<noteq> None)"
proof -
  note ne = fs_node [OF assms(1,2), of f]
  obtain m0 w0 h0 where s0: "s0 = (m0, w0, h0)" by (cases s0) auto
  note st0 = driver_st_ok [OF assms(1-4) assms(5) [unfolded s0]]
  from node_env.process_ok [OF ne assms(6) st0 assms(7) [unfolded s0]] show ?thesis
    by (auto simp: assms(8) node_env.calls_ok_def [OF ne] node_env.st_ok_def [OF ne])
qed


text \<open>The sample library accepts a call and lets its handler run one step.\<close>

lemma view_reach_call:
  assumes node: "srvNode d = Some ns" and req: "valid_id (VolumeId req)" "meta_ok (FromNodePublishVolumeRequest req)"
  shows "\<exists>p. proc_reach viewLib d (kubelet_ok valid_id) (startProcess freshView s) p \<and> length (calls p) = 1 \<and> mainAt p = Serving \<and>
    shared p = snd (callStep ns (startCall (Publish req), s))"
proof -
  let ?p0 = "startProcess freshView s"
  let ?p1 = "?p0\<lparr>grpc := freshView\<lparr>vServing := True\<rparr>, mainAt := Serving\<rparr>"
  let ?p2 = "?p1\<lparr>grpc := freshView\<lparr>vServing := True, vPending := {0}\<rparr>, calls := [startCall (Publish req)]\<rparr>"
  have "procStep viewLib d MainStep ?p0 = Some ?p1"
    by (simp add: startProcess_def mainStep_def driverRun_def serverRun_def viewLib_def freshView_def)
  then have r1: "proc_reach viewLib d (kubelet_ok valid_id) ?p0 ?p1" by (rule proc_step [OF proc_start, rotated]) simp
  have "procStep viewLib d (Arrive (Publish req)) ?p1 = Some ?p2"
    by (simp add: node arrive_def startProcess_def viewLib_def freshView_def del: startCall.simps)
  moreover have "kubelet_ok valid_id (Arrive (Publish req)) ?p1" using req by (simp add: startProcess_def)
  ultimately have r2: "proc_reach viewLib d (kubelet_ok valid_id) ?p0 ?p2" by (rule proc_step [OF r1, rotated])
  obtain c s' where st: "callStep ns (startCall (Publish req), s) = (c, s')" by (meson surj_pair)
  let ?g = "if callResult c = None then grpc ?p2 else grpcFinish viewLib 0 (grpc ?p2)"
  let ?p3 = "?p2\<lparr>calls := [c], shared := s', grpc := ?g\<rparr>"
  have "procStep viewLib d (CallStep 0) ?p2 = Some ?p3" using st by (simp add: node handlerStep_def startProcess_def)
  then have "proc_reach viewLib d (kubelet_ok valid_id) ?p0 ?p3" by (rule proc_step [OF r2, rotated]) simp
  then show ?thesis using st by (intro exI [of _ ?p3]) simp
qed


end
