(* ===== verification/App_Facts.thy ===== *)
theory App_Facts
  imports App
begin

text \<open>
  Starting the driver: which options let it start, what it manages then, and which flags are required.
\<close>

section \<open>The server\<close>

text \<open>Paths that are not in the store, and what is relied on of \<^verbatim>\<open>net.Listen\<close>: a socket is made outside the store.\<close>

definition outside :: "Filesystem \<Rightarrow> fpath set" where
  "outside f = {q. \<not> prefix (troot f) q}"

definition listen_ok :: "Filesystem \<Rightarrow> (string \<Rightarrow> string \<Rightarrow> unit os) \<Rightarrow> bool" where
  "listen_ok f listen \<longleftrightarrow> (\<forall>proto addr w r w'. wf_fs (wfs w) \<longrightarrow> listen proto addr w = (r, w') \<longrightarrow>
     on_fs w (framed (wfs w) (outside f)) w')"

text \<open>The endpoint does not name a path in the store, also when it goes through links.\<close>

definition endpoint_ok :: "Filesystem \<Rightarrow> string \<Rightarrow> fs \<Rightarrow> bool" where
  "endpoint_ok f ep g0 \<longleftrightarrow> (\<forall>addr g r. parseEndpoint ep = Inr (''unix'', addr) \<longrightarrow> framed g0 (outside f) g \<longrightarrow>
     resolve g False (sep # addr) = Inr r \<longrightarrow> r \<in> outside f)"

lemma tree_ok_outside:
  assumes "tree_ok f g" "framed g (outside f) h"
  shows "tree_ok f h" "volumeMeta f h = volumeMeta f g"
proof -
  have same: "map_of h (troot f @ q) = map_of g (troot f @ q)" for q
    using assms(2) by (auto simp: framed_def only_changes_def outside_def)
  moreover have "wf_fs h" using assms(2) by (simp add: framed_def)
  ultimately show "tree_ok f h"
    using assms(1) same [of "[]"] volume_ok_cong [of f g _ h] by (auto simp: tree_ok_def isdir_def)
  show "volumeMeta f h = volumeMeta f g" by (rule ext) (simp add: volumeMeta_def same)
qed

lemma fs_ok_outside:
  assumes "fs_ok f w" "on_fs w (framed (wfs w) (outside f)) w'"
  shows "fs_ok f w' \<and> fsMetas f w' = fsMetas f w"
  using assms tree_ok_outside [of f "wfs w" "wfs w'"] fs_ok_same [of f w w']
  by (simp add: fs_ok_def [of f w] fsMetas_def on_fs_def)

lemma stays_listen: "listen_ok f listen \<Longrightarrow> stays w0 (framed f0 (outside f)) (listen proto addr)"
  unfolding stays_def hoare_def listen_ok_def on_fs_def framed_def only_changes_def same_env_def
  by (fastforce split: sum.splits)

lemma NewGRPCServer_stays:
  assumes "listen_ok f listen" "endpoint_ok f ep f0"
  shows "stays w0 (framed f0 (outside f)) (NewGRPCServer listen ep ids cs ns)"
proof -
  have "stays w0 (framed f0 (outside f)) (osRemove (sep # addr))" if "parseEndpoint ep = Inr (''unix'', addr)" for addr
    using assms(2) that by (intro stays_osRemove) (auto simp: endpoint_ok_def)
  then show ?thesis
    unfolding NewGRPCServer_def Let_def
    by (cases "parseEndpoint ep")
      (auto simp: andThen_lift_res intro!: stays_andThen stays_attempt stays_listen [OF assms(1)]
        split: sum.splits prod.splits if_splits)
qed

lemma NewGRPCServer_store:
  assumes "fs_ok f w" "listen_ok f listen" "endpoint_ok f ep (wfs w)" "NewGRPCServer listen ep ids cs ns w = (r, w')"
  shows "fs_ok f w' \<and> fsMetas f w' = fsMetas f w"
proof (rule fs_ok_outside [OF assms(1)])
  have "wf_fs (wfs w)" using assms(1) by (simp add: fs_ok_def tree_ok_def)
  then show "on_fs w (framed (wfs w) (outside f)) w'"
    using stays_snd [OF NewGRPCServer_stays [OF assms(2,3)], of w w ids cs ns] assms(4) by (simp add: on_fs_start framed_refl)
qed

lemma NewGRPCServer_result:
  assumes "NewGRPCServer listen ep ids cs ns w = (Inr d, w')"
  shows "\<exists>proto addr. parseEndpoint ep = Inr (proto, addr) \<and>
    d = \<lparr>srvIdentity = ids, srvController = cs, srvNode = ns, lis = (proto, if proto = ''unix'' then sep # addr else addr)\<rparr>"
proof (cases "parseEndpoint ep")
  case (Inl err)
  then show ?thesis using assms by (simp add: NewGRPCServer_def andThen_lift_res throw_def)
next
  case (Inr pa)
  then show ?thesis
    using assms by (cases pa) (auto simp: NewGRPCServer_def andThen_lift_res Let_def io_iff NewGRPCServerWithListener_def split: if_splits)
qed

section \<open>Start-up\<close>

text \<open>The store of a driver with the given data root.\<close>

definition appStore :: "string \<Rightarrow> Filesystem" where
  "appStore root = \<lparr>baseDir = root, FixedFSGroup = None, FSGroupVolumeAttributeKey = FSGroupKey\<rparr>"

lemma NewFilesystem_mounted:
  assumes "IsMountPoint mt (tempfsPath (appStore root)) w = ((True, None), w)"
  shows "NewFilesystem mt root w = (Inr \<lparr>baseDir = root, FixedFSGroup = None, FSGroupVolumeAttributeKey = []\<rparr>, w)"
  using assms by (simp add: NewFilesystem_def tempfsPath_def appStore_def Let_def andThen_def ret_def)

lemma app_manager:
  assumes eq: "deepEqual_ok (platEqual pl)" and f: "fs_ok f w" and id: "appNodeID opts \<noteq> []"
  shows "\<exists>m w1. NewManagerOrDie (platEncode pl) (managerOptions pl opts f src) (w, h) = (Inr m, (w1, h)) \<and>
    fs_ok f w1 \<and> fsMetas f w1 = fsMetas f w \<and> managerOf (platRehash pl) f (platGetFiles pl src) m \<and>
    (\<forall>v. managed m v \<longleftrightarrow> fsMetas f w v \<noteq> None)"
proof -
  note st = store_lift_host [OF fs_store [OF eq, of f], of "\<lambda>x. x = h"]
  let ?mo = "managerOptions pl opts f src"
  have rd: "optMetadataReader ?mo = Some (readerOf (\<lambda>v. on_fst (ReadMetadata f v)) (on_fst (ListVolumes f)))"
    by (simp add: managerOptions_def readerOf_def)
  obtain m e1 where m: "NewManager (platEncode pl) ?mo (w, h) = (Inr m, e1)" "mgr_inv m"
      "\<And>v. managed m v \<longleftrightarrow> fsMetas f w v \<noteq> None" "fs_ok f (fst e1)" "snd e1 = h" "fsMetas f (fst e1) = fsMetas f w"
    using metadata_store.new_manager_resumes [OF st, of "(w, h)" ?mo "platEncode pl"] f id rd
    by (auto simp: managerOptions_def)
  moreover have "managerOf (platRehash pl) f (platGetFiles pl src) m"
    using NewManager_fields [OF m(1)] m(2) rd by (simp add: managerOf_def managerOptions_def)
  ultimately show ?thesis using m NewManagerOrDie_run [OF m(1)] by (metis prod.collapse)
qed

lemma New_servers:
  "New listen (hostMounter mt) (\<lambda>p md. on_snd (mkdirAll p md)) ep (appDriverOptions pl opts f) =
     NewGRPCServer listen ep (Some (NewIdentityServer (appDriverName opts) ''v0.3.0'')) (Some controllerServer)
       (Some (nodeOn (fsStorage (platEqual pl) f) mt mkdirAll (appNodeID opts)))"
  by (simp add: New_def buildServers_def appDriverOptions_def nodeOn_def fsStorage_def)

lemma buildDriver_run:
  fixes pl :: "('h, 'c, 'n, 'r, 'p, 's, 'b) platform" and opts :: "('k, 'c) appOptions"
  assumes f_def: "f = appStore (appDataRoot opts)"
    and "deepEqual_ok (platEqual pl)" "fs_ok f w" "appNodeID opts \<noteq> []"
    and "IsMountPoint (storeMounter pl) (tempfsPath f) w = ((True, None), w)"
    and "newSource (platParseNamed pl) (platNewForConfig pl) (TrustedCertsSource opts) (RestConfig opts) = Inr src"
    and "listen_ok f (netListen pl)" "\<And>w1. fs_ok f w1 \<Longrightarrow> endpoint_ok f (appEndpoint opts) (wfs w1)"
    and "buildDriver pl opts (w, h) = (r, (w', h'))"
  shows "fs_ok f w' \<and> fsMetas f w' = fsMetas f w \<and> h' = h \<and>
    (case r of
       Inl err \<Rightarrow> err = Msg ''failed to setup driver'' \<and>
         (\<exists>ids cs. \<exists>ns :: (world \<times> 'h) nodeServer option. \<exists>w1 err1.
            NewGRPCServer (netListen pl) (appEndpoint opts) ids cs ns w1 = (Inl err1, w'))
     | Inr (m, d) \<Rightarrow> driver_ok (platRehash pl) f (platGetFiles pl src) (m, w', h') \<and>
         (\<forall>v. managed m v \<longleftrightarrow> fsMetas f w v \<noteq> None) \<and>
         srvIdentity d = Some \<lparr>ids_name = appDriverName opts, ids_version = ''v0.3.0''\<rparr> \<and>
         srvController d = Some controllerServer \<and>
         srvNode d = Some (nodeOn (fsStorage (platEqual pl) f) (targetMounter pl) (targetMkdirAll pl) (appNodeID opts)))"
proof -
  obtain m w1 where m: "NewManagerOrDie (platEncode pl) (managerOptions pl opts f src) (w, h) = (Inr m, (w1, h))"
      "fs_ok f w1" "fsMetas f w1 = fsMetas f w" "managerOf (platRehash pl) f (platGetFiles pl src) m"
      "\<And>v. managed m v \<longleftrightarrow> fsMetas f w v \<noteq> None"
    using app_manager [OF assms(2,3,4)] by blast
  obtain r2 w2 where srv: "NewGRPCServer (netListen pl) (appEndpoint opts) (Some (NewIdentityServer (appDriverName opts) ''v0.3.0''))
      (Some controllerServer) (Some (nodeOn (fsStorage (platEqual pl) f) (targetMounter pl) (targetMkdirAll pl) (appNodeID opts))) w1 = (r2, w2)"
    by fastforce
  note w2 = NewGRPCServer_store [OF m(2) assms(7) assms(8) [OF m(2)] srv]
  let ?f0 = "\<lparr>baseDir = appDataRoot opts, FixedFSGroup = None, FSGroupVolumeAttributeKey = []\<rparr>"
  have fs: "wrapping ''failed to setup filesystem'' (on_fst (NewFilesystem (storeMounter pl) (appDataRoot opts))) (w, h) = (Inr ?f0, (w, h))"
    using NewFilesystem_mounted [of "storeMounter pl" "appDataRoot opts" w] assms(5)
    by (simp add: wrapping_run on_fst_iff f_def)
  have f: "\<lparr>baseDir = appDataRoot opts, FixedFSGroup = None, FSGroupVolumeAttributeKey = FSGroupKey\<rparr> = f"
    by (simp add: f_def appStore_def)
  have src: "wrapping ''failed to create cert source'' (lift_res (newSource (platParseNamed pl) (platNewForConfig pl)
      (TrustedCertsSource opts) (RestConfig opts))) (w, h) = (Inr src, (w, h))"
    by (simp add: assms(6) lift_res_def wrapping_run)
  have new: "on_fst (New (netListen pl) (hostMounter (targetMounter pl)) (\<lambda>p md. on_snd (targetMkdirAll pl p md))
      (appEndpoint opts) (appDriverOptions pl opts f)) (w1, h) = (r2, (w2, h))"
    by (simp add: New_servers on_fst_iff srv)
  have res: "(r, (w', h')) = (case r2 of Inl err \<Rightarrow> (Inl (Msg ''failed to setup driver''), (w2, h)) | Inr d \<Rightarrow> (Inr (m, d), (w2, h)))"
    unfolding assms(9) [symmetric] buildDriver_def
    by (simp add: andThen_run attempt_run fs src m(1) new f Let_def ret_def throw_def split: sum.split)
  show ?thesis
  proof (cases r2)
    case (Inl err)
    then have "\<exists>ids cs. \<exists>ns :: (world \<times> 'h) nodeServer option. \<exists>w1 err1.
        NewGRPCServer (netListen pl) (appEndpoint opts) ids cs ns w1 = (Inl err1, w2)" using srv by blast
    with Inl show ?thesis using res w2 m(3) by simp
  next
    case (Inr d)
    then show ?thesis
      using res w2 m NewGRPCServer_result srv by (fastforce simp: driver_ok_def NewIdentityServer_def simp del: not_None_eq)
  qed
qed


text \<open>The sample store on a platform whose tmpfs is mounted, with the test source and a table of mounts.\<close>

definition samplePlatform :: "(string list, unit, string, nat, string, unit, string) platform" where
  "samplePlatform =
     \<lparr>storeMounter = \<lparr>IsMountPoint = (\<lambda>t w. ((True, None), w)), Mount = (\<lambda>_ _ _ _. ret ()), Unmount = (\<lambda>_. ret ())\<rparr>,
      targetMounter = tableMounter, targetMkdirAll = (\<lambda>_ _. ret ()), netListen = (\<lambda>_ _. ret ()), platEncode = id,
      platEqual = sameEntries, platRehash = (\<lambda>_. ret ()), platParseNamed = Inr, platNewForConfig = (\<lambda>_. Inl (Msg ''no cluster'')),
      platOras = \<lparr>orasParse = Inr, orasString = id, orasCopy = (\<lambda>_ _. throw (Msg ''no registry'')), orasFetch = (\<lambda>_ d. ret (Digest d)),
        closeReader = (\<lambda>_. ret ()), gzipNewReader = ret, tarItems = (\<lambda>_. []), multierrCombine = (\<lambda>a b. a)\<rparr>,
      platNewAuth = throw (Msg ''no credentials''), platNewResolver = (\<lambda>_. 0), platNameString = id\<rparr>"

definition sampleAppOptions :: "(unit, unit) appOptions" where
  "sampleAppOptions =
     \<lparr>logLevel = ''1'', kubeConfigFlags = None, appNodeID = ''node'', appDriverName = apiDriverName,
      appEndpoint = ''tcp://h:1'', appDataRoot = ''b'', RestConfig = Some (), TrustedCertsSource = ''test::x''\<rparr>"

lemma fs_ok_appStore: "fs_ok (appStore ''b'') (sampleWorld volFS)"
proof -
  have "troot (appStore ''b'') = troot sampleFSB" "base_ok (appStore ''b'') = base_ok sampleFSB"
    by (simp_all add: troot_def base_ok_def appStore_def sampleFSB_def)
  then show ?thesis
    using fs_ok_volFS unfolding fs_ok_def tree_ok_def volume_ok_def data_ok_def by simp
qed

lemma sample_store: "fsMetas (appStore ''b'') (sampleWorld volFS) ''v1'' \<noteq> None" "fsMetas (appStore ''b'') (sampleWorld volFS) ''v2'' = None"
  using volumeMeta_dom [of "appStore ''b''" volFS "''v1''"] volumeMeta_dom [of "appStore ''b''" volFS "''v2''"] fs_ok_appStore
  by (simp_all add: fsMetas_def fs_ok_def troot_def appStore_def pcomps_def volFS_def)

lemma sample_source:
  "newSource (platParseNamed samplePlatform) (platNewForConfig samplePlatform) (TrustedCertsSource sampleAppOptions)
     (RestConfig sampleAppOptions) = Inr testSource"
proof -
  have "getSource ''test::x'' = (''test'', ''x'')" by code_simp
  then show ?thesis by (simp add: sampleAppOptions_def newSource_def getters_def newTestSource_def)
qed

lemma sample_endpoint: "parseEndpoint (appEndpoint sampleAppOptions) = Inr (''tcp'', ''h:1'')"
  by code_simp

lemma sample_platform:
  "appStore ''b'' = appStore (appDataRoot sampleAppOptions)" "deepEqual_ok (platEqual samplePlatform)" "appNodeID sampleAppOptions \<noteq> []"
  "IsMountPoint (storeMounter samplePlatform) t w = ((True, None), w)" "listen_ok (appStore ''b'') (netListen samplePlatform)"
  "endpoint_ok (appStore ''b'') (appEndpoint sampleAppOptions) g"
  by (auto simp: samplePlatform_def sampleAppOptions_def deepEqual_ok_sameEntries listen_ok_def on_fs_start framed_refl ret_def
      endpoint_ok_def sample_endpoint [unfolded sampleAppOptions_def, simplified])

lemma sample_builds:
  assumes "fs_ok (appStore ''b'') w"
  shows "\<exists>m d w'. buildDriver samplePlatform sampleAppOptions (w, h) = (Inr (m, d), (w', h))"
proof -
  obtain r w' h' where run: "buildDriver samplePlatform sampleAppOptions (w, h) = (r, (w', h'))" by (metis surj_pair)
  have "fst (NewGRPCServer (netListen samplePlatform) (appEndpoint sampleAppOptions) ids cs ns w1) \<noteq> Inl err"
    for ids cs w1 err and ns :: "(world \<times> string list) nodeServer option"
    by (simp add: NewGRPCServer_def sample_endpoint samplePlatform_def andThen_lift_res andThen_def ret_def)
  then show ?thesis
    using buildDriver_run [OF sample_platform(1,2) assms sample_platform(3,4) sample_source sample_platform(5,6) run] run
    by (cases r) (auto simp del: not_None_eq, metis fst_conv)
qed


lemma NewManagerOrDie_Inr: "NewManagerOrDie enc mo e = (Inr m, e') \<Longrightarrow> NewManager enc mo e = (Inr m, e')"
  by (cases "NewManager enc mo e") (auto simp: NewManagerOrDie_def attempt_def ret_def throw_def split: sum.splits)

text \<open>
  C30. With an absolute data root, such as the default of the flag, the driver never serves: whatever the platform,
  the store, the source and the other options are, the command ends with an error or a panic before it runs the server.
\<close>

theorem absolute_data_root_never_serves:
  assumes "isAbs (appDataRoot opts)"
  shows "\<exists>err e'. \<forall>serve. RunE pl serve opts e = (Inl err, e')"
proof -
  have fail: "NewManager enc (managerOptions pl opts f src) e1 \<noteq> (Inr m, e2)" if "baseDir f = appDataRoot opts" for enc f src e1 m e2
    using tempfsPath_rooted [of f] assms that
    by (cases e1) (auto simp: NewManager_def managerOptions_def io_iff on_fst_def ListVolumes_def dirfsReadDir_def throw_def
        split: prod.splits)
  have base: "baseDir f = root" if "NewFilesystem mt root w = (Inr f, w')" for mt root w f w'
    using that by (auto simp: NewFilesystem_def Let_def io_iff split: prod.splits option.splits if_splits)
  have "buildDriver pl opts e \<noteq> (Inr x, e')" for x e'
  proof
    assume "buildDriver pl opts e = (Inr x, e')"
    then obtain st e1 src e2 m e3 where "on_fst (NewFilesystem (storeMounter pl) (appDataRoot opts)) e = (Inr st, e1)"
        "NewManagerOrDie (platEncode pl) (managerOptions pl opts (st\<lparr>FSGroupVolumeAttributeKey := FSGroupKey\<rparr>) src) e2 = (Inr m, e3)"
      by (auto simp: buildDriver_def Let_def io_iff)
    note k = this
    have "baseDir st = appDataRoot opts" using base k(1) by (cases e; cases e1) (auto simp: on_fst_iff)
    then show False
      using fail [of "st\<lparr>FSGroupVolumeAttributeKey := FSGroupKey\<rparr>"] NewManagerOrDie_Inr [OF k(2)] by simp
  qed
  then obtain err e' where "buildDriver pl opts e = (Inl err, e')" by (metis surj_pair sumE)
  then show ?thesis by (simp add: RunE_def andThen_fail)
qed

theorem absolute_data_root_never_serves_witness:
  "\<exists>err e'. \<forall>serve. RunE samplePlatform serve (snd (addAppFlags sampleAppOptions)) (sampleWorld volFS, []) = (Inl err, e')"
  by (rule absolute_data_root_never_serves)
    (simp add: addAppFlags_def appFlags_def setFlag_def isAbs_def)

section \<open>The command line\<close>

text \<open>
  What is relied on of cobra: \<open>flags\<close> and \<open>pflags\<close> are the names of the local and of the persistent flags of a
  command, \<open>req\<close> those that are required. Marking a flag that the command does not have is an error and changes
  nothing; adding flags requires none.
\<close>

definition cobra_ok :: "('m, 'k) cobra \<Rightarrow> ('m \<Rightarrow> string set) \<Rightarrow> ('m \<Rightarrow> string set) \<Rightarrow> ('m \<Rightarrow> string set) \<Rightarrow> bool" where
  "cobra_ok cb flags pflags req \<longleftrightarrow>
     (\<forall>n cmd. n \<notin> flags cmd \<longrightarrow> (\<exists>err. MarkFlagRequired cb n cmd = (Inl err, cmd))) \<and>
     (\<forall>n cmd. n \<in> flags cmd \<longrightarrow> (\<exists>cmd'. MarkFlagRequired cb n cmd = (Inr (), cmd') \<and> req cmd' = insert n (req cmd))) \<and>
     (\<forall>n cmd. n \<notin> pflags cmd \<longrightarrow> (\<exists>err. MarkPersistentFlagRequired cb n cmd = (Inl err, cmd))) \<and>
     (\<forall>n cmd. n \<in> pflags cmd \<longrightarrow> (\<exists>cmd'. MarkPersistentFlagRequired cb n cmd = (Inr (), cmd') \<and> req cmd' = insert n (req cmd))) \<and>
     (\<forall>fls cmd. req (AddFlagSet cb fls cmd) = req cmd \<and> flags (AddFlagSet cb fls cmd) = flags cmd \<union> flagName ` set fls)"

text \<open>
  C31. The options mark the node ID, the endpoint and the source of the certificates as required flags, but they do
  so before the flags are added to the command, and drop the error. So a command without flags, as it is when
  the options are prepared, gets every flag of the options and none of them is required.
\<close>

theorem Prepare_requires_no_flag:
  assumes "cobra_ok cb flags pflags req" "flags cmd = {}" "pflags cmd = {}" "req cmd = {}"
    and "\<And>xs. set (flagSetOrder cb xs) = set xs"
  shows "req (snd (Prepare cb opts cmd)) = {} \<and>
    {''log-level'', ''node-id'', ''endpoint'', ''driver-name'', ''data-root'', ''trusted-certs-source''} \<subseteq> flags (snd (Prepare cb opts cmd))"
proof -
  have law: "req (AddFlagSet cb fls c) = req c" "flags (AddFlagSet cb fls c) = flags c \<union> flagName ` set fls" for fls c
    using assms(1) by (auto simp: cobra_ok_def)
  have "snd (MarkPersistentFlagRequired cb n cmd) = cmd" "snd (MarkFlagRequired cb n cmd) = cmd" for n
    using assms(1-3) unfolding cobra_ok_def by (metis emptyE snd_conv)+
  then have cmd: "snd (Prepare cb opts cmd) =
      fold (AddFlagSet cb) (flagSetOrder cb [appFlags, KubeFlagSet cb (NewConfigFlags cb True)]) cmd"
    by (simp add: Prepare_def addFlags_def addAppFlags_def Let_def)
  have "req (fold (AddFlagSet cb) fss c) = req c" "flags (fold (AddFlagSet cb) fss c) = flags c \<union> flagName ` \<Union> (set ` set fss)" for fss c
    by (induction fss arbitrary: c) (auto simp: law)
  then show ?thesis unfolding cmd by (simp add: assms(2,4,5) appFlags_def)
qed

text \<open>A command as the lists of its flags and of the required ones, with no persistent flags.\<close>

definition sampleCobra :: "(string list \<times> string list, unit) cobra" where
  "sampleCobra =
     \<lparr>MarkPersistentFlagRequired = (\<lambda>n c. (Inl (Msg ''no such flag''), c)),
      MarkFlagRequired = (\<lambda>n (fs, rs). if n \<in> set fs then (Inr (), (fs, n # rs)) else (Inl (Msg ''no such flag''), (fs, rs))),
      AddFlagSet = (\<lambda>fls (fs, rs). (map flagName fls @ fs, rs)), NewConfigFlags = (\<lambda>_. ()), KubeFlagSet = (\<lambda>_. []),
      flagSetOrder = rev\<rparr>"

theorem Prepare_requires_no_flag_witness:
  "snd (snd (Prepare sampleCobra (newOptions :: (unit, unit) appOptions) ([], []))) = []"
proof -
  have "cobra_ok sampleCobra (set \<circ> fst) (\<lambda>_. {}) (set \<circ> snd)"
    by (auto simp: cobra_ok_def sampleCobra_def)
  from Prepare_requires_no_flag [OF this, of "([], [])" "newOptions :: (unit, unit) appOptions"] show ?thesis
    by (simp add: sampleCobra_def)
qed

section \<open>The endpoint\<close>

lemma splitScheme_Cons: "c \<noteq> CHR '':'' \<Longrightarrow> splitScheme (c # s) = map_option (\<lambda>(p, h). (c # p, h)) (splitScheme s)"
  by (simp add: hasPrefix_def)

lemma splitScheme_append: "CHR '':'' \<notin> set p \<Longrightarrow> splitScheme (p @ ''://'' @ h) = Some (p, h)"
proof (induction p)
  case (Cons c p)
  then show ?case using splitScheme_Cons [of c "p @ ''://'' @ h"] by auto
qed (simp add: hasPrefix_def)

lemma lower_special: "lower c = CHR '':'' \<longleftrightarrow> c = CHR '':''" "lower c = sep \<longleftrightarrow> c = sep"
proof -
  have "byte (lower c) \<in> {0x61..0x7A}" if "between 0x41 c 0x5A"
    using that by (auto simp: lower_def between_def)
  moreover have "byte (CHR '':'') = 0x3A" "byte sep = 0x2F" by simp_all
  ultimately show "lower c = CHR '':'' \<longleftrightarrow> c = CHR '':''" "lower c = sep \<longleftrightarrow> c = sep"
    by (cases "between 0x41 c 0x5A"; auto simp: lower_def between_def)+
qed

lemma lower_scheme:
  assumes "hasPrefix (map lower ep) (x @ ''://'')"
  shows "\<exists>u h. ep = u @ ''://'' @ h \<and> map lower u = x"
proof -
  have "map lower ep = (x @ ''://'') @ drop (length (x @ ''://'')) (map lower ep)"
    using assms append_take_drop_id [of "length (x @ ''://'')" "map lower ep"] unfolding hasPrefix_def by (simp only:)
  then obtain t where "map lower ep = x @ (''://'' @ t)" unfolding append_assoc by blast
  then obtain u v where uv: "ep = u @ v" "map lower u = x" "map lower v = ''://'' @ t" by (auto simp: map_eq_append_conv [of _ _ x])
  moreover from uv(3) obtain h where "v = ''://'' @ h" by (auto simp: map_eq_Cons_conv lower_special)
  ultimately show ?thesis by auto
qed

lemma lower_colon: "map lower p \<in> {''unix'', ''tcp''} \<Longrightarrow> CHR '':'' \<notin> set p"
  using lower_special(1) [of "CHR '':''"] image_eqI [of "CHR '':''" lower "CHR '':''" "set p"]
  by (auto simp flip: set_map)


end
