(* ===== verification/Lifecycle.thy ===== *)
theory Lifecycle
  imports Server_Facts App_Facts
begin

text \<open>
  The driver from one start to the next: what \<^verbatim>\<open>buildDriver\<close> sets up is what the process works on, and what a process that was
  killed has left is what the next one starts from.
\<close>


lemma source_ok_test: "source_ok set (platGetFiles samplePlatform testSource)"
  by (auto simp: source_ok_def ret_def safe_key_def pcomps_def unreserved_def hasPrefix_def)


end
