(* ===== verification/Spec2Isabelle.thy ===== *)
theory Spec2Isabelle
  imports Atomic_Writer_Limits Storage_Facts Manager_Channels Driver_Races Lifecycle
begin

text \<open>
  A verification library for the CSI driver that mounts trusted CA certificates into pods
  (\<^verbatim>\<open>csi-driver-trusted-ca\<close>).

  \<^bold>\<open>The program.\<close> The kubelet calls the node service (\<^verbatim>\<open>pkg/driver\<close>) to publish a volume. The service registers
  the metadata of the volume with a storage backend (\<^verbatim>\<open>pkg/storage\<close>), has the manager (\<^verbatim>\<open>pkg/manager\<close>) fetch
  the certificates from a source (\<^verbatim>\<open>pkg/source\<close>, \<^verbatim>\<open>pkg/registry\<close>) and write them through the backend, and
  bind-mounts the data directory of the volume on the target path. The filesystem backend writes with the
  atomic writer (\<^verbatim>\<open>pkg/util\<close>): files go to a new timestamped directory, post-write functions
  (\<^verbatim>\<open>pkg/linuxtls\<close>) add a bundle and hash links, and one rename of a symbolic link switches readers over. The
  command (\<^verbatim>\<open>cmd\<close>) reads the flags, puts the parts together and serves until a signal stops the server.

  \<^bold>\<open>How code is modelled.\<close> Code that may fail and changes state is a function from a state to a result in
  \<open>goerr + 'a\<close> and a new state (type \<open>io\<close> of \<^verbatim>\<open>Prelude\<close>). Sequencing, \<^verbatim>\<open>if err != nil\<close>, ignored errors and loops are
  combinators with rules of a Hoare logic (\<open>hoare_rules\<close>) and equivalences for results (\<open>io_iff\<close>). A Go map is an
  association list that is only read through \<open>map_of\<close>, and iteration over a map takes its order from the environment. The
  operating system (\<open>world\<close> of \<^verbatim>\<open>Go_OS\<close>) is a file system as a map from paths to files, directories and links,
  with a fault schedule that lets any system call fail with \<open>EIO\<close>, a clock, a source of random numbers and
  the umask. A crash after a call is a schedule in which all later calls fail.

  \<^bold>\<open>Theories.\<close>

  \<^item> \<^verbatim>\<open>Prelude\<close>: errors, the combinators, their rules. \<^verbatim>\<open>Go_Path\<close>: \<^verbatim>\<open>path\<close> and \<^verbatim>\<open>filepath\<close>. \<^verbatim>\<open>Go_OS\<close>: the
    system calls behind \<^verbatim>\<open>os\<close> and \<^verbatim>\<open>io/fs\<close>. \<^verbatim>\<open>Go_JSON\<close>: quoting, encoding and decoding. \<^verbatim>\<open>OS_Facts\<close>, \<^verbatim>\<open>OS_Hoare\<close>,
    \<^verbatim>\<open>OS_Success\<close>: path resolution, which paths a call may change, and when calls succeed without faults.

  \<^item> \<^verbatim>\<open>Atomic_Writer\<close>: \<^verbatim>\<open>pkg/util/atomic_writer.go\<close>, every function; \<open>Write\<close> is composed of the numbered steps of
    the source. \<^verbatim>\<open>Atomic_Writer_Paths\<close>, \<^verbatim>\<open>Atomic_Writer_Build\<close>, \<^verbatim>\<open>Atomic_Writer_Publish\<close> and
    \<^verbatim>\<open>Atomic_Writer_Cleanup\<close> follow a write: what a directory holds after each step, on success and on failure.
    \<^verbatim>\<open>Atomic_Writer_Facts\<close>: a write is atomic under every fault schedule. \<^verbatim>\<open>Atomic_Writer_Limits\<close>: which paths are
    accepted, and that a stale temporary link blocks all writes.

  \<^item> \<^verbatim>\<open>Linux_TLS\<close>: \<^verbatim>\<open>pkg/linuxtls\<close>, the bundle and the rehash step, and that both keep the contract of post-write
    functions.

  \<^item> \<^verbatim>\<open>Metadata\<close>: \<^verbatim>\<open>pkg/metadata\<close> and its JSON form, with the round trip. \<^verbatim>\<open>Storage_Interface\<close>: the contract of
    \<^verbatim>\<open>storage.Interface\<close> as the locale \<open>metadata_store\<close>. \<^verbatim>\<open>Storage_Memory\<close>, \<^verbatim>\<open>Storage_Filesystem\<close>: the two backends.
    \<^verbatim>\<open>Storage_Filesystem_Facts\<close> and \<^verbatim>\<open>Storage_Write_Facts\<close>: the filesystem backend keeps its invariant \<open>fs_ok\<close> and
    meets the contract; writing files publishes them. \<^verbatim>\<open>Storage_Orphan\<close>: what writing to a volume that was removed
    leaves, and what that does to a start of the manager. \<^verbatim>\<open>Storage_Facts\<close>: both backends refine a map from volume
    IDs to contexts, so they agree on every sequence of calls; the group IDs that are applied.

  \<^item> \<^verbatim>\<open>Manager\<close>, \<^verbatim>\<open>Manager_Facts\<close>, \<^verbatim>\<open>Manager_Channels\<close>: \<^verbatim>\<open>pkg/manager\<close>. Stop channels are numbers, and closing one twice
    is a panic; no sequence of calls panics or loses a channel, and a new manager resumes exactly the
    stored volumes.

  \<^item> \<^verbatim>\<open>Registry\<close>, \<^verbatim>\<open>Registry_Facts\<close>, \<^verbatim>\<open>Source\<close>, \<^verbatim>\<open>Source_Facts\<close>: \<^verbatim>\<open>pkg/registry\<close> and \<^verbatim>\<open>pkg/source\<close>.

  \<^item> \<^verbatim>\<open>Driver\<close>: \<^verbatim>\<open>pkg/driver\<close>. \<^verbatim>\<open>Driver_Facts\<close>: the locale \<open>node_env\<close> extends \<open>metadata_store\<close> by the laws of the
    mounter, and publish and unpublish are proved once in it, for single calls and for all sequences of calls
    (\<open>node_reach\<close>). \<^verbatim>\<open>Driver_Stores\<close>: both backends beside a host with mounts satisfy the locale.
    \<^verbatim>\<open>Driver_Store_Facts\<close>: the resulting properties of the driver on the filesystem backend.

  \<^item> \<^verbatim>\<open>Driver_Calls\<close>: publish and unpublish calls as sequences of steps under any schedule, and that the steps are the
    handlers. \<^verbatim>\<open>Driver_Interleaving\<close>: calls for different volumes are independent, by an assertion for every point of a call
    that the steps of other calls keep. \<^verbatim>\<open>Driver_Races\<close>: two schedules in which calls for one volume go wrong.

  \<^item> \<^verbatim>\<open>App\<close>, \<^verbatim>\<open>App_Facts\<close>: \<^verbatim>\<open>cmd\<close> and the API constants: flags, and the driver that start-up builds.

  \<^item> \<^verbatim>\<open>Server\<close>: \<^verbatim>\<open>Run\<close> and \<^verbatim>\<open>Stop\<close> of the server and the driver, and the process with its two goroutines, its calls and
    the events that reach it, as a step function and the relation \<open>proc_reach\<close>. \<^verbatim>\<open>Server_Facts\<close>: the server and the goroutines
    keep \<open>srv_inv\<close>, so that a process ends without error only when its calls have returned; stopping ends; the state of the
    node service is in order at every moment. \<^verbatim>\<open>Lifecycle\<close>: from one start of the driver to the next.

  \<^item> \<^verbatim>\<open>Samples\<close>: concrete file systems for the witnesses.

  \<^bold>\<open>How the properties fit together.\<close> The atomic writer's property gives that of \<open>WriteFiles\<close>; with the contract of
  the store and the manager's invariant it gives the properties of the node service; the state that start-up
  reaches is one in which these hold (\<open>driver_ok\<close>), and it holds again after every call. The same laws give the
  assertions of the steps of a call; with these the invariant holds between any two steps of a process, and what a killed process
  leaves is a state from which start-up reaches \<open>driver_ok\<close> again.

  \<^bold>\<open>Bounds.\<close> Path resolution follows at most 40 links and then fails with \<open>ELOOP\<close>, as the system
  does. \<^verbatim>\<open>os.MkdirTemp\<close> tries 10000 names, as in the Go library. All other loops end by structure or by a measure. Modes and
  hashes are 32-bit words, and group IDs are reduced to 32 bits where the system call does so. A publish
  call has at most twelve steps and an unpublish call four; schedules and sequences of events are lists of any length.

  \<^bold>\<open>Parameters.\<close> Code outside the repository is an argument: the mounter, \<^verbatim>\<open>DeepEqual\<close>, the command
  \<^verbatim>\<open>openssl rehash\<close>, the Kubernetes client, the registry library, docker credentials, \<^verbatim>\<open>gzip\<close> and \<^verbatim>\<open>tar\<close>, cobra,
  \<^verbatim>\<open>net.Listen\<close> and the gRPC server. What is relied on of them are named hypotheses (\<open>deepEqual_ok\<close>, \<open>rehash_ok\<close>,
  \<open>host_ok\<close>, \<open>source_ok\<close>, \<open>listen_ok\<close>, \<open>cobra_ok\<close>, \<open>grpc_ok\<close>; \<open>kubelet_ok\<close> of the caller), each with an instance
  that satisfies it. The store and the target paths are taken to lie in separate parts of the file system.

  \<^bold>\<open>Not modelled.\<close> Log output beyond the interceptor's lines; wording of error messages where the source formats
  values into them (the fixed text is kept); the contexts of single calls, whose cancellation only the libraries see; the
  second signal, at which the signal library exits the process; the usage and help texts. Locks are not
  explicit: every method of the manager that touches its table, and every method of the memory backend, holds its lock
  for its whole body, so concurrent calls are sequences of these. Between them the steps of calls interleave; the system calls of
  one storage operation are not interleaved with those of another. The helpers under \<^verbatim>\<open>test/e2e\<close> start clusters and
  containers for tests and hold no logic of the driver.
\<close>

end
